(* ===== verification/Cspot_Prelude.thy ===== *)
theory Cspot_Prelude
  imports Main "HOL-Library.Word"
begin

text \<open>
  What the component theories share: the names of the C integer types, the outcome of an
  operation that may block or fault, little-endian byte strings, byte-addressed memory, the
  arithmetic of circular buffers and the interface of an array of slots on which the WooF
  file (\<^verbatim>\<open>src/src/woofc.cpp\<close>) and the event log (\<^verbatim>\<open>src/src/log.cpp\<close>) both build.
\<close>

named_theorems ring_simps \<open>arithmetic of circular buffer positions\<close>
named_theorems mem_simps \<open>loads and stores in byte-addressed memory\<close>
named_theorems run_simps \<open>sequencing of operations that may block or fault\<close>

section \<open>C integer types\<close>

type_synonym u8 = "8 word"
type_synonym u16 = "16 word"
type_synonym u32 = "32 word"
type_synonym u64 = "64 word"
type_synonym bytes = "u8 list"

section \<open>Operations that may block or fault\<close>

text \<open>
  \<open>Ret x\<close>: the operation returns \<open>x\<close>. \<open>Blocked\<close>: it waits on a semaphore whose value
  is not positive. \<open>Fault\<close>: it traps (a division by zero, an access outside the mapped
  file, an exit of the process).
\<close>

datatype 'a run = Ret 'a | Blocked | Fault

fun run_bind :: "'a run \<Rightarrow> ('a \<Rightarrow> 'b run) \<Rightarrow> 'b run" where
  "run_bind (Ret x) f = f x"
| "run_bind Blocked f = Blocked"
| "run_bind Fault f = Fault"

lemma run_bind_Ret_iff [run_simps]:
  "run_bind m f = Ret y \<longleftrightarrow> (\<exists>x. m = Ret x \<and> f x = Ret y)"
  by (cases m) auto

lemma run_bind_cong [fundef_cong]:
  "m = m' \<Longrightarrow> (\<And>x. m' = Ret x \<Longrightarrow> f x = g x) \<Longrightarrow> run_bind m f = run_bind m' g"
  by (cases m') auto

lemma run_bind_assoc:
  "run_bind (run_bind m f) g = run_bind m (\<lambda>x. run_bind (f x) g)"
  by (cases m) auto

text \<open>Whenever the run returns, its result satisfies the predicate.\<close>

definition returns :: "('a \<Rightarrow> bool) \<Rightarrow> 'a run \<Rightarrow> bool" where
  "returns P m \<longleftrightarrow> (\<forall>x. m = Ret x \<longrightarrow> P x)"

lemma returns_simps [simp]: "returns P (Ret x) = P x" "returns P Fault" "returns P Blocked"
  by (simp_all add: returns_def)

lemma returnsD: "returns P m \<Longrightarrow> m = Ret x \<Longrightarrow> P x"
  by (simp add: returns_def)

lemma returns_bind: "(\<And>x. m = Ret x \<Longrightarrow> returns P (f x)) \<Longrightarrow> returns P (run_bind m f)"
  by (cases m) simp_all

lemma returns_if: "(b \<Longrightarrow> returns P m) \<Longrightarrow> (\<not> b \<Longrightarrow> returns P m') \<Longrightarrow> returns P (if b then m else m')"
  by simp

lemma returns_let: "(\<And>y. y = x \<Longrightarrow> returns P (f y)) \<Longrightarrow> returns P (Let x f)"
  by (simp add: Let_def)

lemma returns_prod: "(\<And>a b. x = (a, b) \<Longrightarrow> returns P (f a b)) \<Longrightarrow> returns P (case_prod f x)"
  by (cases x) simp

lemma returns_option:
  "(x = None \<Longrightarrow> returns P m) \<Longrightarrow> (\<And>a. x = Some a \<Longrightarrow> returns P (f a)) \<Longrightarrow> returns P (case_option m f x)"
  by (cases x) simp_all

lemma returns_list:
  "(x = [] \<Longrightarrow> returns P m) \<Longrightarrow> (\<And>a as. x = a # as \<Longrightarrow> returns P (f a as)) \<Longrightarrow> returns P (case_list m f x)"
  by (cases x) simp_all

lemmas returns_intros = returns_bind returns_if returns_let returns_prod returns_option returns_list

section \<open>Lists\<close>

lemma take_append_take: "take k (xs @ take k ys) = take k (xs @ ys)"
  by (simp add: min_def)

section \<open>Unsigned 64-bit counters\<close>

lemma unat64_less: "unat (w :: u64) < 2 ^ 64"
  using unsigned_less[of w, where 'a = nat] by simp

lemma unat64_plus1: "unat (w :: u64) < unat (n :: u64) \<Longrightarrow> unat (w + 1) = Suc (unat w)"
proof -
  assume "unat w < unat n"
  then have "Suc (unat w) < 2 ^ 64" using unat64_less[of n] by simp
  then show ?thesis by (simp add: unat_word_ariths)
qed

lemma unat64_add: "unat a + unat b < 2 ^ 64 \<Longrightarrow> unat (a + b :: u64) = unat a + unat b"
  by (simp add: unat_word_ariths)

lemma unat64_mult: "unat a * unat b < 2 ^ 64 \<Longrightarrow> unat (a * b :: u64) = unat a * unat b"
  by (simp add: unat_word_ariths)

lemma unat64_sub: "unat b \<le> unat a \<Longrightarrow> unat (a - b :: u64) = unat a - unat b"
  by (simp add: unat_sub word_le_nat_alt)

lemma unat64_minus1: "0 < unat a \<Longrightarrow> unat (a - 1 :: u64) = unat a - 1"
  by (cases "a = 0") (auto simp: unat_minus_one)

text \<open>The successor position \<open>(w + 1) % n\<close> of the C code.\<close>

lemma unat64_next [ring_simps]:
  "unat (w :: u64) < unat n \<Longrightarrow> unat ((w + 1) mod n) = Suc (unat w) mod unat n"
  by (simp add: unat_mod_distrib unat64_plus1)

text \<open>The predecessor position: \<open>w - 1\<close>, and the last slot on an unsigned wrap.\<close>

lemma unat64_pred:
  "unat (w :: u64) < unat n \<Longrightarrow>
   unat (if n \<le> w - 1 then n - 1 else w - 1) = (if unat w = 0 then unat n - 1 else unat w - 1)"
proof (cases "w = 0")
  case True
  assume lt: "unat w < unat n"
  then have "n \<noteq> 0" by auto
  then have "unat (n - 1) = unat n - 1" by (simp add: unat_minus_one)
  moreover have "n \<le> (0 - 1 :: u64)" by (simp add: word_order.extremum)
  ultimately show ?thesis using True by simp
next
  case False
  assume lt: "unat w < unat n"
  from False have "unat (w - 1) = unat w - 1" by (simp add: unat_minus_one)
  moreover from this lt have "\<not> n \<le> w - 1" by (auto simp: word_le_nat_alt)
  ultimately show ?thesis using False by (simp add: unat_eq_0)
qed

section \<open>Little-endian byte strings\<close>

fun le_bytes :: "nat \<Rightarrow> nat \<Rightarrow> bytes" where
  "le_bytes 0 n = []"
| "le_bytes (Suc k) n = of_nat (n mod 256) # le_bytes k (n div 256)"

fun of_le_bytes :: "bytes \<Rightarrow> nat" where
  "of_le_bytes [] = 0"
| "of_le_bytes (b # bs) = unat b + 256 * of_le_bytes bs"

lemma length_le_bytes [simp]: "length (le_bytes k n) = k"
  by (induction k arbitrary: n) auto

lemma of_le_bytes_le_bytes: "of_le_bytes (le_bytes k n) = n mod 256 ^ k"
proof (induction k arbitrary: n)
  case 0
  then show ?case by simp
next
  case (Suc k)
  have "of_le_bytes (le_bytes (Suc k) n) = n mod 256 + 256 * ((n div 256) mod 256 ^ k)"
    by (simp add: Suc.IH unat_of_nat)
  also have "\<dots> = n mod (256 * 256 ^ k)"
    by (simp add: mod_mult2_eq)
  finally show ?case by simp
qed

lemma of_le_bytes_less: "of_le_bytes bs < 256 ^ length bs"
proof (induction bs)
  case Nil
  then show ?case by simp
next
  case (Cons b bs)
  have "unat b < 256" using unsigned_less[of b, where 'a = nat] by simp
  with Cons show ?case by simp
qed

lemma le_bytes_of_le_bytes: "length bs = k \<Longrightarrow> le_bytes k (of_le_bytes bs) = bs"
proof (induction bs arbitrary: k)
  case Nil
  then show ?case by simp
next
  case (Cons b bs)
  have b: "unat b < 256" using unsigned_less[of b, where 'a = nat] by simp
  from Cons.prems obtain k' where k: "k = Suc k'" "length bs = k'" by auto
  have "(unat b + 256 * of_le_bytes bs) mod 256 = unat b" using b by simp
  moreover have "(unat b + 256 * of_le_bytes bs) div 256 = of_le_bytes bs" using b by simp
  ultimately show ?case using Cons.IH[OF k(2)] k by simp
qed

definition le64 :: "u64 \<Rightarrow> bytes" where
  "le64 w = le_bytes 8 (unat w)"

definition of_le64 :: "bytes \<Rightarrow> u64" where
  "of_le64 bs = of_nat (of_le_bytes bs)"

lemma length_le64 [simp]: "length (le64 w) = 8"
  by (simp add: le64_def)

lemma of_le64_le64 [simp]: "of_le64 (le64 w) = w"
proof -
  have "unat w < 256 ^ 8" using unsigned_less[of w, where 'a = nat] by simp
  then show ?thesis by (simp add: of_le64_def le64_def of_le_bytes_le_bytes)
qed

section \<open>Byte-addressed memory\<close>

definition load :: "bytes \<Rightarrow> nat \<Rightarrow> nat \<Rightarrow> bytes" where
  "load m off k = take k (drop off m)"

definition overwrite :: "bytes \<Rightarrow> nat \<Rightarrow> bytes \<Rightarrow> bytes" where
  "overwrite m off bs = take off m @ bs @ drop (off + length bs) m"

text \<open>\<open>memcpy\<close> to and from a mapped region: an access outside the region faults.\<close>

definition memcpy_to :: "bytes \<Rightarrow> nat \<Rightarrow> bytes \<Rightarrow> bytes run" where
  "memcpy_to m off bs = (if off + length bs \<le> length m then Ret (overwrite m off bs) else Fault)"

definition memcpy_from :: "bytes \<Rightarrow> nat \<Rightarrow> nat \<Rightarrow> bytes run" where
  "memcpy_from m off k = (if off + k \<le> length m then Ret (load m off k) else Fault)"

lemma length_overwrite [mem_simps]:
  "off + length bs \<le> length m \<Longrightarrow> length (overwrite m off bs) = length m"
  by (simp add: overwrite_def)

lemma load_overwrite_same [mem_simps]:
  "off + length bs \<le> length m \<Longrightarrow> k = length bs \<Longrightarrow> load (overwrite m off bs) off k = bs"
  by (simp add: load_def overwrite_def)

lemma load_overwrite_before [mem_simps]:
  "off + length bs \<le> length m \<Longrightarrow> i + k \<le> off \<Longrightarrow> load (overwrite m off bs) i k = load m i k"
  by (simp add: load_def overwrite_def drop_take)

lemma load_overwrite_after [mem_simps]:
  "off + length bs \<le> length m \<Longrightarrow> off + length bs \<le> i \<Longrightarrow>
   load (overwrite m off bs) i k = load m i k"
proof -
  assume le: "off + length bs \<le> length m" and i: "off + length bs \<le> i"
  have "drop i (overwrite m off bs) = drop i m"
    using le i by (simp add: overwrite_def)
  then show ?thesis by (simp add: load_def)
qed

lemma length_load [mem_simps]: "i + k \<le> length m \<Longrightarrow> length (load m i k) = k"
  by (simp add: load_def)

section \<open>Circular buffer positions\<close>

text \<open>\<open>behind n h i\<close> is the position \<open>i\<close> steps before \<open>h\<close> in a buffer of \<open>n\<close> slots.\<close>

definition behind :: "nat \<Rightarrow> nat \<Rightarrow> nat \<Rightarrow> nat" where
  "behind n h i = (h + n - i) mod n"

lemma behind_0 [ring_simps]: "h < n \<Longrightarrow> behind n h 0 = h"
  by (simp add: behind_def)

lemma behind_less [ring_simps]: "0 < n \<Longrightarrow> behind n h i < n"
  by (simp add: behind_def)

lemma behind_eq: "h < n \<Longrightarrow> i < n \<Longrightarrow> behind n h i = (if i \<le> h then h - i else h + n - i)"
  by (simp add: behind_def mod_if)

lemma Suc_mod_eq: "h < n \<Longrightarrow> Suc h mod n = (if Suc h = n then 0 else Suc h)"
  by (simp add: mod_if)

lemma behind_Suc [ring_simps]: "h < n \<Longrightarrow> Suc i < n \<Longrightarrow> behind n (Suc h mod n) (Suc i) = behind n h i"
  by (auto simp: behind_eq Suc_mod_eq)

lemma behind_inj [ring_simps]:
  "h < n \<Longrightarrow> i < n \<Longrightarrow> j < n \<Longrightarrow> behind n h i = behind n h j \<longleftrightarrow> i = j"
  by (auto simp: behind_eq split: if_splits)

lemma behind_neq_next:
  "h < n \<Longrightarrow> i < n - 1 \<Longrightarrow> behind n h i \<noteq> Suc h mod n"
  by (auto simp: behind_eq Suc_mod_eq split: if_splits)

lemma behind_eq_next: "h < n \<Longrightarrow> behind n h (n - 1) = Suc h mod n"
  by (auto simp: behind_eq Suc_mod_eq)

lemma behind_pred: "h < n \<Longrightarrow> Suc i < n \<Longrightarrow>
   behind n h (Suc i) = (if behind n h i = 0 then n - 1 else behind n h i - 1)"
  by (auto simp: behind_eq)

text \<open>The number of entries after \<open>t\<close> up to \<open>h\<close>.\<close>

definition span :: "nat \<Rightarrow> nat \<Rightarrow> nat \<Rightarrow> nat" where
  "span n h t = (h + n - t) mod n"

lemma span_less [ring_simps]: "0 < n \<Longrightarrow> span n h t < n"
  by (simp add: span_def)

lemma span_eq: "h < n \<Longrightarrow> t < n \<Longrightarrow> span n h t = (if t \<le> h then h - t else h + n - t)"
  by (simp add: span_def mod_if)

lemma span_next: "h < n \<Longrightarrow> t < n \<Longrightarrow> Suc h mod n \<noteq> t \<Longrightarrow> span n (Suc h mod n) t = Suc (span n h t)"
  by (auto simp: span_eq Suc_mod_eq)

lemma span_full: "h < n \<Longrightarrow> span n h (Suc h mod n) = n - 1"
  by (auto simp: span_eq Suc_mod_eq)

lemma behind_span: "h < n \<Longrightarrow> t < n \<Longrightarrow> i < n \<Longrightarrow> behind n h i = t \<longleftrightarrow> i = span n h t"
  by (auto simp: behind_eq span_eq split: if_splits)

text \<open>The \<open>k\<close> entries ending at \<open>h\<close>, newest first, of a buffer read by \<open>rd\<close>.\<close>

definition newest :: "(nat \<Rightarrow> 'e) \<Rightarrow> nat \<Rightarrow> nat \<Rightarrow> nat \<Rightarrow> 'e list" where
  "newest rd n h k = map (\<lambda>i. rd (behind n h i)) [0..<k]"

lemma length_newest [simp]: "length (newest rd n h k) = k"
  by (simp add: newest_def)

lemma nth_newest [simp]: "i < k \<Longrightarrow> newest rd n h k ! i = rd (behind n h i)"
  by (simp add: newest_def)

lemma take_newest: "j \<le> k \<Longrightarrow> take j (newest rd n h k) = newest rd n h j"
  by (simp add: newest_def take_map)

section \<open>Arrays of slots\<close>

text \<open>
  The contract of an array of \<open>cap\<close> slots: a write changes its own slot and no other. The
  client is a circular buffer that writes the slot after its head.
\<close>

locale slot_array =
  fixes rd :: "'m \<Rightarrow> nat \<Rightarrow> 'e"
    and wr :: "'m \<Rightarrow> nat \<Rightarrow> 'e \<Rightarrow> 'm"
    and cap :: "'m \<Rightarrow> nat"
    and ok :: "'e \<Rightarrow> bool"
  assumes rd_wr_same: "i < cap m \<Longrightarrow> ok e \<Longrightarrow> rd (wr m i e) i = e"
    and rd_wr_other: "i < cap m \<Longrightarrow> j < cap m \<Longrightarrow> j \<noteq> i \<Longrightarrow> ok e \<Longrightarrow> rd (wr m i e) j = rd m j"
    and cap_wr: "i < cap m \<Longrightarrow> ok e \<Longrightarrow> cap (wr m i e) = cap m"
begin

text \<open>Writing the slot after the head pushes the entry in front of the older ones.\<close>

lemma newest_push:
  assumes n: "n \<le> cap m" "h < n" and k: "k < n" and e: "ok e"
  shows "newest (rd (wr m (Suc h mod n) e)) n (Suc h mod n) (Suc k) = e # newest (rd m) n h k"
proof (rule nth_equalityI)
  show "length (newest (rd (wr m (Suc h mod n) e)) n (Suc h mod n) (Suc k))
        = length (e # newest (rd m) n h k)" by simp
next
  fix i assume "i < length (newest (rd (wr m (Suc h mod n) e)) n (Suc h mod n) (Suc k))"
  then have i: "i < Suc k" by simp
  from n have nx: "Suc h mod n < n" by simp
  note nxc = less_le_trans[OF nx n(1)]
  show "newest (rd (wr m (Suc h mod n) e)) n (Suc h mod n) (Suc k) ! i
        = (e # newest (rd m) n h k) ! i"
  proof (cases i)
    case 0
    moreover have "rd (wr m (Suc h mod n) e) (Suc h mod n) = e"
      by (rule rd_wr_same[OF nxc e])
    ultimately show ?thesis using nx by (simp add: behind_0)
  next
    case (Suc j)
    with i k have j: "j < k" "Suc j < n" by auto
    then have "behind n h j \<noteq> Suc h mod n" using n by (intro behind_neq_next) auto
    moreover have "behind n h j < n" using n by (intro behind_less) auto
    ultimately have "rd (wr m (Suc h mod n) e) (behind n h j) = rd m (behind n h j)"
      using n by (intro rd_wr_other[OF nxc _ _ e]) auto
    then show ?thesis using Suc j i n by (simp add: behind_Suc)
  qed
qed

text \<open>The same when the buffer is full: the oldest entry is the one overwritten.\<close>

lemma newest_push_take:
  assumes "n \<le> cap m" "h < n" "k \<le> n" "0 < k" "ok e"
  shows "newest (rd (wr m (Suc h mod n) e)) n (Suc h mod n) k
         = take k (e # newest (rd m) n h k)"
proof -
  from assms obtain k' where k: "k = Suc k'" by (cases k) auto
  have "newest (rd (wr m (Suc h mod n) e)) n (Suc h mod n) k = e # newest (rd m) n h k'"
    unfolding k using assms k by (intro newest_push) auto
  also have "\<dots> = take k (e # newest (rd m) n h k)"
    by (simp add: k take_newest)
  finally show ?thesis .
qed

end

section \<open>Counting threads\<close>

lemma card_fun_upd:
  assumes "finite {u. Q (f u)}"
  shows "int (card {u. Q ((f(t := x)) u)})
         = int (card {u. Q (f u)}) - (if Q (f t) then 1 else 0) + (if Q x then 1 else 0)"
proof -
  define A where "A = {u. Q (f u)} - {t}"
  have A: "finite A" "t \<notin> A" using assms by (auto simp: A_def)
  have new: "{u. Q ((f(t := x)) u)} = (if Q x then insert t A else A)"
    by (auto simp: A_def)
  have old: "{u. Q (f u)} = (if Q (f t) then insert t A else A)"
    by (auto simp: A_def)
  have "int (card {u. Q (f u)}) = int (card A) + (if Q (f t) then 1 else 0)"
    by (subst old) (use A in auto)
  moreover have "int (card {u. Q ((f(t := x)) u)}) = int (card A) + (if Q x then 1 else 0)"
    by (subst new) (use A in auto)
  ultimately show ?thesis by simp
qed

lemma finite_fun_upd: "finite {u. Q (f u)} \<Longrightarrow> finite {u. Q ((f(t := x)) u)}"
  by (rule finite_subset[of _ "insert t {u. Q (f u)}"]) auto

lemma card_fun_upd2:
  assumes "finite {u. Q (f u)}" "t \<noteq> u"
  shows "int (card {w. Q ((f(t := x, u := y)) w)})
         = int (card {w. Q (f w)}) - (if Q (f t) then 1 else 0) - (if Q (f u) then 1 else 0)
           + (if Q x then 1 else 0) + (if Q y then 1 else 0)"
  using assms by (simp add: card_fun_upd finite_fun_upd fun_upd_other del: fun_upd_apply)

end
