(* ===== verification/Sema.thy ===== *)
theory Sema
  imports Cspot_Prelude
begin

text \<open>
  The futex semaphores of \<^verbatim>\<open>src/src/lsema.c\<close> (the branch compiled on Linux). First the
  operations as a caller that is not interrupted sees them, with the law the WooF code relies
  on; then the threads of \<open>P\<close> and \<open>V\<close> step by step: each atomic access and each futex call is
  one step, and the threads interleave freely. The futex call itself is the kernel's: waiting
  returns at once when the word is not zero, sleeps otherwise, and a sleeper returns when it is
  woken or interrupted; no other error occurs for a valid address.
\<close>

section \<open>The semaphore and its operations\<close>

record sema =
  sema_value :: "32 word"

definition INT_MAX :: "32 word" where
  "INT_MAX = 0x7FFFFFFF"

abbreviation sem_val :: "sema \<Rightarrow> int" where
  "sem_val s \<equiv> sint (sema_value s)"

definition InitSem :: "sema \<Rightarrow> 32 word \<Rightarrow> int \<times> sema" where
  "InitSem s init_val =
     (if sint init_val < 0 then (- 1, s) else (1, s\<lparr>sema_value := init_val\<rparr>))"

definition sem_P :: "sema \<Rightarrow> sema run" where
  "sem_P s = (let cur = sema_value s in
     if 0 < sint cur then Ret (s\<lparr>sema_value := cur - 1\<rparr>) else Blocked)"

definition sem_V :: "sema \<Rightarrow> sema" where
  "sem_V s = (let old = sema_value s; s1 = s\<lparr>sema_value := old + 1\<rparr> in
     if old = INT_MAX then s1\<lparr>sema_value := sema_value s1 - 1\<rparr> else s1)"

definition GetSemValue :: "sema \<Rightarrow> int \<times> int" where
  "GetSemValue s = (0, sint (sema_value s))"

section \<open>Signed 32-bit counters\<close>

lemma sint32_range: "- (2 ^ 31) \<le> sint (w :: 32 word)" "sint (w :: 32 word) < 2 ^ 31"
  using sint_greater_eq[of w] sint_less[of w] by simp_all

lemma sint32_of_int: "- (2 ^ 31) \<le> i \<Longrightarrow> i < 2 ^ 31 \<Longrightarrow> sint (word_of_int i :: 32 word) = i"
  by (simp add: sint_sbintrunc' signed_take_bit_int_eq_self)

lemma sint_inject32: "sint (a :: 32 word) = sint b \<longleftrightarrow> a = b"
  by (auto dest: arg_cong[of _ _ "word_of_int :: int \<Rightarrow> 32 word"])

lemma sint_INT_MAX [simp]: "sint INT_MAX = 2 ^ 31 - 1"
  by (simp add: INT_MAX_def)

lemma sint32_plus1: "(w :: 32 word) \<noteq> INT_MAX \<Longrightarrow> sint (w + 1) = sint w + 1"
proof -
  assume "w \<noteq> INT_MAX"
  then have "sint w \<noteq> 2 ^ 31 - 1" using sint_inject32[of w INT_MAX] by simp
  then have "sint w + 1 < 2 ^ 31" using sint32_range(2)[of w] by simp
  then have "sint (word_of_int (sint w + 1) :: 32 word) = sint w + 1"
    using sint32_range(1)[of w] by (intro sint32_of_int) auto
  then show ?thesis by simp
qed

lemma sint32_minus1: "0 < sint (w :: 32 word) \<Longrightarrow> sint (w - 1) = sint w - 1"
proof -
  assume "0 < sint w"
  then have "sint (word_of_int (sint w - 1) :: 32 word) = sint w - 1"
    using sint32_range(2)[of w] by (intro sint32_of_int) auto
  then show ?thesis by simp
qed

lemma not_INT_MAX: "sint w < 2 ^ 31 - 1 \<Longrightarrow> w \<noteq> INT_MAX"
  by auto

section \<open>The contract of a counting semaphore\<close>

text \<open>
  What the WooF and log code rely on: \<open>P\<close> takes one unit or waits, \<open>V\<close> gives one back. The
  client lemmas are about the bracket \<open>P ... V\<close> around every critical section.
\<close>

locale counting_semaphore =
  fixes down :: "'s \<Rightarrow> 's run"
    and up :: "'s \<Rightarrow> 's"
    and units :: "'s \<Rightarrow> int"
    and limit :: int
  assumes down_pos: "0 < units s \<Longrightarrow> \<exists>s'. down s = Ret s' \<and> units s' = units s - 1"
    and down_zero: "units s \<le> 0 \<Longrightarrow> down s = Blocked"
    and up_units: "units s < limit \<Longrightarrow> units (up s) = units s + 1"
    and units_limit: "units s \<le> limit"
    and units_eq: "units s = units s' \<Longrightarrow> s = s'"
begin

lemma down_Ret_iff: "down s = Ret s' \<longleftrightarrow> 0 < units s \<and> units s' = units s - 1"
proof
  assume d: "down s = Ret s'"
  then have "0 < units s" using down_zero[of s] by (cases "0 < units s") auto
  then show "0 < units s \<and> units s' = units s - 1" using down_pos[of s] d by auto
next
  assume "0 < units s \<and> units s' = units s - 1"
  then show "down s = Ret s'" using down_pos[of s] units_eq by fastforce
qed

lemma bracket: "down s = Ret s' \<Longrightarrow> up s' = s"
proof -
  assume "down s = Ret s'"
  then have s': "units s' = units s - 1" by (simp add: down_Ret_iff)
  then have "units (up s') = units s" using units_limit[of s] by (subst up_units) auto
  then show ?thesis by (rule units_eq)
qed

lemma up_down: "0 \<le> units s \<Longrightarrow> units s < limit \<Longrightarrow> down (up s) = Ret s"
  by (simp add: down_Ret_iff up_units)

end

lemma sem_P_cases: "sem_P s = (if 0 < sem_val s then Ret \<lparr>sema_value = sema_value s - 1\<rparr> else Blocked)"
  by (cases s) (simp add: sem_P_def)

lemma sem_V_cases:
  "sem_V s = (if sema_value s = INT_MAX then s else \<lparr>sema_value = sema_value s + 1\<rparr>)"
  by (cases s) (simp add: sem_V_def)

interpretation futex: counting_semaphore sem_P sem_V sem_val "2 ^ 31 - 1"
proof
  fix s s' :: sema
  show "0 < sem_val s \<Longrightarrow> \<exists>s'. sem_P s = Ret s' \<and> sem_val s' = sem_val s - 1"
    by (simp add: sem_P_cases sint32_minus1)
  show "sem_val s \<le> 0 \<Longrightarrow> sem_P s = Blocked"
    by (simp add: sem_P_cases)
  show "sem_val s < 2 ^ 31 - 1 \<Longrightarrow> sem_val (sem_V s) = sem_val s + 1"
    using not_INT_MAX[of "sema_value s"] by (simp add: sem_V_cases sint32_plus1)
  show "sem_val s \<le> 2 ^ 31 - 1"
    using sint32_range(2)[of "sema_value s"] by simp
  show "sem_val s = sem_val s' \<Longrightarrow> s = s'"
    by (simp add: sint_inject32)
qed

section \<open>Interleaved threads\<close>

text \<open>
  Where a thread is: outside; at the load of \<open>P\<close>; holding the value it read; about to wait;
  asleep in the kernel; past \<open>P\<close>; past the addition of \<open>V\<close> with the old value.
\<close>

datatype pc = Idle | PLoad | PTry "32 word" | PWait | PAsleep | Held | VAdded "32 word"

record sys =
  sem :: sema
  pcs :: "nat \<Rightarrow> pc"
  acquired :: nat
  posted :: nat

abbreviation upd_pc :: "sys \<Rightarrow> nat \<Rightarrow> pc \<Rightarrow> sys" where
  "upd_pc s t p \<equiv> s\<lparr>pcs := (pcs s)(t := p)\<rparr>"

abbreviation val :: "sys \<Rightarrow> 32 word" where
  "val s \<equiv> sema_value (sem s)"

text \<open>
  With \<open>lock\<close> the semaphore is used as a lock: only a thread past \<open>P\<close> calls \<open>V\<close>, and it leaves
  that way. Without it threads also post units they never took, and consume units for good.
\<close>

inductive sem_step :: "bool \<Rightarrow> sys \<Rightarrow> sys \<Rightarrow> bool" for lock where
  call_P: "pcs s t = Idle \<Longrightarrow> sem_step lock s (upd_pc s t PLoad)"
| load_value: "pcs s t = PLoad \<Longrightarrow> sem_step lock s (upd_pc s t (PTry (val s)))"
| cas_success: "pcs s t = PTry cur \<Longrightarrow> 0 < sint cur \<Longrightarrow> val s = cur \<Longrightarrow>
    sem_step lock s (upd_pc s t Held \<lparr>sem := \<lparr>sema_value = cur - 1\<rparr>, acquired := Suc (acquired s)\<rparr>)"
| cas_failure: "pcs s t = PTry cur \<Longrightarrow> 0 < sint cur \<Longrightarrow> sem_step lock s (upd_pc s t (PTry (val s)))"
| no_unit: "pcs s t = PTry cur \<Longrightarrow> sint cur \<le> 0 \<Longrightarrow> sem_step lock s (upd_pc s t PWait)"
| wait_again: "pcs s t = PWait \<Longrightarrow> val s \<noteq> 0 \<Longrightarrow> sem_step lock s (upd_pc s t PLoad)"
| wait_sleep: "pcs s t = PWait \<Longrightarrow> val s = 0 \<Longrightarrow> sem_step lock s (upd_pc s t PAsleep)"
| wait_interrupted: "pcs s t = PAsleep \<Longrightarrow> sem_step lock s (upd_pc s t PLoad)"
| fetch_add: "pcs s t = Held \<or> \<not> lock \<and> pcs s t = Idle \<Longrightarrow>
    sem_step lock s (upd_pc s t (VAdded (val s)) \<lparr>sem := \<lparr>sema_value = val s + 1\<rparr>, posted := Suc (posted s)\<rparr>)"
| consume: "\<not> lock \<Longrightarrow> pcs s t = Held \<Longrightarrow> sem_step lock s (upd_pc s t Idle)"
| overflow: "pcs s t = VAdded old \<Longrightarrow> old = INT_MAX \<Longrightarrow>
    sem_step lock s (upd_pc s t Idle \<lparr>sem := \<lparr>sema_value = val s - 1\<rparr>\<rparr>)"
| wake_one: "pcs s t = VAdded old \<Longrightarrow> old \<noteq> INT_MAX \<Longrightarrow> pcs s u = PAsleep \<Longrightarrow> t \<noteq> u \<Longrightarrow>
    sem_step lock s (s\<lparr>pcs := (pcs s)(t := Idle, u := PLoad)\<rparr>)"
| wake_none: "pcs s t = VAdded old \<Longrightarrow> old \<noteq> INT_MAX \<Longrightarrow> \<forall>u. pcs s u \<noteq> PAsleep \<Longrightarrow>
    sem_step lock s (upd_pc s t Idle)"

definition init_sys :: "32 word \<Rightarrow> sys" where
  "init_sys v = \<lparr>sem = snd (InitSem \<lparr>sema_value = 0\<rparr> v), pcs = \<lambda>_. Idle, acquired = 0, posted = 0\<rparr>"

inductive sem_reach :: "bool \<Rightarrow> 32 word \<Rightarrow> sys \<Rightarrow> bool" for lock v where
  reach_init: "sem_reach lock v (init_sys v)"
| reach_step: "sem_reach lock v s \<Longrightarrow> sem_step lock s s' \<Longrightarrow> sem_reach lock v s'"

inductive_cases sem_stepE [elim?]: "sem_step lock s s'"

fun is_held :: "pc \<Rightarrow> bool" where
  "is_held Held = True"
| "is_held _ = False"

text \<open>A thread that is awake inside \<open>P\<close>, or that still has its wake-up call to make.\<close>

fun is_stirring :: "pc \<Rightarrow> bool" where
  "is_stirring PLoad = True"
| "is_stirring (PTry _) = True"
| "is_stirring PWait = True"
| "is_stirring (VAdded _) = True"
| "is_stirring _ = False"

definition holders :: "sys \<Rightarrow> nat set" where
  "holders s = {t. is_held (pcs s t)}"

definition stirring :: "sys \<Rightarrow> nat set" where
  "stirring s = {t. is_stirring (pcs s t)}"

section \<open>Invariants\<close>

definition fin_inv :: "sys \<Rightarrow> bool" where
  "fin_inv s \<longleftrightarrow> finite {t. pcs s t \<noteq> Idle}"

definition no_overflow :: "sys \<Rightarrow> bool" where
  "no_overflow s \<longleftrightarrow> (\<forall>t old. pcs s t = VAdded old \<longrightarrow> old \<noteq> INT_MAX)"

definition count_inv :: "32 word \<Rightarrow> sys \<Rightarrow> bool" where
  "count_inv v s \<longleftrightarrow> sint (val s) = sint v + int (posted s) - int (acquired s) \<and> 0 \<le> sint (val s)"

definition lock_inv :: "32 word \<Rightarrow> sys \<Rightarrow> bool" where
  "lock_inv v s \<longleftrightarrow> sint (val s) + int (card (holders s)) = sint v \<and> 0 \<le> sint (val s)"

definition asleep :: "(nat \<Rightarrow> pc) \<Rightarrow> nat set" where
  "asleep f = {t. f t = PAsleep}"

definition wake_inv :: "sys \<Rightarrow> bool" where
  "wake_inv s \<longleftrightarrow> (asleep (pcs s) \<noteq> {} \<longrightarrow> sint (val s) \<le> int (card (stirring s)))"

lemma fin_holders: "fin_inv s \<Longrightarrow> finite {t. is_held (pcs s t)}"
  unfolding fin_inv_def by (rule finite_subset[rotated]) auto

lemma fin_stirring: "fin_inv s \<Longrightarrow> finite {t. is_stirring (pcs s t)}"
  unfolding fin_inv_def by (rule finite_subset[rotated]) auto

lemma asleep_upd: "asleep (f(t := x)) = (if x = PAsleep then insert t (asleep f) else asleep f - {t})"
  by (auto simp: asleep_def)

lemma asleep_iff: "t \<in> asleep f \<longleftrightarrow> f t = PAsleep"
  by (simp add: asleep_def)

lemma fin_upd: "finite {t. f t \<noteq> Idle} \<Longrightarrow> finite {u. (f(t := x)) u \<noteq> Idle}"
  by (rule finite_subset[of _ "insert t {t. f t \<noteq> Idle}"]) auto

lemma fin_inv_step: "sem_step lock s s' \<Longrightarrow> fin_inv s \<Longrightarrow> fin_inv s'"
  by (erule sem_stepE) (simp_all add: fin_inv_def fin_upd del: fun_upd_apply)

lemmas sys_count_defs = holders_def stirring_def card_fun_upd card_fun_upd2 fin_holders fin_stirring

lemma init_inv:
  assumes "0 \<le> sint v"
  shows "fin_inv (init_sys v) \<and> no_overflow (init_sys v) \<and> count_inv v (init_sys v)
         \<and> lock_inv v (init_sys v) \<and> wake_inv (init_sys v)"
  using assms
  by (simp add: init_sys_def InitSem_def fin_inv_def no_overflow_def count_inv_def lock_inv_def
      wake_inv_def holders_def asleep_def)

text \<open>An addition that starts from the largest value is the only one that overflows.\<close>

definition add_ok :: "sys \<Rightarrow> sys \<Rightarrow> bool" where
  "add_ok s s' \<longleftrightarrow> posted s' = posted s \<or> val s \<noteq> INT_MAX"

lemma no_overflow_step:
  assumes "sem_step lock s s'" "no_overflow s" "add_ok s s'"
  shows "no_overflow s'"
  using assms by (cases rule: sem_step.cases) (auto simp: no_overflow_def add_ok_def split: if_splits)

lemma count_inv_step:
  assumes "sem_step lock s s'" "count_inv v s" "no_overflow s" "add_ok s s'"
  shows "count_inv v s'"
  using assms
  by (cases rule: sem_step.cases)
    (auto simp: count_inv_def no_overflow_def add_ok_def sint32_minus1 sint32_plus1)

lemma lock_inv_step:
  assumes "sem_step True s s'" "lock_inv v s" "no_overflow s" "fin_inv s" "add_ok s s'"
  shows "lock_inv v s'"
  using assms
  by (cases rule: sem_step.cases)
    (auto simp: lock_inv_def no_overflow_def add_ok_def sint32_minus1 sint32_plus1 sys_count_defs
      simp del: fun_upd_apply)

lemma lock_add_ok:
  assumes "sem_step True s s'" "lock_inv v s" "fin_inv s"
  shows "add_ok s s'"
proof (rule ccontr)
  assume "\<not> add_ok s s'"
  with assms(1) have "\<exists>t. pcs s t = Held \<and> val s = INT_MAX"
    by (cases rule: sem_step.cases) (auto simp: add_ok_def)
  then obtain t where "pcs s t = Held" and m: "val s = INT_MAX" by blast
  then have t: "t \<in> holders s" by (simp add: holders_def)
  have "finite (holders s)" using fin_holders[OF assms(3)] by (simp add: holders_def)
  with t have "0 < card (holders s)" by (auto simp: card_gt_0_iff)
  then show False
    using assms(2) m sint32_range(2)[of v] by (simp add: lock_inv_def)
qed

lemma wake_inv_step:
  assumes "sem_step lock s s'" "wake_inv s" "no_overflow s" "fin_inv s" "add_ok s s'"
  shows "wake_inv s'"
proof (cases "val s' = 0")
  case True
  then show ?thesis by (simp add: wake_inv_def)
next
  case False
  with assms show ?thesis
    by (cases rule: sem_step.cases)
      (auto simp: wake_inv_def no_overflow_def add_ok_def sint32_minus1 sint32_plus1 sys_count_defs
        asleep_upd asleep_iff simp del: fun_upd_apply split: if_splits)
qed

section \<open>Reachable states\<close>

lemma lock_reach_inv:
  assumes "sem_reach True v s" "0 \<le> sint v"
  shows "fin_inv s \<and> no_overflow s \<and> lock_inv v s \<and> wake_inv s"
  using assms
proof (induction rule: sem_reach.induct)
  case reach_init
  then show ?case using init_inv by simp
next
  case (reach_step s s')
  then have "add_ok s s'" using lock_add_ok by blast
  with reach_step show ?case
    using fin_inv_step no_overflow_step lock_inv_step wake_inv_step by blast
qed

lemma posted_mono: "sem_step lock s s' \<Longrightarrow> posted s \<le> posted s'"
  by (erule sem_stepE) auto

lemma free_add_ok:
  assumes "sem_step lock s s'" "count_inv v s" "sint v + int (posted s') < 2 ^ 31"
  shows "add_ok s s'"
proof (cases "posted s' = posted s")
  case False
  with posted_mono[OF assms(1)] have "posted s < posted s'" by simp
  with assms(2,3) have "sint (val s) < 2 ^ 31 - 1" by (auto simp: count_inv_def)
  then show ?thesis using not_INT_MAX by (simp add: add_ok_def)
qed (simp add: add_ok_def)

lemma free_reach_inv:
  assumes "sem_reach lock v s" "0 \<le> sint v" "sint v + int (posted s) < 2 ^ 31"
  shows "fin_inv s \<and> no_overflow s \<and> count_inv v s \<and> wake_inv s"
  using assms
proof (induction rule: sem_reach.induct)
  case reach_init
  then show ?case using init_inv by simp
next
  case (reach_step s s')
  have inv: "fin_inv s \<and> no_overflow s \<and> count_inv v s \<and> wake_inv s"
    using reach_step posted_mono[OF reach_step.hyps(2)] by simp
  then have "add_ok s s'" using free_add_ok reach_step by blast
  with reach_step inv show ?case
    using fin_inv_step no_overflow_step count_inv_step wake_inv_step by blast
qed

text \<open>Both uses: a lock never overflows; any other use as long as few enough units are posted.\<close>

definition bounded_use :: "bool \<Rightarrow> 32 word \<Rightarrow> sys \<Rightarrow> bool" where
  "bounded_use lock v s \<longleftrightarrow> lock \<or> sint v + int (posted s) < 2 ^ 31"

lemma reach_inv:
  assumes "sem_reach lock v s" "0 \<le> sint v" "bounded_use lock v s"
  shows "fin_inv s \<and> no_overflow s \<and> wake_inv s"
proof (cases lock)
  case True
  then show ?thesis using lock_reach_inv assms(1,2) by simp
next
  case False
  then show ?thesis using free_reach_inv[OF assms(1,2)] assms(3) by (simp add: bounded_use_def)
qed

lemma reach_add_ok:
  assumes "sem_reach lock v s" "0 \<le> sint v" "sem_step lock s s'" "bounded_use lock v s'"
  shows "no_overflow s \<and> add_ok s s'"
proof (cases lock)
  case True
  then show ?thesis using lock_reach_inv[of v s] lock_add_ok[of s s' v] assms(1-3) by simp
next
  case False
  then have b: "sint v + int (posted s') < 2 ^ 31" using assms(4) by (simp add: bounded_use_def)
  then have "sint v + int (posted s) < 2 ^ 31" using posted_mono[OF assms(3)] by simp
  then show ?thesis using free_reach_inv[OF assms(1,2)] free_add_ok[OF assms(3) _ b] by blast
qed

lemma stirring_ex:
  assumes "wake_inv s" "pcs s t = PAsleep" "0 < sint (val s)"
  shows "\<exists>u. is_stirring (pcs s u)"
proof -
  have "asleep (pcs s) \<noteq> {}" using assms(2) by (auto simp: asleep_def)
  with assms(1,3) have "0 < card (stirring s)" by (simp add: wake_inv_def)
  then have "stirring s \<noteq> {}" by auto
  then show ?thesis by (auto simp: stirring_def)
qed

lemma two_holders_card:
  assumes "fin_inv s" "pcs s t = Held" "pcs s u = Held" "t \<noteq> u"
  shows "2 \<le> card (holders s)"
proof -
  have "finite (holders s)" using fin_holders[OF assms(1)] by (simp add: holders_def)
  moreover have "{t, u} \<subseteq> holders s" using assms by (simp add: holders_def)
  ultimately have "card {t, u} \<le> card (holders s)" by (rule card_mono)
  then show ?thesis using assms(4) by simp
qed

section \<open>Properties\<close>

text \<open>C23: a semaphore initialised to 1 and used as a lock (\<open>P\<close> before, \<open>V\<close> after) is held by
  at most one thread, in every interleaving of the atomic steps of \<open>P\<close> and \<open>V\<close>.\<close>

theorem sem_mutual_exclusion:
  assumes "sem_reach True 1 s" "pcs s t = Held" "pcs s u = Held"
  shows "t = u"
proof (rule ccontr)
  assume "t \<noteq> u"
  have inv: "fin_inv s" "lock_inv 1 s" using lock_reach_inv[OF assms(1)] by auto
  have "2 \<le> card (holders s)" using two_holders_card[OF inv(1) assms(2,3) \<open>t \<noteq> u\<close>] .
  then show False using inv(2) by (simp add: lock_inv_def)
qed

text \<open>A run in which thread 0 takes the lock, thread 1 goes to sleep and thread 0 posts.\<close>

definition run_held :: sys where
  "run_held = \<lparr>sem = \<lparr>sema_value = 0\<rparr>, pcs = (\<lambda>_. Idle)(0 := Held), acquired = 1, posted = 0\<rparr>"

definition run_asleep :: sys where
  "run_asleep = \<lparr>sem = \<lparr>sema_value = 1\<rparr>, pcs = (\<lambda>_. Idle)(0 := VAdded 0, 1 := PAsleep), acquired = 1, posted = 1\<rparr>"

lemma reach_by: "sem_reach lock v s \<Longrightarrow> sem_step lock s s' \<Longrightarrow> s' = s'' \<Longrightarrow> sem_reach lock v s''"
  using reach_step by blast

lemma run_held_reach: "sem_reach True 1 run_held"
proof -
  let ?s = "\<lambda>p. \<lparr>sem = \<lparr>sema_value = 1\<rparr>, pcs = (\<lambda>_. Idle)(0 := p), acquired = 0, posted = 0\<rparr>"
  have "sem_reach True 1 (init_sys 1)" by (rule reach_init)
  then have "sem_reach True 1 (?s PLoad)"
    by (rule reach_by[OF _ call_P[of _ 0]]) (auto simp: init_sys_def InitSem_def)
  then have "sem_reach True 1 (?s (PTry 1))"
    by (rule reach_by[OF _ load_value[of _ 0]]) auto
  then show ?thesis
    by (rule reach_by[OF _ cas_success[of _ 0 1]]) (auto simp: run_held_def)
qed

lemma run_asleep_reach: "sem_reach True 1 run_asleep"
proof -
  let ?s = "\<lambda>p. \<lparr>sem = \<lparr>sema_value = 0\<rparr>, pcs = (\<lambda>_. Idle)(0 := Held, 1 := p), acquired = 1, posted = 0\<rparr>"
  have "sem_reach True 1 (?s PLoad)"
    by (rule reach_by[OF run_held_reach call_P[of _ 1]]) (auto simp: run_held_def)
  then have "sem_reach True 1 (?s (PTry 0))"
    by (rule reach_by[OF _ load_value[of _ 1]]) auto
  then have "sem_reach True 1 (?s PWait)"
    by (rule reach_by[OF _ no_unit[of _ 1 0]]) auto
  then have "sem_reach True 1 (?s PAsleep)"
    by (rule reach_by[OF _ wait_sleep[of _ 1]]) auto
  then show ?thesis
    by (rule reach_by[OF _ fetch_add[of _ 0]]) (auto simp: run_asleep_def)
qed

theorem sem_mutual_exclusion_witness:
  "sem_reach True 1 run_held \<and> {u. pcs run_held u = Held} = {0}"
proof -
  have h: "pcs run_held 0 = Held" by (simp add: run_held_def)
  then show ?thesis using run_held_reach sem_mutual_exclusion[OF run_held_reach h] by blast
qed

text \<open>C24: no wake-up is lost, in either use: of a lock, and of a semaphore that some threads post and
  others take, as the dispatcher's, as long as fewer than \<open>2 ^ 31\<close> units were ever posted. Whenever a
  thread sleeps in \<open>P\<close> while there are units to give, some thread is awake inside \<open>P\<close> or has yet to
  make the wake-up call of its \<open>V\<close>.\<close>

theorem sem_no_lost_wakeup:
  assumes "sem_reach lock v s" "0 \<le> sint v" "bounded_use lock v s" "pcs s t = PAsleep" "0 < sint (val s)"
  shows "\<exists>u. is_stirring (pcs s u)"
  using reach_inv[OF assms(1-3)] stirring_ex assms(4,5) by blast

text \<open>A run of the other use: thread 1 goes to sleep on an empty semaphore and thread 0 posts.\<close>

definition run_posted :: sys where
  "run_posted = \<lparr>sem = \<lparr>sema_value = 1\<rparr>, pcs = (\<lambda>_. Idle)(0 := VAdded 0, 1 := PAsleep), acquired = 0, posted = 1\<rparr>"

definition run_empty :: sys where
  "run_empty = \<lparr>sem = \<lparr>sema_value = 0\<rparr>, pcs = (\<lambda>_. Idle)(1 := PAsleep), acquired = 0, posted = 0\<rparr>"

lemma run_empty_reach: "sem_reach False 0 run_empty"
proof -
  let ?s = "\<lambda>p. \<lparr>sem = \<lparr>sema_value = 0\<rparr>, pcs = (\<lambda>_. Idle)(1 := p), acquired = 0, posted = 0\<rparr>"
  have "sem_reach False 0 (init_sys 0)" by (rule reach_init)
  then have "sem_reach False 0 (?s PLoad)"
    by (rule reach_by[OF _ call_P[of _ 1]]) (auto simp: init_sys_def InitSem_def)
  then have "sem_reach False 0 (?s (PTry 0))"
    by (rule reach_by[OF _ load_value[of _ 1]]) auto
  then have "sem_reach False 0 (?s PWait)"
    by (rule reach_by[OF _ no_unit[of _ 1 0]]) auto
  then show ?thesis
    by (rule reach_by[OF _ wait_sleep[of _ 1]]) (auto simp: run_empty_def)
qed

lemma run_posted_step: "sem_step False run_empty run_posted"
proof -
  have "sem_step False run_empty (upd_pc run_empty 0 (VAdded (val run_empty))
      \<lparr>sem := \<lparr>sema_value = val run_empty + 1\<rparr>, posted := Suc (posted run_empty)\<rparr>)"
    by (rule fetch_add) (simp add: run_empty_def)
  moreover have "upd_pc run_empty 0 (VAdded (val run_empty))
      \<lparr>sem := \<lparr>sema_value = val run_empty + 1\<rparr>, posted := Suc (posted run_empty)\<rparr> = run_posted"
    by (auto simp: run_empty_def run_posted_def)
  ultimately show ?thesis by simp
qed

theorem sem_no_lost_wakeup_witness:
  "sem_reach True 1 run_asleep \<and> (\<exists>u. is_stirring (pcs run_asleep u))
   \<and> sem_reach False 0 run_posted \<and> pcs run_posted 1 = PAsleep \<and> 0 < sint (val run_posted)
   \<and> (\<exists>u. is_stirring (pcs run_posted u))"
proof -
  have r: "sem_reach False 0 run_posted" using run_empty_reach run_posted_step by (rule reach_step)
  show ?thesis
    using r run_asleep_reach sem_no_lost_wakeup[OF run_asleep_reach, of 1] sem_no_lost_wakeup[OF r, of 1]
    by (simp add: run_asleep_def run_posted_def bounded_use_def)
qed

text \<open>C26: units are conserved. Whatever the threads do, as long as fewer than \<open>2 ^ 31\<close> units
  were ever posted, the value is the initial one plus the posts minus the acquisitions, and it is
  never negative.\<close>

theorem sem_conservation:
  assumes "sem_reach lock v s" "0 \<le> sint v" "sint v + int (posted s) < 2 ^ 31"
  shows "sint (val s) = sint v + int (posted s) - int (acquired s) \<and> 0 \<le> sint (val s)"
  using free_reach_inv[OF assms] by (simp add: count_inv_def)

theorem sem_conservation_witness:
  "sem_reach True 1 run_asleep
   \<and> sint (val run_asleep) = sint (1 :: 32 word) + int (posted run_asleep) - int (acquired run_asleep)"
proof -
  have "sint (1 :: 32 word) + int (posted run_asleep) < 2 ^ 31" by (simp add: run_asleep_def)
  then show ?thesis using run_asleep_reach sem_conservation[OF run_asleep_reach] by simp
qed

text \<open>C25: the atomic operations are what the interleaved code implements, in either use, as long
  as a semaphore that is not used as a lock is posted fewer than \<open>2 ^ 31\<close> units. In a reachable state
  every step of any thread either leaves the semaphore alone, or is one \<open>P\<close> of the atomic model, or is
  one \<open>V\<close> of it.\<close>

theorem sem_step_refines:
  assumes "sem_reach lock v s" "0 \<le> sint v" "sem_step lock s s'" "bounded_use lock v s'"
  shows "sem s' = sem s \<or> sem_P (sem s) = Ret (sem s') \<or> sem s' = sem_V (sem s)"
proof -
  have "no_overflow s" "add_ok s s'" using reach_add_ok[OF assms] by auto
  with assms(3) show ?thesis
    by (cases rule: sem_step.cases)
      (auto simp: sem_P_cases sem_V_cases no_overflow_def add_ok_def)
qed

theorem sem_step_refines_witness:
  "sem_reach False 0 run_empty \<and> sem_step False run_empty run_posted
   \<and> sem run_posted = sem_V (sem run_empty) \<and> sem run_posted \<noteq> sem run_empty"
proof -
  have "bounded_use False 0 run_posted" by (simp add: bounded_use_def run_posted_def)
  moreover have "sem run_posted \<noteq> sem run_empty" "sem_P (sem run_empty) = Blocked"
    by (simp_all add: run_posted_def run_empty_def sem_P_def)
  ultimately show ?thesis
    using run_empty_reach run_posted_step sem_step_refines[OF run_empty_reach _ run_posted_step] by auto
qed

end
