(* ===== verification/Event_Log.thy ===== *)
theory Event_Log
  imports Sema
begin

text \<open>
  Events (\<^verbatim>\<open>src/src/event.cpp\<close>, \<^verbatim>\<open>src/src/include/event.h\<close>) and the circular event log of a
  namespace (\<^verbatim>\<open>src/src/log.cpp\<close>, from \<open>LogCreate\<close> to \<open>LogTail\<close>). The log of \<open>size\<close> slots is
  abstracted to the list of its valid events, newest first; every operation is shown to act on
  that list as a bounded push.
\<close>

section \<open>Events\<close>

datatype EventState = UNKNOWN | FUNC | TRIGGER | TRIGGER_FIRING | FIRED | APPEND | READ | LATEST_SEQNO

text \<open>
  The type field of a slot that was never written is zero, which is no enumerator: \<open>None\<close>. The
  fixed-size character arrays are strings without their terminator.
\<close>

record EVENT =
  ev_type :: "EventState option"
  ev_host :: u64
  ev_seq_no :: u64
  ev_cause_host :: u64
  ev_cause_seq_no :: u64
  ev_woofc_seq_no :: u64
  ev_woofc_ndx :: u64
  ev_woofc_element_size :: u64
  ev_woofc_history_size :: u64
  ev_woofc_name :: string
  ev_woofc_handler :: string
  ev_woofc_namespace :: string
  ev_ino :: u64
  ev_timestamp :: "int \<times> int"

definition zero_event :: EVENT where
  "zero_event = \<lparr>ev_type = None, ev_host = 0, ev_seq_no = 0, ev_cause_host = 0, ev_cause_seq_no = 0,
     ev_woofc_seq_no = 0, ev_woofc_ndx = 0, ev_woofc_element_size = 0, ev_woofc_history_size = 0,
     ev_woofc_name = [], ev_woofc_handler = [], ev_woofc_namespace = [], ev_ino = 0, ev_timestamp = (0, 0)\<rparr>"

text \<open>
  The clock reading \<open>(tv_sec, tv_nsec)\<close> is an argument. The code stores the floating-point sum
  \<open>tv_sec + tv_nsec / 10\<^sup>9\<close>; the pair of its summands stands for it.
\<close>

definition EventCreate :: "int \<times> int \<Rightarrow> EventState \<Rightarrow> u64 \<Rightarrow> EVENT" where
  "EventCreate ts ty host = zero_event\<lparr>ev_type := Some ty, ev_host := host,
     ev_timestamp := ts\<rparr>"

definition EventSetCause :: "EVENT option \<Rightarrow> u64 \<Rightarrow> u64 \<Rightarrow> int \<times> EVENT option" where
  "EventSetCause ev cause_host cause_seq_no = (case ev of
     None \<Rightarrow> (- 1, None)
   | Some e \<Rightarrow> (0, Some (e\<lparr>ev_cause_host := cause_host, ev_cause_seq_no := cause_seq_no\<rparr>)))"

definition EventIndex :: "u64 \<Rightarrow> u64 \<Rightarrow> u64" where
  "EventIndex host seq_no = push_bit 32 host + seq_no"

section \<open>The log\<close>

record LOG =
  log_mutex :: sema
  log_tail_wait :: sema
  log_host_id :: u64
  log_seq_no :: u64
  log_filename :: string
  log_size :: u64
  log_space :: u64
  log_head :: u64
  log_tail :: u64
  log_last_checked :: u64
  log_events :: "EVENT list"

text \<open>Sizes of the C structures on a 64-bit Linux.\<close>

definition sizeof_EVENT :: u64 where "sizeof_EVENT = 1368"
definition sizeof_LOG :: u64 where "sizeof_LOG = 4176"

abbreviation zero_sema :: sema where "zero_sema \<equiv> \<lparr>sema_value = 0\<rparr>"

text \<open>
  \<open>LogCreate\<close>: \<open>mio_ok\<close> says whether the mapping succeeds; a new mapping is filled with zeros.
  The byte count of the mapping is computed in 64 bits and wraps. The event array is what the mapping
  holds behind the header, of at most the \<open>size + 1\<close> slots that are ever indexed; clearing a header
  that does not fit, and a file name longer than its field, write outside of their object.
\<close>

definition log_bytes :: "u64 \<Rightarrow> u64" where
  "log_bytes sz = (sz + 1) * sizeof_EVENT + sizeof_LOG + 1024 * 8"

definition LogCreate :: "bool \<Rightarrow> string option \<Rightarrow> u64 \<Rightarrow> u64 \<Rightarrow> LOG option run" where
  "LogCreate mio_ok filename host_id sz = (let sp = log_bytes sz in
     if \<not> mio_ok then Ret None
     else if sp < sizeof_LOG then Fault
     else if (case filename of None \<Rightarrow> False | Some f \<Rightarrow> 4096 \<le> length f) then Fault
     else Ret (Some \<lparr>log_mutex = snd (InitSem zero_sema 1), log_tail_wait = snd (InitSem zero_sema 0),
        log_host_id = host_id, log_seq_no = 1,
        log_filename = (case filename of None \<Rightarrow> [] | Some f \<Rightarrow> f),
        log_size = sz, log_space = sp,
        log_head = 0, log_tail = 0, log_last_checked = - 1,
        log_events = replicate (min (Suc (unat sz)) (unat (sp - sizeof_LOG) div unat sizeof_EVENT)) zero_event\<rparr>))"

definition ev_at :: "LOG \<Rightarrow> u64 \<Rightarrow> EVENT run" where
  "ev_at log i = (if unat i < length (log_events log) then Ret (log_events log ! unat i) else Fault)"

definition LogFull :: "LOG option \<Rightarrow> int run" where
  "LogFull log = (case log of None \<Rightarrow> Ret (- 1) | Some log \<Rightarrow>
     if log_size log = 0 then Fault
     else let next = (log_head log + 1) mod log_size log in
       Ret (if next = log_tail log then 1 else 0))"

definition log_put :: "LOG \<Rightarrow> EVENT \<Rightarrow> LOG run" where
  "log_put log event =
     (if log_size log = 0 then Fault
      else let next = (log_head log + 1) mod log_size log;
               log1 = (if next = log_tail log
                       then log\<lparr>log_tail := (log_tail log + 1) mod log_size log\<rparr> else log)
       in if unat next < length (log_events log1)
          then Ret (log1\<lparr>log_events := (log_events log1)[unat next := event], log_head := next\<rparr>)
          else Fault)"

definition LogAdd :: "LOG option \<Rightarrow> EVENT \<Rightarrow> (int \<times> LOG option) run" where
  "LogAdd log event = (case log of None \<Rightarrow> Ret (1, None)
     | Some log \<Rightarrow> run_bind (log_put log event) (\<lambda>log'. Ret (1, Some log')))"

definition LogEventEqual :: "LOG \<Rightarrow> LOG \<Rightarrow> u64 \<Rightarrow> int run" where
  "LogEventEqual l1 l2 ndx = run_bind (ev_at l1 ndx) (\<lambda>e1. run_bind (ev_at l2 ndx) (\<lambda>e2.
     Ret (if e1 \<noteq> e2 then 0 else 1)))"

definition LogEventNoLock :: "LOG option \<Rightarrow> EVENT \<Rightarrow> (u64 \<times> LOG option) run" where
  "LogEventNoLock log event = (case log of None \<Rightarrow> Ret (0, None)
     | Some log \<Rightarrow>
        let seq_no = log_seq_no log; event1 = event\<lparr>ev_seq_no := seq_no\<rparr>;
            log1 = log\<lparr>log_seq_no := log_seq_no log + 1\<rparr>
        in run_bind (LogAdd (Some log1) event1) (\<lambda>(err, log2). Ret (seq_no, log2)))"

definition LogEvent :: "LOG option \<Rightarrow> EVENT \<Rightarrow> (u64 \<times> LOG option) run" where
  "LogEvent log event = (case log of None \<Rightarrow> Ret (0, None)
     | Some log \<Rightarrow>
        run_bind (sem_P (log_mutex log)) (\<lambda>m.
        let log0 = log\<lparr>log_mutex := m\<rparr>; seq_no = log_seq_no log0;
            event1 = event\<lparr>ev_seq_no := seq_no\<rparr>;
            log1 = log0\<lparr>log_seq_no := log_seq_no log0 + 1\<rparr>
        in run_bind (LogAdd (Some log1) event1) (\<lambda>(err, log2).
           Ret (seq_no, map_option (\<lambda>l. l\<lparr>log_mutex := sem_V (log_mutex l)\<rparr>) log2))))"

text \<open>The index before \<open>cur\<close>, with the wrap of the unsigned subtraction.\<close>

definition log_prev :: "LOG \<Rightarrow> u64 \<Rightarrow> u64" where
  "log_prev log cur = (let c = cur - 1 in if log_size log \<le> c then log_size log - 1 else c)"

text \<open>
  The loop of \<open>LogTail\<close>. Its counter starts at 0 and stops at \<open>max_size\<close>, so that it never
  wraps; it bounds the iterations whatever the log holds.
\<close>

function log_tail_loop :: "LOG \<Rightarrow> u64 \<Rightarrow> u64 \<Rightarrow> nat \<Rightarrow> u64 \<Rightarrow> LOG \<Rightarrow> LOG run" where
  "log_tail_loop log earliest max_size count cur lt =
     run_bind (ev_at log cur) (\<lambda>e.
       if earliest \<le> ev_seq_no e then
         run_bind (log_put lt e) (\<lambda>lt'.
           if unat max_size \<le> Suc count then Ret lt'
           else let cur' = log_prev log cur in
             if cur' = log_tail log then Ret lt'
             else log_tail_loop log earliest max_size (Suc count) cur' lt')
       else Ret lt)"
  by pat_completeness auto
termination
  by (relation "measure (\<lambda>(log, earliest, max_size, count, cur, lt). unat max_size - count)") auto

declare log_tail_loop.simps [simp del]

definition LogTail :: "bool \<Rightarrow> LOG \<Rightarrow> u64 \<Rightarrow> u64 \<Rightarrow> LOG option run" where
  "LogTail mio_ok log earliest max_size =
     (if log_head log = log_tail log then Ret None
      else run_bind (LogCreate mio_ok None 0 max_size) (\<lambda>log_tail. case log_tail of None \<Rightarrow> Ret None
        | Some lt \<Rightarrow> run_bind (log_tail_loop log earliest max_size 0 (log_head log) lt) (\<lambda>lt'. Ret (Some lt'))))"

section \<open>Well-formed logs and their contents\<close>

text \<open>The sizes whose byte count does not wrap.\<close>

definition log_fits :: "u64 \<Rightarrow> bool" where
  "log_fits sz \<longleftrightarrow> Suc (unat sz) * 1368 + 4176 + 8192 < 2 ^ 64"

definition log_wf :: "LOG \<Rightarrow> bool" where
  "log_wf log \<longleftrightarrow> unat (log_head log) < unat (log_size log) \<and> unat (log_tail log) < unat (log_size log)
     \<and> length (log_events log) = Suc (unat (log_size log)) \<and> log_fits (log_size log)"

definition log_count :: "LOG \<Rightarrow> nat" where
  "log_count log = span (unat (log_size log)) (unat (log_head log)) (unat (log_tail log))"

definition log_view :: "LOG \<Rightarrow> EVENT list" where
  "log_view log = newest ((!) (log_events log)) (unat (log_size log)) (unat (log_head log)) (log_count log)"

interpretation event_slots: slot_array "(!)" "\<lambda>m i e. m[i := e]" length "\<lambda>_ :: EVENT. True"
  by unfold_locales auto

lemma length_log_view [simp]: "length (log_view log) = log_count log"
  by (simp add: log_view_def)

lemma log_wf_size: "log_wf log \<Longrightarrow> 0 < unat (log_size log)"
  by (auto simp: log_wf_def)

lemma log_count_less: "log_wf log \<Longrightarrow> log_count log < unat (log_size log)"
  unfolding log_count_def by (intro span_less log_wf_size)

lemma log_bytes_unat:
  assumes "log_fits sz"
  shows "unat (log_bytes sz) = Suc (unat sz) * 1368 + 12368"
proof -
  have "unat (log_bytes sz) = ((unat sz + 1) * 1368 + 12368) mod 2 ^ 64"
    by (simp add: log_bytes_def sizeof_EVENT_def sizeof_LOG_def unat_word_ariths mod_simps add.assoc)
      (simp only: add.commute)
  then show ?thesis using assms by (simp add: log_fits_def)
qed

lemma LogCreate_fits:
  assumes "log_fits sz" "LogCreate True f h sz = Ret (Some log)"
  shows "length (log_events log) = Suc (unat sz)"
proof -
  have "sizeof_LOG \<le> log_bytes sz" by (simp add: word_le_nat_alt log_bytes_unat[OF assms(1)] sizeof_LOG_def)
  then have "unat (log_bytes sz - sizeof_LOG) = Suc (unat sz) * 1368 + 8192"
    by (simp add: unat_sub log_bytes_unat[OF assms(1)] sizeof_LOG_def)
  then show ?thesis using assms(2) by (auto simp: LogCreate_def Let_def sizeof_EVENT_def split: if_splits)
qed

lemma LogCreate_returns:
  assumes "log_fits sz"
  shows "\<exists>log. LogCreate True None h sz = Ret (Some log)"
proof -
  have "\<not> log_bytes sz < sizeof_LOG" by (simp add: word_less_nat_alt log_bytes_unat[OF assms] sizeof_LOG_def)
  then show ?thesis by (simp add: LogCreate_def Let_def)
qed

lemma log_create_fields:
  assumes "LogCreate True f h sz = Ret (Some log)"
  shows "log_size log = sz" "log_head log = 0" "log_tail log = 0" "log_seq_no log = 1" "log_last_checked log = - 1"
    "log_mutex log = \<lparr>sema_value = 1\<rparr>" "log_tail_wait log = \<lparr>sema_value = 0\<rparr>"
  using assms by (auto simp: LogCreate_def InitSem_def Let_def split: if_splits)

lemma log_create_wf:
  "0 < sz \<Longrightarrow> log_fits sz \<Longrightarrow> LogCreate True f h sz = Ret (Some log)
   \<Longrightarrow> log_wf log \<and> log_view log = [] \<and> log_size log = sz"
  using log_create_fields[of f h sz log] LogCreate_fits[of sz f h log]
  by (simp add: log_wf_def log_view_def log_count_def span_def newest_def word_less_nat_alt)

text \<open>The effect of an insertion, read off the code.\<close>

lemma log_put_eq:
  assumes "log_wf log"
  shows "log_put log e = Ret (log\<lparr>
      log_tail := (if (log_head log + 1) mod log_size log = log_tail log
                   then (log_tail log + 1) mod log_size log else log_tail log),
      log_events := (log_events log)[Suc (unat (log_head log)) mod unat (log_size log) := e],
      log_head := (log_head log + 1) mod log_size log\<rparr>)"
proof -
  have "log_size log \<noteq> 0" using assms by (auto simp: log_wf_def)
  moreover have "unat ((log_head log + 1) mod log_size log) = Suc (unat (log_head log)) mod unat (log_size log)"
    using assms by (intro unat64_next) (simp add: log_wf_def)
  moreover have "Suc (unat (log_head log)) mod unat (log_size log) < length (log_events log)"
    using assms log_wf_size[OF assms] by (simp add: log_wf_def less_SucI)
  ultimately show ?thesis by (simp add: log_put_def Let_def)
qed

lemma log_put_ok:
  assumes "log_wf log"
  obtains log' where "log_put log e = Ret log'" "log_wf log'"
    "log_view log' = take (unat (log_size log) - 1) (e # log_view log)"
    "log_size log' = log_size log" "log_seq_no log' = log_seq_no log"
    "log_mutex log' = log_mutex log" "log_tail_wait log' = log_tail_wait log"
proof -
  let ?n = "unat (log_size log)" and ?h = "unat (log_head log)" and ?t = "unat (log_tail log)"
  let ?full = "(log_head log + 1) mod log_size log = log_tail log"
  obtain log' where put: "log_put log e = Ret log'"
    and log': "log' = log\<lparr>
      log_tail := (if ?full then (log_tail log + 1) mod log_size log else log_tail log),
      log_events := (log_events log)[Suc ?h mod ?n := e],
      log_head := (log_head log + 1) mod log_size log\<rparr>"
    using log_put_eq[OF assms] by blast
  have b: "?h < ?n" "?t < ?n" "length (log_events log) = Suc ?n" "log_fits (log_size log)"
    using assms by (auto simp: log_wf_def)
  have nx: "unat ((log_head log + 1) mod log_size log) = Suc ?h mod ?n" using b unat64_next by blast
  have tx: "unat ((log_tail log + 1) mod log_size log) = Suc ?t mod ?n" using b unat64_next by blast
  have wf: "log_wf log'" using b nx tx by (simp add: log' log_wf_def)
  have full: "?full \<longleftrightarrow> Suc ?h mod ?n = ?t" using nx by (metis word_unat_eq_iff)
  have view': "log_view log' = newest ((!) ((log_events log)[Suc ?h mod ?n := e])) ?n (Suc ?h mod ?n) (log_count log')"
    by (simp add: log_view_def log' nx)
  have "log_view log' = take (?n - 1) (e # log_view log)"
  proof (cases "Suc ?h mod ?n = ?t")
    case False
    then have c: "log_count log' = Suc (log_count log)"
      using b full nx by (simp add: log_count_def log' span_next)
    have lt: "log_count log < ?n" using log_count_less assms .
    have "log_view log' = e # log_view log"
      unfolding view' c unfolding log_view_def using b lt by (intro event_slots.newest_push) auto
    moreover have "Suc (log_count log) \<le> ?n - 1" using log_count_less[OF wf] c by (simp add: log')
    ultimately show ?thesis by simp
  next
    case True
    have c: "log_count log = ?n - 1" using span_full[OF b(1)] True by (simp add: log_count_def)
    have c': "log_count log' = ?n - 1"
      using True full nx tx span_full[of ?t ?n] b by (simp add: log_count_def log')
    show ?thesis
    proof (cases "?n = 1")
      case True
      then show ?thesis using view' c' by (simp add: newest_def)
    next
      case False
      then show ?thesis
        unfolding view' c' unfolding log_view_def c using b by (intro event_slots.newest_push_take) auto
    qed
  qed
  with that[OF put wf] show ?thesis by (simp add: log')
qed

text \<open>Logging a whole list of events, one after the other.\<close>

fun log_all :: "LOG option \<Rightarrow> EVENT list \<Rightarrow> LOG option run" where
  "log_all log [] = Ret log"
| "log_all log (e # es) = run_bind (LogEvent log e) (\<lambda>(seq, log'). log_all log' es)"

fun number_events :: "u64 \<Rightarrow> EVENT list \<Rightarrow> EVENT list" where
  "number_events s [] = []"
| "number_events s (e # es) = e\<lparr>ev_seq_no := s\<rparr> # number_events (s + 1) es"

lemma log_wf_seq [simp]: "log_wf (log\<lparr>log_seq_no := s\<rparr>) = log_wf log"
  and log_wf_mutex [simp]: "log_wf (log\<lparr>log_mutex := m\<rparr>) = log_wf log"
  and log_view_seq [simp]: "log_view (log\<lparr>log_seq_no := s\<rparr>) = log_view log"
  and log_view_mutex [simp]: "log_view (log\<lparr>log_mutex := m\<rparr>) = log_view log"
  by (simp_all add: log_wf_def log_view_def log_count_def)

lemma LogEvent_ok:
  assumes "log_wf log" "0 < sem_val (log_mutex log)"
  obtains log' where "LogEvent (Some log) e = Ret (log_seq_no log, Some log')" "log_wf log'"
    "log_view log' = take (unat (log_size log) - 1) (e\<lparr>ev_seq_no := log_seq_no log\<rparr> # log_view log)"
    "log_size log' = log_size log" "log_seq_no log' = log_seq_no log + 1"
    "log_mutex log' = log_mutex log" "log_tail_wait log' = log_tail_wait log"
proof -
  obtain m where m: "sem_P (log_mutex log) = Ret m" using futex.down_pos[OF assms(2)] by blast
  let ?l = "log\<lparr>log_mutex := m, log_seq_no := log_seq_no log + 1\<rparr>"
  let ?e = "e\<lparr>ev_seq_no := log_seq_no log\<rparr>"
  have "log_wf ?l" using assms(1) by simp
  then obtain l2 where l2: "log_put ?l ?e = Ret l2" "log_wf l2"
    "log_view l2 = take (unat (log_size ?l) - 1) (?e # log_view ?l)"
    "log_size l2 = log_size ?l" "log_seq_no l2 = log_seq_no ?l" "log_mutex l2 = log_mutex ?l"
    "log_tail_wait l2 = log_tail_wait ?l"
    by (rule log_put_ok)
  have "LogEvent (Some log) e = Ret (log_seq_no log, Some (l2\<lparr>log_mutex := sem_V (log_mutex l2)\<rparr>))"
    using m l2(1) by (simp add: LogEvent_def LogAdd_def Let_def)
  moreover have "sem_V (log_mutex l2) = log_mutex log" using futex.bracket[OF m] l2(6) by simp
  ultimately show ?thesis using that l2 by simp
qed

lemma log_all_ok:
  assumes "log_wf log" "0 < sem_val (log_mutex log)"
  shows "\<exists>log'. log_all (Some log) es = Ret (Some log') \<and> log_wf log' \<and> log_size log' = log_size log
    \<and> log_seq_no log' = log_seq_no log + of_nat (length es)
    \<and> log_view log' = take (unat (log_size log) - 1) (rev (number_events (log_seq_no log) es) @ log_view log)"
  using assms
proof (induction es arbitrary: log)
  case Nil
  then show ?case using log_count_less[OF Nil(1)] by simp
next
  case (Cons e es)
  obtain l1 where l1: "LogEvent (Some log) e = Ret (log_seq_no log, Some l1)" "log_wf l1"
    "log_view l1 = take (unat (log_size log) - 1) (e\<lparr>ev_seq_no := log_seq_no log\<rparr> # log_view log)"
    "log_size l1 = log_size log" "log_seq_no l1 = log_seq_no log + 1" "log_mutex l1 = log_mutex log"
    using Cons.prems by (rule LogEvent_ok)
  from Cons.IH[OF l1(2)] l1(6) Cons.prems obtain l2 where l2:
    "log_all (Some l1) es = Ret (Some l2)" "log_wf l2" "log_size l2 = log_size l1"
    "log_seq_no l2 = log_seq_no l1 + of_nat (length es)"
    "log_view l2 = take (unat (log_size l1) - 1) (rev (number_events (log_seq_no l1) es) @ log_view l1)"
    by auto
  then show ?case using l1 by (simp add: algebra_simps take_append_take)
qed

section \<open>Extracting the tail\<close>

lemma log_view_nth:
  "i < log_count log \<Longrightarrow>
   log_view log ! i = log_events log ! behind (unat (log_size log)) (unat (log_head log)) i"
  by (simp add: log_view_def)

lemma ev_at_behind:
  assumes "log_wf log" "i < log_count log"
    "unat cur = behind (unat (log_size log)) (unat (log_head log)) i"
  shows "ev_at log cur = Ret (log_view log ! i)"
proof -
  have "unat cur < Suc (unat (log_size log))"
    using assms(3) behind_less[OF log_wf_size[OF assms(1)]] by (simp add: less_SucI)
  then show ?thesis using assms by (simp add: ev_at_def log_wf_def log_view_nth)
qed

text \<open>One step back from entry \<open>i\<close> is entry \<open>i + 1\<close>, or the tail when \<open>i\<close> was the oldest.\<close>

lemma step_back:
  assumes wf: "log_wf log" and i: "i < log_count log"
    and cur: "unat cur = behind (unat (log_size log)) (unat (log_head log)) i"
  shows "log_prev log cur = log_tail log \<longleftrightarrow> Suc i = log_count log"
    and "unat (log_prev log cur) = behind (unat (log_size log)) (unat (log_head log)) (Suc i)"
proof -
  define c where "c = log_prev log cur"
  let ?n = "unat (log_size log)" and ?h = "unat (log_head log)" and ?t = "unat (log_tail log)"
  have b: "?h < ?n" "?t < ?n" using wf by (auto simp: log_wf_def)
  have lt: "Suc i < ?n" using i log_count_less[OF wf] by simp
  have cn: "unat cur < ?n" using cur behind_less b by simp
  have "unat c = (if unat cur = 0 then ?n - 1 else unat cur - 1)"
    unfolding c_def log_prev_def Let_def using unat64_pred[OF cn] .
  then have c: "unat c = behind ?n ?h (Suc i)" using behind_pred[OF b(1) lt] cur by simp
  then show "unat (log_prev log cur) = behind ?n ?h (Suc i)" by (simp add: c_def)
  have "c = log_tail log \<longleftrightarrow> behind ?n ?h (Suc i) = ?t" using c by (metis word_unat_eq_iff)
  then show "log_prev log cur = log_tail log \<longleftrightarrow> Suc i = log_count log"
    using behind_span[OF b lt] by (simp add: log_count_def c_def)
qed

lemma log_tail_loop_step:
  assumes "ev_at log cur = Ret e" "log_put lt e = Ret lt'"
  shows "log_tail_loop log earliest max_size i cur lt =
    (if earliest \<le> ev_seq_no e
     then if unat max_size \<le> Suc i \<or> log_prev log cur = log_tail log then Ret lt'
          else log_tail_loop log earliest max_size (Suc i) (log_prev log cur) lt'
     else Ret lt)"
  using assms by (subst log_tail_loop.simps) (simp add: Let_def)

lemma log_tail_loop_ok:
  assumes "log_wf log" "log_wf lt" "log_size lt = max_size" "i < unat max_size" "i < log_count log"
    "unat cur = behind (unat (log_size log)) (unat (log_head log)) i"
  shows "\<exists>lt'. log_tail_loop log earliest max_size i cur lt = Ret lt' \<and> log_wf lt' \<and> log_size lt' = max_size
    \<and> log_view lt' = take (unat max_size - 1)
        (rev (take (unat max_size - i) (takeWhile (\<lambda>e. earliest \<le> ev_seq_no e) (drop i (log_view log)))) @ log_view lt)"
  using assms
proof (induction "unat max_size - i" arbitrary: i cur lt)
  case 0
  then show ?case by simp
next
  case (Suc k)
  let ?e = "log_view log ! i" and ?P = "\<lambda>e. earliest \<le> ev_seq_no e" and ?m = "unat max_size"
  have at: "ev_at log cur = Ret ?e" using ev_at_behind Suc.prems by blast
  have dr: "drop i (log_view log) = ?e # drop (Suc i) (log_view log)"
    using Suc.prems(5) by (simp add: Cons_nth_drop_Suc)
  obtain k' where k': "?m - i = Suc k'" using Suc.prems(4) by (metis Suc_diff_Suc)
  obtain l1 where l1: "log_put lt ?e = Ret l1" "log_wf l1"
    "log_view l1 = take (unat (log_size lt) - 1) (?e # log_view lt)" "log_size l1 = log_size lt"
    using log_put_ok[OF Suc.prems(2)] by metis
  note step = log_tail_loop_step[OF at l1(1), of earliest max_size i]
  note sb = step_back[OF Suc.prems(1,5,6)]
  show ?case
  proof (cases "?P ?e")
    case False
    moreover have "length (log_view lt) \<le> ?m - 1" using log_count_less[OF Suc.prems(2)] Suc.prems(3) by simp
    ultimately show ?thesis using step Suc.prems dr by simp
  next
    case P: True
    show ?thesis
    proof (cases "?m \<le> Suc i \<or> log_prev log cur = log_tail log")
      case stop: True
      then have "take (?m - i) (takeWhile ?P (drop i (log_view log))) = [?e]"
        using dr P sb(1) Suc.prems(4,5) k' by (cases "?m \<le> Suc i") auto
      then show ?thesis using P l1 stop Suc.prems step by simp
    next
      case False
      then have lt: "Suc i < ?m" "Suc i < log_count log" using sb(1) Suc.prems(5) by auto
      have "log_tail_loop log earliest max_size i cur lt
            = log_tail_loop log earliest max_size (Suc i) (log_prev log cur) l1"
        using P False step by simp
      moreover have "k = ?m - Suc i" "?m - i = Suc (?m - Suc i)" using Suc.hyps(2) lt by auto
      ultimately show ?thesis
        using Suc.hyps(1)[of "Suc i" l1 "log_prev log cur"] Suc.prems lt sb(2) l1 dr P
        by (simp add: take_append_take)
    qed
  qed
qed

lemma LogTail_ok:
  assumes "log_wf log" "log_head log \<noteq> log_tail log" "0 < max_size" "log_fits max_size"
  shows "\<exists>lt. LogTail True log earliest max_size = Ret (Some lt) \<and> log_wf lt
    \<and> log_view lt = take (unat max_size - 1)
        (rev (take (unat max_size) (takeWhile (\<lambda>e. earliest \<le> ev_seq_no e) (log_view log))))"
proof -
  obtain lt where lt: "LogCreate True None 0 max_size = Ret (Some lt)" using LogCreate_returns assms(4) by blast
  have wf: "log_wf lt" "log_view lt = []" "log_size lt = max_size"
    using log_create_wf[OF assms(3,4) lt] by auto
  have "log_count log \<noteq> 0"
  proof
    assume "log_count log = 0"
    then have "unat (log_head log) = unat (log_tail log)"
      using assms(1) by (auto simp: log_count_def log_wf_def span_eq split: if_splits)
    then show False using assms(2) by (simp add: word_unat_eq_iff)
  qed
  moreover have "0 < unat max_size" using assms(3) by (simp add: word_less_nat_alt)
  moreover have "unat (log_head log) = behind (unat (log_size log)) (unat (log_head log)) 0"
    using assms(1) by (simp add: log_wf_def behind_0)
  ultimately show ?thesis
    using log_tail_loop_ok[OF assms(1) wf(1,3), of 0 "log_head log" earliest] lt wf assms(2)
    by (auto simp: LogTail_def)
qed

lemma takeWhile_descending:
  "sorted_wrt (\<lambda>a b. f b < f a) xs \<Longrightarrow> takeWhile (\<lambda>e. c \<le> f e) xs = filter (\<lambda>e. c \<le> f e) xs"
  for f :: "'a \<Rightarrow> 'b :: linorder"
proof (induction xs)
  case (Cons a xs)
  have "\<not> c \<le> f a \<Longrightarrow> filter (\<lambda>e. c \<le> f e) xs = []"
    using Cons.prems by (auto simp: filter_empty_conv)
  with Cons show ?case by auto
qed simp

lemma EventIndex_unat:
  assumes "unat s < 2 ^ 32"
  shows "unat (EventIndex h s) = unat h mod 2 ^ 32 * 2 ^ 32 + unat s"
proof -
  have "unat (push_bit 32 h) = (unat h * 2 ^ 32) mod (2 ^ 32 * 2 ^ 32)"
    by (simp add: push_bit_eq_mult unat_word_ariths)
  then have p: "unat (push_bit 32 h) = unat h mod 2 ^ 32 * 2 ^ 32"
    by (simp only: mod_mult_mult2)
  define a where "a = unat h mod 2 ^ 32"
  have "a < 2 ^ 32" by (simp add: a_def)
  with assms have "a * 2 ^ 32 + unat s < 2 ^ 64" by simp
  then have "unat h mod 2 ^ 32 * 2 ^ 32 + unat s < 2 ^ 64" by (simp only: a_def)
  then show ?thesis by (simp add: EventIndex_def unat_word_ariths p)
qed

section \<open>Properties\<close>

text \<open>C12: a namespace log never blocks, never faults and never loses the order. Whatever list of
  events is logged in a log of \<open>sz\<close> slots, whose byte count does not wrap, the log then holds the newest \<open>sz - 1\<close> of them, newest
  first, numbered consecutively from 1.\<close>

theorem log_keeps_newest:
  assumes "LogCreate True f h sz = Ret (Some log)" "0 < sz" "log_fits sz"
  shows "\<exists>log'. log_all (Some log) es = Ret (Some log') \<and> log_wf log'
    \<and> log_seq_no log' = 1 + of_nat (length es)
    \<and> log_view log' = take (unat sz - 1) (rev (number_events 1 es))"
proof -
  have wf: "log_wf log" "log_view log = []" "log_size log = sz" using log_create_wf[OF assms(2,3,1)] by auto
  moreover have "log_seq_no log = 1" "sem_val (log_mutex log) = 1"
    using log_create_fields[OF assms(1)] by auto
  ultimately show ?thesis using log_all_ok[of log es] by auto
qed

theorem log_keeps_newest_witness:
  "\<exists>log log'. LogCreate True None 7 3 = Ret (Some log)
    \<and> log_all (Some log) [zero_event, zero_event, zero_event] = Ret (Some log')
    \<and> map ev_seq_no (log_view log') = [3, 2]"
proof -
  obtain log where log: "LogCreate True None 7 3 = Ret (Some log)"
    using LogCreate_returns[of 3] by (auto simp: log_fits_def)
  show ?thesis
    using log log_keeps_newest[OF log, of "[zero_event, zero_event, zero_event]"] by (auto simp: log_fits_def)
qed

text \<open>C17: extracting the tail of a log with the log's own size (as the import into the global log
  does) yields exactly the events numbered \<open>earliest\<close> or later, oldest first.\<close>

theorem LogTail_complete:
  assumes "log_wf log" "log_head log \<noteq> log_tail log"
    "sorted_wrt (\<lambda>a b. ev_seq_no b < ev_seq_no a) (log_view log)"
  shows "\<exists>lt. LogTail True log earliest (log_size log) = Ret (Some lt) \<and> log_wf lt
    \<and> log_view lt = rev (filter (\<lambda>e. earliest \<le> ev_seq_no e) (log_view log))"
proof -
  let ?w = "takeWhile (\<lambda>e. earliest \<le> ev_seq_no e) (log_view log)" and ?n = "unat (log_size log)"
  have pos: "0 < log_size log" using log_wf_size[OF assms(1)] by (simp add: word_less_nat_alt)
  have fits: "log_fits (log_size log)" using assms(1) by (simp add: log_wf_def)
  have "length ?w \<le> log_count log" using length_takeWhile_le by (metis length_log_view)
  then have "length ?w \<le> ?n - 1" using log_count_less[OF assms(1)] by simp
  then have "take (?n - 1) (rev (take ?n ?w)) = rev ?w" by simp
  then show ?thesis
    using LogTail_ok[OF assms(1,2) pos fits, of earliest] takeWhile_descending[OF assms(3)] by simp
qed

definition tail_example :: LOG where
  "tail_example = \<lparr>log_mutex = \<lparr>sema_value = 1\<rparr>, log_tail_wait = zero_sema, log_host_id = 7, log_seq_no = 4,
     log_filename = [], log_size = 3, log_space = 0, log_head = 0, log_tail = 1, log_last_checked = 0,
     log_events = [zero_event\<lparr>ev_seq_no := 3\<rparr>, zero_event\<lparr>ev_seq_no := 1\<rparr>, zero_event\<lparr>ev_seq_no := 2\<rparr>, zero_event]\<rparr>"

lemma tail_example_view: "log_view tail_example = [zero_event\<lparr>ev_seq_no := 3\<rparr>, zero_event\<lparr>ev_seq_no := 2\<rparr>]"
  by (simp add: tail_example_def log_view_def log_count_def span_def newest_def behind_def upt_rec)

theorem LogTail_complete_witness:
  "log_wf tail_example \<and> (\<exists>lt. LogTail True tail_example 3 3 = Ret (Some lt)
    \<and> log_view lt = [zero_event\<lparr>ev_seq_no := 3\<rparr>])"
proof -
  have wf: "log_wf tail_example" by (simp add: log_wf_def tail_example_def log_fits_def)
  moreover have "log_head tail_example \<noteq> log_tail tail_example" "log_size tail_example = 3"
    by (simp_all add: tail_example_def)
  ultimately show ?thesis using LogTail_complete[of tail_example 3] by (auto simp: tail_example_view)
qed

text \<open>Two events with sequence numbers below \<open>2 ^ 32\<close> have the same index in the pending
  trees of the global log exactly when they carry the same sequence number and their host
  identifiers agree in the low 32 bits.\<close>

theorem EventIndex_eq_iff:
  assumes "unat s < 2 ^ 32" "unat s' < 2 ^ 32"
  shows "EventIndex h s = EventIndex h' s' \<longleftrightarrow> unat h mod 2 ^ 32 = unat h' mod 2 ^ 32 \<and> s = s'"
proof -
  let ?a = "unat h mod 2 ^ 32" and ?b = "unat h' mod 2 ^ 32"
  have "EventIndex h s = EventIndex h' s' \<longleftrightarrow> ?a * 2 ^ 32 + unat s = ?b * 2 ^ 32 + unat s'"
    by (simp only: word_unat_eq_iff EventIndex_unat[OF assms(1)] EventIndex_unat[OF assms(2)])
  also have "\<dots> \<longleftrightarrow> ?a = ?b \<and> unat s = unat s'"
  proof
    assume e: "?a * 2 ^ 32 + unat s = ?b * 2 ^ 32 + unat s'"
    from arg_cong[OF e, of "\<lambda>x. x div 2 ^ 32"] arg_cong[OF e, of "\<lambda>x. x mod 2 ^ 32"]
    show "?a = ?b \<and> unat s = unat s'" using assms by simp
  qed simp
  finally show ?thesis by (simp add: word_unat_eq_iff)
qed

theorem EventIndex_eq_iff_witness:
  "EventIndex 5 7 \<noteq> EventIndex 6 7 \<and> EventIndex 5 7 = EventIndex (5 + 2 ^ 32) 7"
  using EventIndex_eq_iff[of 7 7 5 6] EventIndex_eq_iff[of 7 7 5 "5 + 2 ^ 32"] by simp

end
