(* ===== verification/Woof.thy ===== *)
theory Woof
  imports Event_Log
begin

text \<open>
  The WooF itself: an append-only log of fixed-size elements in a memory-mapped circular buffer
  (\<^verbatim>\<open>src/src/woofc.cpp\<close>, structures of \<^verbatim>\<open>src/src/include/woofc-priv.h\<close>). The buffer is modelled
  byte by byte, with the 64-bit address arithmetic of the code: an access outside the mapping is
  a fault. The mapped structure is abstracted to the list of the elements it retains, newest
  first, and appends and reads are shown to act on that list.
\<close>

section \<open>Structures\<close>

record WOOF_SHARED =
  wfs_filename :: string
  wfs_watermark :: u64
  wfs_version :: string
  wfs_mutex :: sema
  wfs_tail_wait :: sema
  wfs_seq_no :: u64
  wfs_history_size :: u64
  wfs_head :: u64
  wfs_tail :: u64
  wfs_element_size :: u64
  wfs_buf :: bytes

text \<open>An open WooF: the mapping, and the inode number of its file.\<close>

record WOOF =
  wf_shared :: WOOF_SHARED
  wf_ino :: u64

text \<open>The globals of the process that the append reads and writes.\<close>

record namespace_state =
  WooF_namespace :: string
  Name_id :: u64
  Name_log :: "LOG option"

definition CSPOT_WATERMARK :: u64 where "CSPOT_WATERMARK = 0xdeadbeef"
definition sizeof_ELID :: u64 where "sizeof_ELID = 8"
definition sizeof_WOOF_SHARED :: u64 where "sizeof_WOOF_SHARED = 2096"

abbreviation stride :: "WOOF_SHARED \<Rightarrow> u64" where
  "stride w \<equiv> wfs_element_size w + sizeof_ELID"

section \<open>Creation\<close>

text \<open>
  The part of \<open>WooFCreate\<close> that lays out a mapping of \<open>space\<close> zero bytes. A mapping smaller than
  the header (the size computation wrapped) faults when the header is written.
\<close>

definition woof_layout :: "string \<Rightarrow> string \<Rightarrow> u64 \<Rightarrow> u64 \<Rightarrow> WOOF_SHARED run" where
  "woof_layout version name element_size history_size =
     (let space = (history_size + 1) * (element_size + sizeof_ELID) + sizeof_WOOF_SHARED in
      if unat space < unat sizeof_WOOF_SHARED then Fault
      else Ret \<lparr>wfs_filename = take 2032 name, wfs_watermark = CSPOT_WATERMARK, wfs_version = version,
        wfs_mutex = snd (InitSem zero_sema 1),
        wfs_tail_wait = snd (InitSem zero_sema (ucast history_size)),
        wfs_seq_no = 1, wfs_history_size = history_size, wfs_head = 0, wfs_tail = - 1,
        wfs_element_size = element_size,
        wfs_buf = replicate (unat space - unat sizeof_WOOF_SHARED) 0\<rparr>)"

section \<open>Appending\<close>

text \<open>Writing the element and its sequence number into slot \<open>next\<close>.\<close>

definition slot_write :: "WOOF_SHARED \<Rightarrow> u64 \<Rightarrow> bytes \<Rightarrow> WOOF_SHARED run" where
  "slot_write w next element =
     (let ptr = next * stride w; el_id = ptr + wfs_element_size w; es = unat (wfs_element_size w) in
      if length element < es then Fault
      else run_bind (memcpy_to (wfs_buf w) (unat ptr) (take es element)) (\<lambda>b1.
           run_bind (memcpy_to b1 (unat el_id) (le64 (wfs_seq_no w))) (\<lambda>b2.
           Ret (w\<lparr>wfs_buf := b2\<rparr>))))"

text \<open>
  The critical section of the append functions, which differ in how they move the tail:
  \<open>WooFAppendWithCause\<close> starts the tail when the buffer wraps for the first time.
\<close>

definition tail_with_cause :: "WOOF_SHARED \<Rightarrow> u64 \<Rightarrow> u64" where
  "tail_with_cause w ndx =
     (if ndx = 0 \<and> wfs_tail w = - 1 then 1 mod wfs_history_size w
      else if ndx = wfs_tail w then (wfs_tail w + 1) mod wfs_history_size w
      else wfs_tail w)"

definition woof_push ::
  "(WOOF_SHARED \<Rightarrow> u64 \<Rightarrow> u64) \<Rightarrow> WOOF_SHARED \<Rightarrow> bytes \<Rightarrow> (u64 \<times> u64 \<times> WOOF_SHARED) run" where
  "woof_push new_tail w element =
     (if wfs_history_size w = 0 then Fault
      else let next = (wfs_head w + 1) mod wfs_history_size w in
        run_bind (slot_write w next element) (\<lambda>w1.
        let w2 = w1\<lparr>wfs_head := next, wfs_tail := new_tail w1 next\<rparr>; seq_no = wfs_seq_no w2 in
        Ret (next, seq_no, w2\<lparr>wfs_seq_no := seq_no + 1\<rparr>)))"

text \<open>The event that makes the dispatcher run the handler.\<close>

definition trigger_event ::
  "namespace_state \<Rightarrow> WOOF \<Rightarrow> string \<Rightarrow> EVENT \<Rightarrow> u64 \<Rightarrow> u64 \<Rightarrow> EVENT" where
  "trigger_event ns wo hand_name ev ndx seq_no = ev\<lparr>
     ev_woofc_namespace := take 1024 (WooF_namespace ns),
     ev_woofc_ndx := ndx, ev_woofc_seq_no := seq_no,
     ev_woofc_element_size := wfs_element_size (wf_shared wo),
     ev_woofc_history_size := wfs_history_size (wf_shared wo),
     ev_woofc_name := take 128 (wfs_filename (wf_shared wo)),
     ev_woofc_handler := take 128 hand_name, ev_ino := wf_ino wo\<rparr>"

definition log_post :: "LOG \<Rightarrow> LOG" where
  "log_post log = log\<lparr>log_tail_wait := sem_V (log_tail_wait log)\<rparr>"

text \<open>
  \<open>WooFAppendWithCause\<close>. Without a namespace log and with a handler the code frees the event
  twice and posts to a null log: a fault.
\<close>

definition WooFAppendWithCause ::
  "int \<times> int \<Rightarrow> namespace_state \<Rightarrow> WOOF \<Rightarrow> string option \<Rightarrow> bytes \<Rightarrow> u64 \<Rightarrow> u64 \<Rightarrow> (u64 \<times> WOOF \<times> namespace_state) run" where
  "WooFAppendWithCause ts ns wo hand_name element cause_host cause_seq_no =
     (let w = wf_shared wo in
      run_bind (sem_P (wfs_tail_wait w)) (\<lambda>tw.
      run_bind (sem_P (wfs_mutex w)) (\<lambda>m.
      run_bind (woof_push tail_with_cause (w\<lparr>wfs_tail_wait := tw, wfs_mutex := m\<rparr>) element) (\<lambda>(ndx, seq_no, w1).
      let w2 = w1\<lparr>wfs_mutex := sem_V (wfs_mutex w1)\<rparr>;
          released = wo\<lparr>wf_shared := w2\<lparr>wfs_tail_wait := sem_V (wfs_tail_wait w2)\<rparr>\<rparr> in
      case hand_name of
        None \<Rightarrow> Ret (seq_no, released, ns)
      | Some h \<Rightarrow>
          let ev = (EventCreate ts TRIGGER (Name_id ns))\<lparr>ev_cause_host := cause_host, ev_cause_seq_no := cause_seq_no\<rparr> in
          run_bind (LogEvent (Name_log ns) (trigger_event ns (wo\<lparr>wf_shared := w2\<rparr>) h ev ndx seq_no)) (\<lambda>(ls, log).
          case log of
            None \<Rightarrow> Fault
          | Some l \<Rightarrow> if ls = 0 then Fault else Ret (seq_no, released, ns\<lparr>Name_log := Some (log_post l)\<rparr>))))))"

section \<open>Reading\<close>

definition WooFGetEarliest :: "WOOF_SHARED \<Rightarrow> u64" where
  "WooFGetEarliest w =
     (let latest_seq_no = wfs_seq_no w - 1 in
      if wfs_tail w \<noteq> - 1 then latest_seq_no - wfs_history_size w + 1
      else latest_seq_no - wfs_head w + 1)"

definition WooFLatestSeqno :: "WOOF_SHARED \<Rightarrow> u64" where
  "WooFLatestSeqno w = wfs_seq_no w - 1"

definition WooFLatest :: "WOOF_SHARED \<Rightarrow> u64" where
  "WooFLatest w = wfs_head w"

definition WooFEarliest :: "WOOF_SHARED \<Rightarrow> u64 run" where
  "WooFEarliest w =
     (if wfs_history_size w = 0 then Fault
      else Ret (if wfs_tail w = - 1 then 1 mod wfs_history_size w
                else (wfs_tail w + 1) mod wfs_history_size w))"

definition WooFInvalid :: "u64 \<Rightarrow> int" where
  "WooFInvalid seq_no = (if seq_no = - 1 then 1 else 0)"

definition slot_read :: "WOOF_SHARED \<Rightarrow> u64 \<Rightarrow> bytes run" where
  "slot_read w ndx = memcpy_from (wfs_buf w) (unat (ndx * stride w)) (unat (wfs_element_size w))"

text \<open>
  \<open>WooFReadWithCause\<close> in the build without causal tracking: the return value, the element copied
  out (\<open>None\<close> when the caller's buffer is left alone) and the WooF.
\<close>

definition WooFReadWithCause :: "WOOF_SHARED \<Rightarrow> u64 \<Rightarrow> (int \<times> bytes option \<times> WOOF_SHARED) run" where
  "WooFReadWithCause w0 seq_no =
     run_bind (sem_P (wfs_mutex w0)) (\<lambda>m.
     let w = w0\<lparr>wfs_mutex := m\<rparr>; out = w\<lparr>wfs_mutex := sem_V (wfs_mutex w)\<rparr> in
     if seq_no = 0 \<and> wfs_seq_no w \<le> 1 then Ret (- 1, None, out)
     else let l_seq_no = (if seq_no = 0 then wfs_seq_no w - 1 else seq_no);
              youngest = wfs_seq_no w - 1;
              last_valid = (if wfs_tail w = - 1 then 1 + wfs_history_size w else wfs_tail w);
              oldest = WooFGetEarliest w in
          if l_seq_no < oldest \<or> youngest < l_seq_no then Ret (- 1, None, out)
          else if wfs_history_size w = 0 then Fault
          else let ndx = (last_valid + (l_seq_no - oldest)) mod wfs_history_size w in
            run_bind (slot_read w ndx) (\<lambda>e. Ret (1, Some e, out)))"

section \<open>Well-formed WooFs and their contents\<close>

abbreviation hist :: "WOOF_SHARED \<Rightarrow> nat" where
  "hist w \<equiv> unat (wfs_history_size w)"

abbreviation elsz :: "WOOF_SHARED \<Rightarrow> nat" where
  "elsz w \<equiv> unat (wfs_element_size w)"

text \<open>The number of retained elements: \<open>head\<close> of them until the buffer wraps, then all slots.\<close>

definition woof_count :: "WOOF_SHARED \<Rightarrow> nat" where
  "woof_count w = (if wfs_tail w = - 1 then unat (wfs_head w) else hist w)"

definition woof_wf :: "WOOF_SHARED \<Rightarrow> bool" where
  "woof_wf w \<longleftrightarrow> unat (wfs_head w) < hist w
     \<and> length (wfs_buf w) = Suc (hist w) * (elsz w + 8)
     \<and> Suc (hist w) * (elsz w + 8) < 2 ^ 64
     \<and> (wfs_tail w = - 1 \<or> unat (wfs_tail w) = Suc (unat (wfs_head w)) mod hist w)
     \<and> woof_count w < unat (wfs_seq_no w)"

text \<open>Both semaphores have a unit: no other operation is inside the WooF.\<close>

definition woof_idle :: "WOOF_SHARED \<Rightarrow> bool" where
  "woof_idle w \<longleftrightarrow> 0 < sem_val (wfs_mutex w) \<and> 0 < sem_val (wfs_tail_wait w)"

definition slot_rd :: "nat \<Rightarrow> bytes \<Rightarrow> nat \<Rightarrow> bytes \<times> u64" where
  "slot_rd es b i = (load b (i * (es + 8)) es, of_le64 (load b (i * (es + 8) + es) 8))"

definition slot_wr :: "nat \<Rightarrow> bytes \<Rightarrow> nat \<Rightarrow> bytes \<times> u64 \<Rightarrow> bytes" where
  "slot_wr es b i e = overwrite (overwrite b (i * (es + 8)) (fst e)) (i * (es + 8) + es) (le64 (snd e))"

definition slot_cap :: "nat \<Rightarrow> bytes \<Rightarrow> nat" where
  "slot_cap es b = length b div (es + 8)"

definition woof_slots :: "WOOF_SHARED \<Rightarrow> (bytes \<times> u64) list" where
  "woof_slots w = newest (slot_rd (elsz w) (wfs_buf w)) (hist w) (unat (wfs_head w)) (woof_count w)"

definition woof_view :: "WOOF_SHARED \<Rightarrow> bytes list" where
  "woof_view w = map fst (woof_slots w)"

section \<open>Slots of the buffer\<close>

lemma slot_end: "i < slot_cap es b \<Longrightarrow> Suc i * (es + 8) \<le> length b"
proof -
  assume "i < slot_cap es b"
  then have "Suc i \<le> length b div (es + 8)" by (simp add: slot_cap_def)
  then have "Suc i * (es + 8) \<le> length b div (es + 8) * (es + 8)" by (rule mult_le_mono1)
  also have "\<dots> \<le> length b" by simp
  finally show ?thesis .
qed

lemma slot_disjoint: "i < j \<Longrightarrow> Suc i * (es + 8) \<le> j * (es + (8 :: nat))"
  by (intro mult_le_mono1) simp

lemma slot_wr_length:
  "i < slot_cap es b \<Longrightarrow> length (fst e) = es \<Longrightarrow> length (slot_wr es b i e) = length b"
  using slot_end[of i es b] by (simp add: slot_wr_def mem_simps)

interpretation woof_array: slot_array "slot_rd es" "slot_wr es" "slot_cap es" "\<lambda>e. length (fst e) = es" for es
proof
  fix i j and m :: bytes and e :: "bytes \<times> u64"
  assume i: "i < slot_cap es m" and e: "length (fst e) = es"
  note le = slot_end[OF i]
  show "slot_rd es (slot_wr es m i e) i = e"
    using le e by (simp add: slot_rd_def slot_wr_def mem_simps)
  show "slot_cap es (slot_wr es m i e) = slot_cap es m"
    using slot_wr_length[OF i e] by (simp add: slot_cap_def)
  assume j: "j < slot_cap es m" "j \<noteq> i"
  then consider "j < i" | "i < j" by linarith
  then show "slot_rd es (slot_wr es m i e) j = slot_rd es m j"
  proof cases
    case 1
    show ?thesis using 1 le e slot_disjoint[OF 1, of es] by (simp add: slot_rd_def slot_wr_def mem_simps)
  next
    case 2
    show ?thesis using 2 le e slot_disjoint[OF 2, of es] by (simp add: slot_rd_def slot_wr_def mem_simps)
  qed
qed

lemma woof_wf_hist: "woof_wf w \<Longrightarrow> 0 < hist w"
  by (auto simp: woof_wf_def)

lemma woof_wf_cap: "woof_wf w \<Longrightarrow> slot_cap (elsz w) (wfs_buf w) = Suc (hist w)"
proof -
  assume "woof_wf w"
  then have "length (wfs_buf w) = Suc (hist w) * (elsz w + 8)" by (simp add: woof_wf_def)
  then show ?thesis unfolding slot_cap_def by (metis add_gr_0 nonzero_mult_div_cancel_right zero_less_numeral less_numeral_extra(3))
qed

lemma unat_stride: "woof_wf w \<Longrightarrow> unat (stride w) = elsz w + 8"
proof -
  assume "woof_wf w"
  then have "Suc (hist w) * (elsz w + 8) < 2 ^ 64" by (simp add: woof_wf_def)
  moreover have "elsz w + 8 \<le> Suc (hist w) * (elsz w + 8)" by simp
  ultimately have "elsz w + 8 < 2 ^ 64" by (rule le_less_trans[rotated])
  then show ?thesis by (simp add: sizeof_ELID_def unat64_add)
qed

text \<open>The address arithmetic of the code does not wrap inside a well-formed WooF.\<close>

lemma unat_slot_ptr:
  assumes "woof_wf w" "unat ndx \<le> hist w"
  shows "unat (ndx * stride w) = unat ndx * (elsz w + 8)"
    and "unat (ndx * stride w + wfs_element_size w) = unat ndx * (elsz w + 8) + elsz w"
proof -
  have "unat ndx * (elsz w + 8) + (elsz w + 8) \<le> Suc (hist w) * (elsz w + 8)"
    using mult_le_mono1[of "Suc (unat ndx)" "Suc (hist w)" "elsz w + 8"] assms(2) by simp
  also have "\<dots> < 2 ^ 64" using assms(1) by (simp add: woof_wf_def)
  finally have lt: "unat ndx * (elsz w + 8) + (elsz w + 8) < 2 ^ 64" .
  then show p: "unat (ndx * stride w) = unat ndx * (elsz w + 8)"
    using unat64_mult[of ndx "stride w"] unat_stride[OF assms(1)] by simp
  show "unat (ndx * stride w + wfs_element_size w) = unat ndx * (elsz w + 8) + elsz w"
    using lt p unat64_add[of "ndx * stride w" "wfs_element_size w"] by simp
qed

lemma slot_in_buf:
  assumes "woof_wf w" "i \<le> hist w"
  shows "i * (elsz w + 8) + elsz w + 8 \<le> length (wfs_buf w)"
  using slot_end[of i "elsz w" "wfs_buf w"] woof_wf_cap[OF assms(1)] assms(2) by simp

lemma slot_read_eq:
  assumes "woof_wf w" "unat ndx \<le> hist w"
  shows "slot_read w ndx = Ret (fst (slot_rd (elsz w) (wfs_buf w) (unat ndx)))"
  using slot_in_buf[OF assms] unat_slot_ptr(1)[OF assms]
  by (simp add: slot_read_def memcpy_from_def slot_rd_def)

lemma slot_write_eq:
  assumes "woof_wf w" "unat ndx \<le> hist w" "elsz w \<le> length element"
  shows "slot_write w ndx element =
    Ret (w\<lparr>wfs_buf := slot_wr (elsz w) (wfs_buf w) (unat ndx) (take (elsz w) element, wfs_seq_no w)\<rparr>)"
  using slot_in_buf[OF assms(1,2)] unat_slot_ptr[OF assms(1,2)] assms(3)
  by (simp add: slot_write_def memcpy_to_def slot_wr_def Let_def mem_simps)

section \<open>The append acts on the contents as a bounded push\<close>

lemma hist_small: "woof_wf w \<Longrightarrow> hist w < 2 ^ 61"
proof -
  assume "woof_wf w"
  then have "Suc (hist w) * (elsz w + 8) < 2 ^ 64" by (simp add: woof_wf_def)
  moreover have "Suc (hist w) * 8 \<le> Suc (hist w) * (elsz w + 8)" by (intro mult_le_mono2) simp
  ultimately have "Suc (hist w) * 8 < 2 ^ 64" by (rule le_less_trans[rotated])
  then show ?thesis by simp
qed

lemma index_not_minus1: "woof_wf w \<Longrightarrow> unat (i :: u64) < hist w \<Longrightarrow> i \<noteq> - 1"
proof
  assume "woof_wf w" "unat i < hist w" "i = - 1"
  moreover have "unat (- 1 :: u64) = 2 ^ 64 - 1" by (simp add: unsigned_minus_1_eq_mask mask_eq_exp_minus_1)
  ultimately show False using hist_small[of w] by simp
qed

lemma length_woof_slots [simp]: "length (woof_slots w) = woof_count w"
  by (simp add: woof_slots_def)

lemma length_woof_view [simp]: "length (woof_view w) = woof_count w"
  by (simp add: woof_view_def)

lemma woof_count_le: "woof_wf w \<Longrightarrow> woof_count w \<le> hist w"
  by (auto simp: woof_count_def woof_wf_def)

text \<open>The tail after an append, and the number of elements it stands for.\<close>

lemma tail_with_cause_ok:
  fixes w :: WOOF_SHARED
  defines "next \<equiv> (wfs_head w + 1) mod wfs_history_size w"
  assumes wf: "woof_wf w" and b: "wfs_tail w1 = wfs_tail w" "wfs_history_size w1 = wfs_history_size w"
  shows "tail_with_cause w1 next = - 1 \<or> unat (tail_with_cause w1 next) = Suc (unat next) mod hist w"
    and "tail_with_cause w1 next = - 1 \<longleftrightarrow> wfs_tail w = - 1 \<and> Suc (unat (wfs_head w)) < hist w"
proof -
  let ?h = "unat (wfs_head w)" and ?n = "hist w"
  have h: "?h < ?n" using wf by (simp add: woof_wf_def)
  have nx: "unat next = Suc ?h mod ?n" unfolding next_def using h by (rule unat64_next)
  have nxn: "unat next < ?n" using nx h by simp
  have nx1: "next \<noteq> - 1" using index_not_minus1[OF wf nxn] .
  have upd: "unat ((next + 1) mod wfs_history_size w) = Suc (unat next) mod ?n"
    using nxn by (rule unat64_next)
  have upd1: "(next + 1) mod wfs_history_size w \<noteq> - 1"
    by (rule index_not_minus1[OF wf]) (use upd h in simp)
  have zero: "next = 0 \<longleftrightarrow> Suc ?h = ?n" using nx h by (simp add: unat_eq_0[symmetric] Suc_mod_eq)
  show "tail_with_cause w1 next = - 1 \<or> unat (tail_with_cause w1 next) = Suc (unat next) mod ?n"
  proof (cases "wfs_tail w = - 1")
    case True
    then show ?thesis using b nx1 upd by (auto simp: tail_with_cause_def)
  next
    case False
    then have "wfs_tail w = next" using wf nx by (auto simp: woof_wf_def word_unat_eq_iff)
    then show ?thesis using b upd False by (simp add: tail_with_cause_def)
  qed
  show "tail_with_cause w1 next = - 1 \<longleftrightarrow> wfs_tail w = - 1 \<and> Suc ?h < ?n"
  proof (cases "wfs_tail w = - 1")
    case True
    then show ?thesis using b nx1 upd1 zero h by (auto simp: tail_with_cause_def)
  next
    case False
    then have "wfs_tail w = next" using wf nx by (auto simp: woof_wf_def word_unat_eq_iff)
    then show ?thesis using b upd1 False by (simp add: tail_with_cause_def)
  qed
qed

lemma woof_push_ok:
  assumes wf: "woof_wf w" and el: "elsz w \<le> length e" and seq: "unat (wfs_seq_no w) < 2 ^ 64 - 1"
  obtains w' where
    "woof_push tail_with_cause w e = Ret ((wfs_head w + 1) mod wfs_history_size w, wfs_seq_no w, w')"
    "woof_wf w'" "woof_slots w' = take (hist w) ((take (elsz w) e, wfs_seq_no w) # woof_slots w)"
    "w' = w\<lparr>wfs_buf := wfs_buf w', wfs_head := (wfs_head w + 1) mod wfs_history_size w, wfs_tail := wfs_tail w', wfs_seq_no := wfs_seq_no w + 1\<rparr>"
proof -
  let ?h = "unat (wfs_head w)" and ?n = "hist w" and ?es = "elsz w"
  let ?next = "(wfs_head w + 1) mod wfs_history_size w"
  let ?x = "(take ?es e, wfs_seq_no w)"
  have h: "?h < ?n" using wf by (simp add: woof_wf_def)
  have nx: "unat ?next = Suc ?h mod ?n" using h by (rule unat64_next)
  have nxn: "unat ?next < ?n" using nx h by simp
  have seq': "unat (wfs_seq_no w + 1) = Suc (unat (wfs_seq_no w))" using seq by (simp add: unat_word_ariths)
  define w1 where "w1 = w\<lparr>wfs_buf := slot_wr ?es (wfs_buf w) (unat ?next) ?x\<rparr>"
  define w' where "w' = w1\<lparr>wfs_head := ?next, wfs_tail := tail_with_cause w1 ?next, wfs_seq_no := wfs_seq_no w + 1\<rparr>"
  have w1: "wfs_tail w1 = wfs_tail w" "wfs_history_size w1 = wfs_history_size w" by (simp_all add: w1_def)
  note tl = tail_with_cause_ok[OF wf w1]
  have "slot_write w ?next e = Ret w1"
    using slot_write_eq[OF wf _ el, of ?next] nxn by (simp add: w1_def)
  then have push: "woof_push tail_with_cause w e = Ret (?next, wfs_seq_no w, w')"
    using h by (auto simp: woof_push_def Let_def w'_def w1_def)
  have x: "length (fst ?x) = ?es" using el by simp
  have cap: "unat ?next < slot_cap ?es (wfs_buf w)" using woof_wf_cap[OF wf] nxn by simp
  have len: "length (wfs_buf w') = length (wfs_buf w)"
    using slot_wr_length[OF cap x] by (simp add: w'_def w1_def)
  have cnt: "woof_count w' = min ?n (Suc (woof_count w))"
    using tl h nx by (auto simp: woof_count_def w'_def w1_def Suc_mod_eq)
  have wf': "woof_wf w'"
    using wf len tl(1) nxn cnt seq' by (auto simp: woof_wf_def w'_def w1_def)
  have "woof_slots w' = newest (slot_rd ?es (slot_wr ?es (wfs_buf w) (Suc ?h mod ?n) ?x)) ?n (Suc ?h mod ?n) (woof_count w')"
    using nx by (simp add: woof_slots_def w'_def w1_def)
  also have "\<dots> = take ?n (?x # woof_slots w)"
  proof (cases "woof_count w < ?n")
    case True
    then show ?thesis
      using woof_array.newest_push[of ?n ?es "wfs_buf w" ?h "woof_count w" ?x] h x woof_wf_cap[OF wf] cnt
      by (simp add: woof_slots_def take_newest)
  next
    case False
    then have c: "woof_count w = ?n" using woof_count_le[OF wf] by simp
    then show ?thesis
      using woof_array.newest_push_take[of ?n ?es "wfs_buf w" ?h ?n ?x] h x woof_wf_cap[OF wf] cnt
      by (simp add: woof_slots_def)
  qed
  finally have "woof_slots w' = take ?n (?x # woof_slots w)" .
  then show ?thesis using that[OF push wf'] by (simp add: w'_def w1_def)
qed

section \<open>The read returns the retained element\<close>

text \<open>
  The specification of a read: \<open>xs\<close> are the retained elements, newest first, and \<open>latest\<close> is the
  number of the newest one. Sequence number 0 asks for the newest element.
\<close>

definition spec_read :: "'e list \<Rightarrow> nat \<Rightarrow> nat \<Rightarrow> 'e option" where
  "spec_read xs latest s =
     (let l = (if s = 0 then latest else s) in
      if latest < l + length xs \<and> l \<le> latest then Some (xs ! (latest - l)) else None)"

definition latest :: "WOOF_SHARED \<Rightarrow> nat" where
  "latest w = unat (wfs_seq_no w) - 1"

lemma unat_latest: "woof_wf w \<Longrightarrow> unat (wfs_seq_no w - 1) = latest w"
  by (simp add: woof_wf_def latest_def unat64_minus1)

lemma count_le_latest: "woof_wf w \<Longrightarrow> woof_count w \<le> latest w"
  by (auto simp: woof_wf_def latest_def)

lemma unat_earliest: "woof_wf w \<Longrightarrow> unat (WooFGetEarliest w) = latest w - woof_count w + 1"
proof -
  assume wf: "woof_wf w"
  define k where "k = (if wfs_tail w = - 1 then wfs_head w else wfs_history_size w)"
  have k: "unat k = woof_count w" by (simp add: k_def woof_count_def)
  then have "unat (wfs_seq_no w - 1 - k) = latest w - woof_count w"
    using unat64_sub[of k "wfs_seq_no w - 1"] unat_latest[OF wf] count_le_latest[OF wf] by simp
  moreover have "latest w < 2 ^ 64 - 1"
    using unat64_less[of "wfs_seq_no w"] wf by (auto simp: latest_def woof_wf_def)
  ultimately have "unat (wfs_seq_no w - 1 - k + 1) = latest w - woof_count w + 1"
    using unat64_add[of "wfs_seq_no w - 1 - k" 1] by simp
  then show ?thesis by (simp add: WooFGetEarliest_def k_def split: if_splits)
qed

text \<open>The index computed forward from the oldest valid slot is the slot of the element.\<close>

lemma read_index:
  assumes wf: "woof_wf w" and l: "latest w < unat l + woof_count w" "unat l \<le> latest w"
  shows "unat (((if wfs_tail w = - 1 then 1 + wfs_history_size w else wfs_tail w)
           + (l - WooFGetEarliest w)) mod wfs_history_size w)
         = behind (hist w) (unat (wfs_head w)) (latest w - unat l)"
proof -
  let ?h = "unat (wfs_head w)" and ?n = "hist w" and ?c = "woof_count w" and ?i = "latest w - unat l"
  have h: "?h < ?n" using wf by (simp add: woof_wf_def)
  have n: "?n < 2 ^ 61" using hist_small wf .
  have c: "?c \<le> ?n" using woof_count_le wf .
  have i: "?i < ?c" using l by simp
  have e: "unat (WooFGetEarliest w) \<le> unat l" using unat_earliest[OF wf] l count_le_latest[OF wf] by simp
  have d: "unat (l - WooFGetEarliest w) = ?c - 1 - ?i"
    using unat64_sub[OF e] unat_earliest[OF wf] l count_le_latest[OF wf] by simp
  show ?thesis
  proof (cases "wfs_tail w = - 1")
    case True
    then have ch: "?c = ?h" by (simp add: woof_count_def)
    have a: "unat (1 + wfs_history_size w) = Suc ?n" using n by (simp add: unat64_add)
    then have "unat (1 + wfs_history_size w + (l - WooFGetEarliest w)) = Suc ?n + (?c - 1 - ?i)"
      using d n c by (subst unat64_add) simp_all
    also have "\<dots> = (?h - ?i) + ?n" using ch i by simp
    finally show ?thesis using True i ch h by (simp add: unat_mod_distrib behind_def)
  next
    case False
    then have t: "unat (wfs_tail w) = Suc ?h mod ?n" and cn: "?c = ?n" using wf by (auto simp: woof_wf_def woof_count_def)
    have tn: "Suc ?h mod ?n < ?n" using h by simp
    have "unat (wfs_tail w + (l - WooFGetEarliest w)) = Suc ?h mod ?n + (?n - 1 - ?i)"
      using d n cn t tn by (subst unat64_add) simp_all
    then have "unat ((wfs_tail w + (l - WooFGetEarliest w)) mod wfs_history_size w) = (Suc ?h + (?n - 1 - ?i)) mod ?n"
      by (simp add: unat_mod_distrib mod_add_left_eq)
    also have "Suc ?h + (?n - 1 - ?i) = ?h + ?n - ?i" using i cn by simp
    finally show ?thesis using False by (simp add: behind_def)
  qed
qed

lemma woof_view_nth:
  "i < woof_count w \<Longrightarrow>
   woof_view w ! i = fst (slot_rd (elsz w) (wfs_buf w) (behind (hist w) (unat (wfs_head w)) i))"
  by (simp add: woof_view_def woof_slots_def)

lemma woof_wf_mutex [simp]: "woof_wf (w\<lparr>wfs_mutex := m\<rparr>) = woof_wf w"
  and woof_wf_tail_wait [simp]: "woof_wf (w\<lparr>wfs_tail_wait := m\<rparr>) = woof_wf w"
  and woof_slots_mutex [simp]: "woof_slots (w\<lparr>wfs_mutex := m\<rparr>) = woof_slots w"
  and woof_slots_tail_wait [simp]: "woof_slots (w\<lparr>wfs_tail_wait := m\<rparr>) = woof_slots w"
  and latest_mutex [simp]: "latest (w\<lparr>wfs_mutex := m\<rparr>) = latest w"
  and woof_count_mutex [simp]: "woof_count (w\<lparr>wfs_mutex := m\<rparr>) = woof_count w"
  and earliest_mutex [simp]: "WooFGetEarliest (w\<lparr>wfs_mutex := m\<rparr>) = WooFGetEarliest w"
  and slot_read_mutex [simp]: "slot_read (w\<lparr>wfs_mutex := m\<rparr>) = slot_read w"
  by (simp_all add: woof_wf_def woof_count_def woof_slots_def latest_def WooFGetEarliest_def slot_read_def fun_eq_iff Let_def)

lemma WooFRead_ok:
  assumes wf: "woof_wf w" and m: "0 < sem_val (wfs_mutex w)"
  shows "WooFReadWithCause w s = Ret (case spec_read (woof_view w) (latest w) (unat s) of
           None \<Rightarrow> (- 1, None, w) | Some e \<Rightarrow> (1, Some e, w))"
proof -
  obtain m' where m': "sem_P (wfs_mutex w) = Ret m'" using futex.down_pos[OF m] by blast
  have out: "w\<lparr>wfs_mutex := sem_V m'\<rparr> = w" using futex.bracket[OF m'] by simp
  define l where "l = (if s = 0 then wfs_seq_no w - 1 else s)"
  have l: "unat l = (if unat s = 0 then latest w else unat s)"
    using unat_latest[OF wf] by (simp add: l_def unat_eq_0)
  have cnt: "woof_count w \<le> latest w" using count_le_latest wf .
  have n0: "wfs_history_size w \<noteq> 0" using woof_wf_hist[OF wf] by auto
  have range: "l < WooFGetEarliest w \<or> wfs_seq_no w - 1 < l \<longleftrightarrow> \<not> (latest w < unat l + woof_count w \<and> unat l \<le> latest w)"
    using unat_earliest[OF wf] unat_latest[OF wf] cnt by (auto simp: word_less_nat_alt)
  have empty: "s = 0 \<and> wfs_seq_no w \<le> 1 \<Longrightarrow> woof_count w = 0"
    using wf by (auto simp: woof_wf_def word_le_nat_alt)
  define ndx where "ndx = ((if wfs_tail w = - 1 then 1 + wfs_history_size w else wfs_tail w)
      + (l - WooFGetEarliest w)) mod wfs_history_size w"
  have unf: "WooFReadWithCause w s =
     (if s = 0 \<and> wfs_seq_no w \<le> 1 then Ret (- 1, None, w)
      else if l < WooFGetEarliest w \<or> wfs_seq_no w - 1 < l then Ret (- 1, None, w)
      else run_bind (slot_read w ndx) (\<lambda>e. Ret (1, Some e, w)))"
    using m' out n0 by (simp add: WooFReadWithCause_def Let_def ndx_def l_def cong: if_cong)
  have spec: "spec_read (woof_view w) (latest w) (unat s) =
     (if latest w < unat l + woof_count w \<and> unat l \<le> latest w then Some (woof_view w ! (latest w - unat l)) else None)"
    using l by (simp add: spec_read_def Let_def)
  show ?thesis
  proof (cases "latest w < unat l + woof_count w \<and> unat l \<le> latest w")
    case False
    then show ?thesis using unf range spec by auto
  next
    case True
    have i: "latest w - unat l < woof_count w" using True cnt by linarith
    then have ne: "\<not> (s = 0 \<and> wfs_seq_no w \<le> 1)" using empty by auto
    have ndx: "unat ndx = behind (hist w) (unat (wfs_head w)) (latest w - unat l)"
      unfolding ndx_def using read_index[OF wf] True by blast
    then have "unat ndx \<le> hist w" using behind_less[OF woof_wf_hist[OF wf]] by (simp add: less_imp_le)
    then have "slot_read w ndx = Ret (woof_view w ! (latest w - unat l))"
      using slot_read_eq[OF wf] ndx woof_view_nth[OF i] by simp
    then show ?thesis using True unf ne range spec by auto
  qed
qed

section \<open>Whole operations\<close>

definition woof_fits :: "u64 \<Rightarrow> u64 \<Rightarrow> bool" where
  "woof_fits element_size history_size \<longleftrightarrow> 0 < unat history_size
     \<and> Suc (unat history_size) * (unat element_size + 8) + 2096 < 2 ^ 64"

lemma woof_fits_space:
  assumes "woof_fits es hs"
  shows "unat ((hs + 1) * (es + sizeof_ELID) + sizeof_WOOF_SHARED) = Suc (unat hs) * (unat es + 8) + 2096"
proof -
  define p where "p = Suc (unat hs) * (unat es + 8)"
  have lt: "p + 2096 < 2 ^ 64" using assms by (simp only: woof_fits_def p_def)
  have "Suc (unat hs) * 1 \<le> p" unfolding p_def by (rule mult_le_mono2) simp
  then have h: "Suc (unat hs) < 2 ^ 64" using lt by simp
  have "unat es + 8 \<le> p" by (simp add: p_def)
  then have e: "unat es + 8 < 2 ^ 64" using lt by simp
  have u: "unat (hs + 1) = Suc (unat hs)" "unat (es + sizeof_ELID) = unat es + 8"
    using h e by (simp_all add: sizeof_ELID_def unat64_add)
  have "unat (hs + 1) * unat (es + sizeof_ELID) = p" by (simp only: u p_def)
  then have m: "unat ((hs + 1) * (es + sizeof_ELID)) = p" using lt by (simp add: unat64_mult)
  have "unat ((hs + 1) * (es + sizeof_ELID) + sizeof_WOOF_SHARED) = p + 2096"
    using unat64_add[of "(hs + 1) * (es + sizeof_ELID)" sizeof_WOOF_SHARED] lt m by (simp add: sizeof_WOOF_SHARED_def)
  then show ?thesis by (simp only: p_def)
qed

lemma sint_ucast_small:
  assumes "unat (hs :: u64) < 2 ^ 31"
  shows "sint (ucast hs :: 32 word) = int (unat hs)"
proof -
  have "ucast hs = (word_of_int (int (unat hs)) :: 32 word)" by (simp only: ucast_eq of_nat_unat)
  moreover have "sint (word_of_int (int (unat hs)) :: 32 word) = int (unat hs)"
    by (rule sint32_of_int) (use assms in \<open>simp_all del: of_nat_unat\<close>)
  ultimately show ?thesis by simp
qed

text \<open>A new WooF is empty; it is ready for use when \<open>history_size\<close> is a non-negative \<open>int\<close>.\<close>

lemma woof_layout_ok:
  assumes "woof_fits es hs" "unat hs < 2 ^ 31"
  obtains w where "woof_layout v name es hs = Ret w" "woof_wf w" "woof_idle w" "woof_view w = []"
    "wfs_seq_no w = 1" "wfs_history_size w = hs" "wfs_element_size w = es" "wfs_watermark w = CSPOT_WATERMARK"
proof -
  let ?n = "unat hs"
  define p where "p = Suc ?n * (unat es + 8)"
  have sp: "unat ((hs + 1) * (es + sizeof_ELID) + sizeof_WOOF_SHARED) = p + 2096"
    using woof_fits_space[OF assms(1)] by (simp only: p_def)
  have n: "0 < ?n" "p < 2 ^ 64" using assms(1) by (simp_all only: woof_fits_def p_def) linarith
  have tw: "0 < sem_val (snd (InitSem zero_sema (ucast hs)))"
    using n(1) sint_ucast_small[OF assms(2)] by (simp add: InitSem_def del: of_nat_unat)
  have m: "0 < sem_val (snd (InitSem zero_sema 1))" by (simp add: InitSem_def)
  obtain w where w: "woof_layout v name es hs = Ret w"
    and f: "wfs_seq_no w = 1" "wfs_history_size w = hs" "wfs_element_size w = es" "wfs_head w = 0" "wfs_tail w = - 1"
      "wfs_watermark w = CSPOT_WATERMARK" "wfs_mutex w = snd (InitSem zero_sema 1)"
      "wfs_tail_wait w = snd (InitSem zero_sema (ucast hs))"
      "length (wfs_buf w) = p"
    using sp by (simp add: woof_layout_def Let_def sizeof_WOOF_SHARED_def)
  have c: "woof_count w = 0" using f by (simp add: woof_count_def)
  have "woof_wf w" using f n c by (simp add: woof_wf_def p_def)
  moreover have "woof_idle w" using f tw m by (simp add: woof_idle_def)
  moreover have "woof_view w = []" using c length_woof_view[of w] by (metis length_0_conv)
  ultimately show ?thesis using that w f by blast
qed

definition log_ready :: "namespace_state \<Rightarrow> bool" where
  "log_ready ns \<longleftrightarrow> (case Name_log ns of None \<Rightarrow> False
     | Some l \<Rightarrow> log_wf l \<and> 0 < sem_val (log_mutex l) \<and> log_seq_no l \<noteq> 0)"

text \<open>The state of a WooF after an append that took both semaphores and released them.\<close>

definition appended :: "WOOF_SHARED \<Rightarrow> bytes \<Rightarrow> WOOF_SHARED \<Rightarrow> bool" where
  "appended w e w' \<longleftrightarrow> woof_wf w'
     \<and> woof_slots w' = take (hist w) ((take (elsz w) e, wfs_seq_no w) # woof_slots w)
     \<and> w' = w\<lparr>wfs_buf := wfs_buf w', wfs_head := (wfs_head w + 1) mod wfs_history_size w, wfs_tail := wfs_tail w', wfs_seq_no := wfs_seq_no w + 1\<rparr>"

lemma appendedD:
  assumes "appended w e w'"
  shows "woof_wf w'" "woof_view w' = take (hist w) (take (elsz w) e # woof_view w)"
    "wfs_seq_no w' = wfs_seq_no w + 1" "wfs_history_size w' = wfs_history_size w"
    "wfs_element_size w' = wfs_element_size w" "wfs_mutex w' = wfs_mutex w" "wfs_tail_wait w' = wfs_tail_wait w"
    "wfs_filename w' = wfs_filename w" "wfs_watermark w' = wfs_watermark w"
    "wfs_head w' = (wfs_head w + 1) mod wfs_history_size w"
proof -
  show "woof_wf w'" using assms by (simp add: appended_def)
  show "woof_view w' = take (hist w) (take (elsz w) e # woof_view w)"
    using assms by (simp add: appended_def woof_view_def flip: take_map)
  have w': "w' = w\<lparr>wfs_buf := wfs_buf w', wfs_head := (wfs_head w + 1) mod wfs_history_size w, wfs_tail := wfs_tail w', wfs_seq_no := wfs_seq_no w + 1\<rparr>"
    using assms by (simp add: appended_def)
  show "wfs_seq_no w' = wfs_seq_no w + 1" by (subst w') simp
  show "wfs_history_size w' = wfs_history_size w" by (subst w') simp
  show "wfs_element_size w' = wfs_element_size w" by (subst w') simp
  show "wfs_mutex w' = wfs_mutex w" by (subst w') simp
  show "wfs_tail_wait w' = wfs_tail_wait w" by (subst w') simp
  show "wfs_filename w' = wfs_filename w" by (subst w') simp
  show "wfs_watermark w' = wfs_watermark w" by (subst w') simp
  show "wfs_head w' = (wfs_head w + 1) mod wfs_history_size w" by (subst w') simp
qed

lemma woof_push_appended:
  assumes "woof_wf w" "elsz w \<le> length e" "unat (wfs_seq_no w) < 2 ^ 64 - 1"
  obtains w' where "appended w e w'"
    "woof_push tail_with_cause w e = Ret ((wfs_head w + 1) mod wfs_history_size w, wfs_seq_no w, w')"
  using woof_push_ok[OF assms] unfolding appended_def by metis

text \<open>Taking the semaphores first and releasing them last leaves them as they were.\<close>

lemma appended_release:
  assumes "appended (w\<lparr>wfs_tail_wait := tw, wfs_mutex := m\<rparr>) e w'"
    "sem_P (wfs_tail_wait w) = Ret tw" "sem_P (wfs_mutex w) = Ret m"
  shows "appended w e (w'\<lparr>wfs_mutex := sem_V (wfs_mutex w'), wfs_tail_wait := sem_V (wfs_tail_wait w')\<rparr>)"
proof -
  let ?W = "w'\<lparr>wfs_mutex := sem_V (wfs_mutex w'), wfs_tail_wait := sem_V (wfs_tail_wait w')\<rparr>"
  have parts: "woof_wf ?W" "woof_slots ?W = take (hist w) ((take (elsz w) e, wfs_seq_no w) # woof_slots w)"
    using assms(1) by (simp_all add: appended_def)
  have "sem_V m = wfs_mutex w" "sem_V tw = wfs_tail_wait w"
    using futex.bracket assms(2,3) by auto
  moreover have "wfs_mutex w' = m" "wfs_tail_wait w' = tw" using appendedD[OF assms(1)] by auto
  moreover have "w' = w\<lparr>wfs_tail_wait := tw, wfs_mutex := m, wfs_buf := wfs_buf w', wfs_head := (wfs_head w + 1) mod wfs_history_size w,
      wfs_tail := wfs_tail w', wfs_seq_no := wfs_seq_no w + 1\<rparr>"
    using assms(1) by (simp add: appended_def)
  ultimately have "?W = w\<lparr>wfs_buf := wfs_buf ?W, wfs_head := (wfs_head w + 1) mod wfs_history_size w, wfs_tail := wfs_tail ?W,
      wfs_seq_no := wfs_seq_no w + 1\<rparr>"
    by (cases w; cases w') simp
  then show ?thesis using parts unfolding appended_def by blast
qed

text \<open>The append with a handler, with the event it logs.\<close>

lemma append_trigger:
  assumes "woof_wf (wf_shared wo)" "woof_idle (wf_shared wo)" "elsz (wf_shared wo) \<le> length e"
    "unat (wfs_seq_no (wf_shared wo)) < 2 ^ 64 - 1"
    "Name_log ns = Some l" "log_wf l" "0 < sem_val (log_mutex l)" "log_seq_no l \<noteq> 0"
  obtains w' l' ev where "WooFAppendWithCause ts ns wo (Some h) e ch cs
      = Ret (wfs_seq_no (wf_shared wo), wo\<lparr>wf_shared := w'\<rparr>, ns\<lparr>Name_log := Some l'\<rparr>)"
    "appended (wf_shared wo) e w'" "log_view l' = take (unat (log_size l) - 1) (ev # log_view l)"
    "log_tail_wait l' = sem_V (log_tail_wait l)"
    "ev = (trigger_event ns wo h ((EventCreate ts TRIGGER (Name_id ns))\<lparr>ev_cause_host := ch, ev_cause_seq_no := cs\<rparr>)
       ((wfs_head (wf_shared wo) + 1) mod wfs_history_size (wf_shared wo)) (wfs_seq_no (wf_shared wo)))\<lparr>ev_seq_no := log_seq_no l\<rparr>"
proof -
  let ?w = "wf_shared wo"
  obtain tw where tw: "sem_P (wfs_tail_wait ?w) = Ret tw" using assms(2) futex.down_pos by (auto simp: woof_idle_def)
  obtain m where m: "sem_P (wfs_mutex ?w) = Ret m" using assms(2) futex.down_pos by (auto simp: woof_idle_def)
  let ?wl = "?w\<lparr>wfs_tail_wait := tw, wfs_mutex := m\<rparr>" and ?ndx = "(wfs_head ?w + 1) mod wfs_history_size ?w"
  have "woof_wf ?wl" using assms(1) by simp
  then obtain w1 where w1: "appended ?wl e w1" and push: "woof_push tail_with_cause ?wl e = Ret (?ndx, wfs_seq_no ?w, w1)"
    using woof_push_appended[of ?wl e] assms(3,4) by auto
  define w' where "w' = w1\<lparr>wfs_mutex := sem_V (wfs_mutex w1), wfs_tail_wait := sem_V (wfs_tail_wait w1)\<rparr>"
  define ev where "ev = trigger_event ns wo h
      ((EventCreate ts TRIGGER (Name_id ns))\<lparr>ev_cause_host := ch, ev_cause_seq_no := cs\<rparr>) ?ndx (wfs_seq_no ?w)"
  have ev: "trigger_event ns (wo\<lparr>wf_shared := w1\<lparr>wfs_mutex := sem_V (wfs_mutex w1)\<rparr>\<rparr>) h
      ((EventCreate ts TRIGGER (Name_id ns))\<lparr>ev_cause_host := ch, ev_cause_seq_no := cs\<rparr>) ?ndx (wfs_seq_no ?w) = ev"
    using appendedD[OF w1] by (simp add: trigger_event_def ev_def)
  obtain l' where l': "LogEvent (Some l) ev = Ret (log_seq_no l, Some l')"
    "log_view l' = take (unat (log_size l) - 1) (ev\<lparr>ev_seq_no := log_seq_no l\<rparr> # log_view l)"
    "log_tail_wait l' = log_tail_wait l"
    using LogEvent_ok[OF assms(6,7)] by metis
  have "WooFAppendWithCause ts ns wo (Some h) e ch cs
      = Ret (wfs_seq_no ?w, wo\<lparr>wf_shared := w'\<rparr>, ns\<lparr>Name_log := Some (log_post l')\<rparr>)"
    using tw m push assms(5,8) l'(1) ev by (simp add: WooFAppendWithCause_def Let_def w'_def)
  moreover have "appended ?w e w'" unfolding w'_def using appended_release[OF w1 tw m] .
  moreover have "log_view (log_post l') = log_view l'" "log_tail_wait (log_post l') = sem_V (log_tail_wait l)"
    using l'(3) by (simp_all add: log_post_def log_view_def log_count_def)
  ultimately show ?thesis using that l'(2) unfolding ev_def by metis
qed

lemma append_ok:
  assumes wf: "woof_wf (wf_shared wo)" and idle: "woof_idle (wf_shared wo)"
    and el: "elsz (wf_shared wo) \<le> length e" and seq: "unat (wfs_seq_no (wf_shared wo)) < 2 ^ 64 - 1"
    and log: "hand = None \<or> log_ready ns"
  obtains w' ns' where "WooFAppendWithCause ts ns wo hand e ch cs = Ret (wfs_seq_no (wf_shared wo), wo\<lparr>wf_shared := w'\<rparr>, ns')"
    "appended (wf_shared wo) e w'" "hand = None \<Longrightarrow> ns' = ns"
proof (cases hand)
  case None
  let ?w = "wf_shared wo"
  obtain tw where tw: "sem_P (wfs_tail_wait ?w) = Ret tw" using idle futex.down_pos by (auto simp: woof_idle_def)
  obtain m where m: "sem_P (wfs_mutex ?w) = Ret m" using idle futex.down_pos by (auto simp: woof_idle_def)
  let ?wl = "?w\<lparr>wfs_tail_wait := tw, wfs_mutex := m\<rparr>"
  have "woof_wf ?wl" using wf by simp
  then obtain w1 where w1: "appended ?wl e w1" and
    push: "woof_push tail_with_cause ?wl e = Ret ((wfs_head ?w + 1) mod wfs_history_size ?w, wfs_seq_no ?w, w1)"
    using woof_push_appended[of ?wl e] el seq by auto
  define w' where "w' = w1\<lparr>wfs_mutex := sem_V (wfs_mutex w1), wfs_tail_wait := sem_V (wfs_tail_wait w1)\<rparr>"
  have "WooFAppendWithCause ts ns wo hand e ch cs = Ret (wfs_seq_no ?w, wo\<lparr>wf_shared := w'\<rparr>, ns)"
    using None tw m push by (simp add: WooFAppendWithCause_def Let_def w'_def)
  then show ?thesis using that appended_release[OF w1 tw m] unfolding w'_def by blast
next
  case (Some h)
  with log obtain l where "Name_log ns = Some l" "log_wf l" "0 < sem_val (log_mutex l)" "log_seq_no l \<noteq> 0"
    by (auto simp: log_ready_def split: option.splits)
  then show ?thesis using append_trigger[OF wf idle el seq, of ns l ts h ch cs] that Some by blast
qed

lemma appended_latest:
  assumes "appended w e w'" "unat (wfs_seq_no w) < 2 ^ 64 - 1" "woof_wf w"
  shows "latest w' = Suc (latest w)" "unat (wfs_seq_no w') = Suc (unat (wfs_seq_no w))"
proof -
  show "unat (wfs_seq_no w') = Suc (unat (wfs_seq_no w))"
    using appendedD(3)[OF assms(1)] assms(2) by (simp add: unat_word_ariths)
  then show "latest w' = Suc (latest w)" using assms(3) by (auto simp: latest_def woof_wf_def)
qed

lemma appended_idle: "appended w e w' \<Longrightarrow> woof_idle w' = woof_idle w"
  by (simp add: woof_idle_def appendedD)

text \<open>Appending a list of elements without handlers.\<close>

fun append_all :: "namespace_state \<Rightarrow> WOOF \<Rightarrow> bytes list \<Rightarrow> WOOF run" where
  "append_all ns wo [] = Ret wo"
| "append_all ns wo (e # es) =
     run_bind (WooFAppendWithCause (0, 0) ns wo None e 0 0) (\<lambda>(seq_no, wo', ns'). append_all ns' wo' es)"

lemma append_all_ok:
  assumes "woof_wf (wf_shared wo)" "woof_idle (wf_shared wo)"
    "\<forall>e\<in>set es. length e = elsz (wf_shared wo)" "unat (wfs_seq_no (wf_shared wo)) + length es < 2 ^ 64"
  shows "\<exists>w'. append_all ns wo es = Ret (wo\<lparr>wf_shared := w'\<rparr>) \<and> woof_wf w' \<and> woof_idle w'
    \<and> woof_view w' = take (hist (wf_shared wo)) (rev es @ woof_view (wf_shared wo))
    \<and> latest w' = latest (wf_shared wo) + length es \<and> wfs_history_size w' = wfs_history_size (wf_shared wo)
    \<and> wfs_element_size w' = wfs_element_size (wf_shared wo)"
  using assms
proof (induction es arbitrary: wo)
  case Nil
  then show ?case using woof_count_le[OF Nil(1)] by (intro exI[of _ "wf_shared wo"]) simp
next
  case (Cons e es)
  let ?w = "wf_shared wo"
  have seq: "unat (wfs_seq_no ?w) < 2 ^ 64 - 1" using Cons.prems(4) by simp
  obtain w1 where w1: "WooFAppendWithCause (0, 0) ns wo None e 0 0 = Ret (wfs_seq_no ?w, wo\<lparr>wf_shared := w1\<rparr>, ns)"
    "appended ?w e w1"
    using append_ok[OF Cons.prems(1,2) _ seq, of e None ns "(0, 0)" 0 0] Cons.prems(3) by auto
  note a = appendedD[OF w1(2)] appended_latest[OF w1(2) seq Cons.prems(1)]
  have "\<exists>w'. append_all ns (wo\<lparr>wf_shared := w1\<rparr>) es = Ret (wo\<lparr>wf_shared := w'\<rparr>) \<and> woof_wf w' \<and> woof_idle w'
    \<and> woof_view w' = take (hist w1) (rev es @ woof_view w1)
    \<and> latest w' = latest w1 + length es \<and> wfs_history_size w' = wfs_history_size w1
    \<and> wfs_element_size w' = wfs_element_size w1"
    using Cons.IH[of "wo\<lparr>wf_shared := w1\<rparr>"] Cons.prems a appended_idle[OF w1(2)] by simp
  then show ?case using w1 a Cons.prems(3) by (auto simp: take_append_take)
qed

lemma spec_read_history:
  "0 < s \<Longrightarrow> s \<le> length xs \<Longrightarrow> length xs < s + n \<Longrightarrow>
   spec_read (take n (rev xs)) (length xs) s = Some (xs ! (s - 1))"
  by (auto simp: spec_read_def rev_nth Let_def)

lemma spec_read_none:
  "length xs < s \<or> 0 < s \<and> s + n \<le> length xs \<Longrightarrow> spec_read (take n (rev xs)) (length xs) s = None"
  by (auto simp: spec_read_def Let_def)

section \<open>Properties\<close>

text \<open>C1: what is put is what is read. In a new WooF of \<open>hs\<close> slots, after any sequence of appends,
  element number \<open>s\<close> is returned as long as fewer than \<open>hs\<close> elements were appended after it, and
  every other sequence number is refused; no append blocks or touches memory outside the file.\<close>

theorem woof_put_get:
  assumes "woof_fits es hs" "unat hs < 2 ^ 31" "woof_layout v name es hs = Ret w"
    "\<forall>e\<in>set els. length e = unat es" "length els < 2 ^ 64 - 1"
  shows "\<exists>w'. append_all ns \<lparr>wf_shared = w, wf_ino = ino\<rparr> els = Ret \<lparr>wf_shared = w', wf_ino = ino\<rparr> \<and>
    (\<forall>s. if 0 < unat s \<and> unat s \<le> length els \<and> length els < unat s + unat hs
         then WooFReadWithCause w' s = Ret (1, Some (els ! (unat s - 1)), w')
         else s \<noteq> 0 \<longrightarrow> WooFReadWithCause w' s = Ret (- 1, None, w'))"
proof -
  have w: "woof_wf w" "woof_idle w" "woof_view w = []" "wfs_seq_no w = 1"
    "wfs_history_size w = hs" "wfs_element_size w = es"
    using woof_layout_ok[OF assms(1,2), of v name] assms(3) by auto
  then have "latest w = 0" by (simp add: latest_def)
  with w obtain w' where w': "append_all ns \<lparr>wf_shared = w, wf_ino = ino\<rparr> els = Ret \<lparr>wf_shared = w', wf_ino = ino\<rparr>"
    "woof_wf w'" "woof_idle w'" "woof_view w' = take (unat hs) (rev els)" "latest w' = length els"
    using append_all_ok[of "\<lparr>wf_shared = w, wf_ino = ino\<rparr>" els ns] assms(4,5) by auto
  have rd: "WooFReadWithCause w' s = Ret (case spec_read (take (unat hs) (rev els)) (length els) (unat s) of
      None \<Rightarrow> (- 1, None, w') | Some e \<Rightarrow> (1, Some e, w'))" for s
    using WooFRead_ok[OF w'(2)] w'(3-5) by (simp add: woof_idle_def)
  show ?thesis
    using w'(1) rd spec_read_history[of _ els "unat hs"] spec_read_none[of els _ "unat hs"]
    by (intro exI[of _ w']) (auto simp: unat_gt_0 not_less not_le)
qed

theorem woof_put_get_witness:
  "\<exists>w w'. woof_layout ''3.01'' ''log'' 2 2 = Ret w
    \<and> append_all \<lparr>WooF_namespace = ''/ns'', Name_id = 7, Name_log = None\<rparr> \<lparr>wf_shared = w, wf_ino = 0\<rparr>
        [[1, 2], [3, 4], [5, 6]] = Ret \<lparr>wf_shared = w', wf_ino = 0\<rparr>
    \<and> WooFReadWithCause w' 3 = Ret (1, Some [5, 6], w')
    \<and> WooFReadWithCause w' 2 = Ret (1, Some [3, 4], w')
    \<and> WooFReadWithCause w' 1 = Ret (- 1, None, w')"
proof -
  have f: "woof_fits 2 2" by (simp add: woof_fits_def)
  obtain w where w: "woof_layout ''3.01'' ''log'' 2 2 = Ret w"
    using woof_layout_ok[OF f, of "''3.01''" "''log''"] by auto
  show ?thesis
    using woof_put_get[OF f _ w, of "[[1, 2], [3, 4], [5, 6]]"
        "\<lparr>WooF_namespace = ''/ns'', Name_id = 7, Name_log = None\<rparr>" 0] w
    by (auto dest: spec[of _ 3] spec[of _ 2] spec[of _ 1])
qed

text \<open>C2: an append refines a bounded push. On a well-formed WooF whose semaphores are free, with
  or without a handler, \<open>WooFAppendWithCause\<close> returns the next sequence number, the retained
  elements become the new element in front of the old ones cut to the history size, the WooF stays
  well-formed, and both semaphores are back where they were.\<close>

theorem append_refines_push:
  assumes "woof_wf (wf_shared wo)" "woof_idle (wf_shared wo)" "elsz (wf_shared wo) \<le> length e"
    "unat (wfs_seq_no (wf_shared wo)) < 2 ^ 64 - 1" "hand = None \<or> log_ready ns"
  shows "\<exists>w' ns'. WooFAppendWithCause ts ns wo hand e ch cs = Ret (wfs_seq_no (wf_shared wo), wo\<lparr>wf_shared := w'\<rparr>, ns')
    \<and> woof_wf w' \<and> woof_view w' = take (hist (wf_shared wo)) (take (elsz (wf_shared wo)) e # woof_view (wf_shared wo))
    \<and> wfs_seq_no w' = wfs_seq_no (wf_shared wo) + 1
    \<and> wfs_mutex w' = wfs_mutex (wf_shared wo) \<and> wfs_tail_wait w' = wfs_tail_wait (wf_shared wo)"
proof -
  obtain w' ns' where a: "WooFAppendWithCause ts ns wo hand e ch cs = Ret (wfs_seq_no (wf_shared wo), wo\<lparr>wf_shared := w'\<rparr>, ns')"
    "appended (wf_shared wo) e w'"
    using append_ok[OF assms] by blast
  show ?thesis using a(1) appendedD[OF a(2)] by blast
qed

text \<open>A WooF of two slots of one byte that has wrapped: it holds the elements 2 and 3.\<close>

definition wrapped_woof :: WOOF_SHARED where
  "wrapped_woof = \<lparr>wfs_filename = ''w'', wfs_watermark = CSPOT_WATERMARK, wfs_version = ''3.01'',
     wfs_mutex = \<lparr>sema_value = 1\<rparr>, wfs_tail_wait = \<lparr>sema_value = 2\<rparr>, wfs_seq_no = 4, wfs_history_size = 2,
     wfs_head = 1, wfs_tail = 0, wfs_element_size = 1,
     wfs_buf = [20] @ le64 2 @ [30] @ le64 3 @ replicate 9 0\<rparr>"

lemma wrapped_woof_wf: "woof_wf wrapped_woof" "woof_idle wrapped_woof"
  by (simp_all add: woof_wf_def woof_idle_def woof_count_def wrapped_woof_def)

lemma wrapped_woof_view: "woof_view wrapped_woof = [[30], [20]]"
  by (simp add: woof_view_def woof_slots_def woof_count_def wrapped_woof_def newest_def behind_def slot_rd_def
      load_def upt_rec)

definition idle_ns :: namespace_state where
  "idle_ns = \<lparr>WooF_namespace = ''/ns'', Name_id = 7, Name_log = Some tail_example\<rparr>"

lemma idle_ns_ready: "log_ready idle_ns"
  by (simp add: log_ready_def idle_ns_def tail_example_def log_wf_def log_fits_def)

theorem append_refines_push_witness:
  "\<exists>w' ns'. WooFAppendWithCause (0, 0) idle_ns \<lparr>wf_shared = wrapped_woof, wf_ino = 5\<rparr> (Some ''h'') [40] 7 0
      = Ret (4, \<lparr>wf_shared = w', wf_ino = 5\<rparr>, ns')
    \<and> woof_wf w' \<and> woof_view w' = [[40], [30]]"
proof -
  let ?wo = "\<lparr>wf_shared = wrapped_woof, wf_ino = 5\<rparr>"
  have f: "elsz wrapped_woof = 1" "hist wrapped_woof = 2" "wfs_seq_no wrapped_woof = 4"
    by (simp_all add: wrapped_woof_def)
  show ?thesis
    using append_refines_push[of ?wo "[40]" "Some ''h''" idle_ns "(0, 0)" 7 0]
      wrapped_woof_wf wrapped_woof_view idle_ns_ready f by auto
qed

text \<open>C3: a read refines a lookup in the retained elements, on every branch: sequence number 0
  returns the newest element, a retained number its element, anything else \<open>- 1\<close> with the caller's
  buffer untouched; the WooF is unchanged.\<close>

theorem read_refines_lookup:
  assumes "woof_wf w" "0 < sem_val (wfs_mutex w)"
  shows "WooFReadWithCause w s = Ret (case spec_read (woof_view w) (unat (wfs_seq_no w) - 1) (unat s) of
           None \<Rightarrow> (- 1, None, w) | Some e \<Rightarrow> (1, Some e, w))"
  using WooFRead_ok[OF assms] by (simp add: latest_def)

theorem read_refines_lookup_witness:
  "WooFReadWithCause wrapped_woof 2 = Ret (1, Some [20], wrapped_woof)
   \<and> WooFReadWithCause wrapped_woof 0 = Ret (1, Some [30], wrapped_woof)
   \<and> WooFReadWithCause wrapped_woof 1 = Ret (- 1, None, wrapped_woof)"
proof -
  have m: "0 < sem_val (wfs_mutex wrapped_woof)" "wfs_seq_no wrapped_woof = 4" by (simp_all add: wrapped_woof_def)
  show ?thesis
    using read_refines_lookup[OF wrapped_woof_wf(1) m(1), of 2] read_refines_lookup[OF wrapped_woof_wf(1) m(1), of 0]
      read_refines_lookup[OF wrapped_woof_wf(1) m(1), of 1] m(2)
    by (simp add: wrapped_woof_view spec_read_def)
qed

text \<open>C11: an append with a handler logs exactly one trigger. The namespace log gets one new
  event, of type \<open>TRIGGER\<close>, with the handler's name, the slot and the sequence number of the
  element, and the log's dispatcher semaphore is posted once.\<close>

theorem append_logs_trigger:
  assumes "woof_wf (wf_shared wo)" "woof_idle (wf_shared wo)" "elsz (wf_shared wo) \<le> length e"
    "unat (wfs_seq_no (wf_shared wo)) < 2 ^ 64 - 1"
    "Name_log ns = Some l" "log_wf l" "0 < sem_val (log_mutex l)" "log_seq_no l \<noteq> 0"
  shows "\<exists>wo' l' ev. WooFAppendWithCause ts ns wo (Some h) e ch cs
      = Ret (wfs_seq_no (wf_shared wo), wo', ns\<lparr>Name_log := Some l'\<rparr>)
    \<and> log_view l' = take (unat (log_size l) - 1) (ev # log_view l)
    \<and> ev_type ev = Some TRIGGER \<and> ev_woofc_handler ev = take 128 h \<and> ev_seq_no ev = log_seq_no l
    \<and> ev_woofc_seq_no ev = wfs_seq_no (wf_shared wo) \<and> ev_cause_host ev = ch \<and> ev_cause_seq_no ev = cs
    \<and> ev_woofc_ndx ev = (wfs_head (wf_shared wo) + 1) mod wfs_history_size (wf_shared wo)
    \<and> log_tail_wait l' = sem_V (log_tail_wait l)"
proof -
  obtain w' l' ev where r: "WooFAppendWithCause ts ns wo (Some h) e ch cs
      = Ret (wfs_seq_no (wf_shared wo), wo\<lparr>wf_shared := w'\<rparr>, ns\<lparr>Name_log := Some l'\<rparr>)"
    "log_view l' = take (unat (log_size l) - 1) (ev # log_view l)" "log_tail_wait l' = sem_V (log_tail_wait l)"
    and ev: "ev = (trigger_event ns wo h ((EventCreate ts TRIGGER (Name_id ns))\<lparr>ev_cause_host := ch, ev_cause_seq_no := cs\<rparr>)
       ((wfs_head (wf_shared wo) + 1) mod wfs_history_size (wf_shared wo)) (wfs_seq_no (wf_shared wo)))\<lparr>ev_seq_no := log_seq_no l\<rparr>"
    by (rule append_trigger[OF assms])
  have "ev_type ev = Some TRIGGER" "ev_woofc_handler ev = take 128 h" "ev_seq_no ev = log_seq_no l"
    "ev_woofc_seq_no ev = wfs_seq_no (wf_shared wo)" "ev_cause_host ev = ch" "ev_cause_seq_no ev = cs"
    "ev_woofc_ndx ev = (wfs_head (wf_shared wo) + 1) mod wfs_history_size (wf_shared wo)"
    by (simp_all add: ev trigger_event_def EventCreate_def)
  then show ?thesis using r by blast
qed

theorem append_logs_trigger_witness:
  "\<exists>wo' l' ev. WooFAppendWithCause (0, 0) idle_ns \<lparr>wf_shared = wrapped_woof, wf_ino = 5\<rparr> (Some ''h'') [40] 7 0
      = Ret (4, wo', idle_ns\<lparr>Name_log := Some l'\<rparr>)
    \<and> log_view l' = [ev, zero_event\<lparr>ev_seq_no := 3\<rparr>] \<and> ev_woofc_handler ev = ''h'' \<and> ev_woofc_seq_no ev = 4"
proof -
  let ?wo = "\<lparr>wf_shared = wrapped_woof, wf_ino = 5\<rparr>"
  have f: "elsz wrapped_woof = 1" "wfs_seq_no wrapped_woof = 4" by (simp_all add: wrapped_woof_def)
  have l: "Name_log idle_ns = Some tail_example" "log_wf tail_example" "0 < sem_val (log_mutex tail_example)"
    "log_seq_no tail_example \<noteq> 0" "unat (log_size tail_example) = 3"
    by (simp_all add: idle_ns_def tail_example_def log_wf_def log_fits_def)
  show ?thesis
    using append_logs_trigger[of ?wo "[40]" idle_ns tail_example "(0, 0)" "''h''" 7 0] l f wrapped_woof_wf
    by (auto simp: tail_example_view)
qed


end
