(* ===== verification/Woof_Ops.thy ===== *)
theory Woof_Ops
  imports Woof
begin

text \<open>
  The operations on a mapped WooF beside the append with cause and the read: \<open>WooFAppend\<close>, the
  reading of the tail, truncation and renumbering (\<^verbatim>\<open>src/src/woofc.cpp\<close>), and what each does to
  the retained elements. Several of them do not keep the tail discipline that the read relies on;
  the theorems say exactly where.
\<close>

section \<open>The append without cause\<close>

text \<open>This append only advances a tail it meets.\<close>

definition tail_append :: "WOOF_SHARED \<Rightarrow> u64 \<Rightarrow> u64" where
  "tail_append w next =
     (if next = wfs_tail w then (wfs_tail w + 1) mod wfs_history_size w else wfs_tail w)"

text \<open>
  \<open>WooFAppend\<close>. The cause is the calling namespace and the sequence number \<open>my_log_seq_no\<close> that
  the environment variable \<open>WOOF_NAMELOG_SEQNO\<close> carries (0 without it). \<open>- 1\<close> is the error value.
\<close>

definition WooFAppend ::
  "int \<times> int \<Rightarrow> u64 \<Rightarrow> namespace_state \<Rightarrow> WOOF \<Rightarrow> string option \<Rightarrow> bytes \<Rightarrow> (u64 \<times> WOOF \<times> namespace_state) run" where
  "WooFAppend ts my_log_seq_no ns wo hand_name element =
     (let w = wf_shared wo in
      run_bind (sem_P (wfs_tail_wait w)) (\<lambda>tw.
      run_bind (sem_P (wfs_mutex w)) (\<lambda>m.
      run_bind (woof_push tail_append (w\<lparr>wfs_tail_wait := tw, wfs_mutex := m\<rparr>) element) (\<lambda>(ndx, seq_no, w1).
      let w2 = w1\<lparr>wfs_mutex := sem_V (wfs_mutex w1)\<rparr>; wo2 = wo\<lparr>wf_shared := w2\<rparr> in
      case hand_name of
        None \<Rightarrow> Ret (seq_no, wo2\<lparr>wf_shared := w2\<lparr>wfs_tail_wait := sem_V (wfs_tail_wait w2)\<rparr>\<rparr>, ns)
      | Some h \<Rightarrow>
          let ev = (EventCreate ts TRIGGER (Name_id ns))\<lparr>ev_cause_host := Name_id ns, ev_cause_seq_no := my_log_seq_no\<rparr> in
          run_bind (LogEvent (Name_log ns) (trigger_event ns wo2 h ev ndx seq_no)) (\<lambda>(ls, log).
          if ls = 0 then Ret (- 1, wo2, ns\<lparr>Name_log := log\<rparr>)
          else Ret (seq_no, wo2, ns\<lparr>Name_log := map_option log_post log\<rparr>))))))"

text \<open>
  The loop of \<open>WooFReadTail\<close>: the argument counts the elements still to copy. Stepping below slot
  0 sets the index to 0 again (lines 1291 to 1297), which is what the code does.
\<close>

fun read_tail_loop :: "WOOF_SHARED \<Rightarrow> nat \<Rightarrow> u64 \<Rightarrow> bytes list run" where
  "read_tail_loop w 0 ndx = Ret []"
| "read_tail_loop w (Suc k) ndx =
     run_bind (slot_read w ndx) (\<lambda>e.
       let wrapped = wfs_history_size w \<le> ndx - 1; ndx' = (if wrapped then 0 else ndx - 1) in
       if wrapped \<and> wfs_tail w = - 1 then Ret [e]
       else if ndx' = wfs_tail w then Ret [e]
       else run_bind (read_tail_loop w k ndx') (\<lambda>es. Ret (e # es)))"

definition WooFReadTail :: "WOOF_SHARED \<Rightarrow> 32 word \<Rightarrow> (int \<times> bytes list \<times> WOOF_SHARED) run" where
  "WooFReadTail w element_count =
     run_bind (sem_P (wfs_mutex w)) (\<lambda>m.
     let w1 = w\<lparr>wfs_mutex := m\<rparr> in
     run_bind (read_tail_loop w1 (nat (sint element_count)) (wfs_head w1)) (\<lambda>es.
     Ret (int (length es), es, w1\<lparr>wfs_mutex := sem_V (wfs_mutex w1)\<rparr>)))"

section \<open>Truncating and renumbering\<close>

definition WooFTruncate :: "WOOF_SHARED \<Rightarrow> u64 \<Rightarrow> (int \<times> WOOF_SHARED) run" where
  "WooFTruncate w0 seq_no =
     run_bind (sem_P (wfs_tail_wait w0)) (\<lambda>tw.
     run_bind (sem_P (wfs_mutex w0)) (\<lambda>m.
     let w = w0\<lparr>wfs_tail_wait := tw, wfs_mutex := m\<rparr>;
         release = (\<lambda>w. w\<lparr>wfs_mutex := sem_V (wfs_mutex w), wfs_tail_wait := sem_V (wfs_tail_wait w)\<rparr>) in
     if seq_no = 0 then Ret (1, release (w\<lparr>wfs_head := 0, wfs_tail := 0, wfs_seq_no := 1\<rparr>))
     else if wfs_history_size w = 0 then Fault
     else let earliest_seqno = (wfs_tail w + 1) mod wfs_history_size w in
       if seq_no < earliest_seqno then Ret (- 1, release w)
       else let latest_seqno = wfs_seq_no w - 1;
                trunc_head = (wfs_head w + wfs_history_size w - (latest_seqno - seq_no)) mod wfs_history_size w in
         Ret (1, release (w\<lparr>wfs_head := trunc_head, wfs_seq_no := seq_no + 1\<rparr>))))"

text \<open>The update of \<open>WooFSetSeqno\<close> on the mapping it opened.\<close>

definition set_seqno :: "WOOF_SHARED \<Rightarrow> u64 \<Rightarrow> int \<times> WOOF_SHARED" where
  "set_seqno w new_seqno =
     (if wfs_seq_no w \<le> new_seqno then (1, w\<lparr>wfs_seq_no := new_seqno\<rparr>) else (- 1, w))"

section \<open>The tail of a WooF\<close>

lemma head_le_count: "woof_wf w \<Longrightarrow> unat (wfs_head w) \<le> woof_count w"
  by (auto simp: woof_count_def woof_wf_def)

lemma woof_view_head:
  assumes "woof_wf w" "i < unat (wfs_head w)"
  shows "woof_view w ! i = fst (slot_rd (elsz w) (wfs_buf w) (unat (wfs_head w) - i))"
  using woof_view_nth[of i w] head_le_count[OF assms(1)] assms behind_eq[of "unat (wfs_head w)" "hist w" i]
  by (simp add: woof_wf_def)

lemma read_tail_loop_ok:
  assumes "woof_wf w" "j + k \<le> unat (wfs_head w)" "unat ndx = unat (wfs_head w) - j"
  shows "read_tail_loop w k ndx = Ret (take k (drop j (woof_view w)))"
  using assms(2,3)
proof (induction k arbitrary: j ndx)
  case (Suc k)
  let ?h = "unat (wfs_head w)" and ?e = "woof_view w ! j"
  have h: "?h < hist w" using assms(1) by (simp add: woof_wf_def)
  have rd: "slot_read w ndx = Ret ?e"
    using slot_read_eq[OF assms(1), of ndx] woof_view_head[OF assms(1), of j] Suc.prems h by simp
  have u: "unat (ndx - 1) = ?h - Suc j" using Suc.prems unat64_minus1[of ndx] by simp
  then have nw: "\<not> wfs_history_size w \<le> ndx - 1" using h by (simp add: word_le_nat_alt)
  have dr: "drop j (woof_view w) = ?e # drop (Suc j) (woof_view w)"
    using Suc.prems head_le_count[OF assms(1)] by (simp add: Cons_nth_drop_Suc)
  show ?case
  proof (cases "ndx - 1 = wfs_tail w")
    case True
    then have "unat (wfs_tail w) < ?h" using u Suc.prems by simp
    moreover from this have "wfs_tail w \<noteq> - 1" using index_not_minus1[OF assms(1)] h by auto
    ultimately have "unat (wfs_tail w) = 0" using assms(1) by (auto simp: woof_wf_def Suc_mod_eq split: if_splits)
    then have "k = 0" using True u Suc.prems by simp
    then show ?thesis using rd nw True dr by (simp add: Let_def)
  next
    case False
    then show ?thesis using rd nw dr Suc.IH[of "Suc j" "ndx - 1"] Suc.prems u by (simp add: Let_def)
  qed
qed simp

lemma read_tail_loop_mutex [simp]: "read_tail_loop (w\<lparr>wfs_mutex := m\<rparr>) k ndx = read_tail_loop w k ndx"
  by (induction k arbitrary: ndx) (simp_all add: Let_def cong: if_cong)

lemma WooFReadTail_eq:
  assumes "0 < sem_val (wfs_mutex w)" "read_tail_loop w (nat (sint k)) (wfs_head w) = Ret es"
  shows "WooFReadTail w k = Ret (int (length es), es, w)"
proof -
  obtain m where m: "sem_P (wfs_mutex w) = Ret m" using futex.down_pos[OF assms(1)] by blast
  then have "sem_V m = wfs_mutex w" by (rule futex.bracket)
  then show ?thesis using m assms(2) by (simp add: WooFReadTail_def Let_def)
qed

section \<open>Reads that find nothing\<close>

text \<open>An untouched tail marker with the head at slot 0 stands for an empty WooF.\<close>

lemma read_empty:
  assumes "wfs_tail w = - 1" "wfs_head w = 0" "0 < unat (wfs_seq_no w)" "0 < sem_val (wfs_mutex w)"
  shows "WooFReadWithCause w s = Ret (- 1, None, w)"
proof -
  obtain m where m: "sem_P (wfs_mutex w) = Ret m" using futex.down_pos[OF assms(4)] by blast
  then have out: "sem_V m = wfs_mutex w" by (rule futex.bracket)
  have e: "WooFGetEarliest w = wfs_seq_no w" using assms by (simp add: WooFGetEarliest_def)
  have u: "unat (wfs_seq_no w - 1) = unat (wfs_seq_no w) - 1" using assms(3) by (rule unat64_minus1)
  have lt: "l < wfs_seq_no w \<or> wfs_seq_no w - 1 < l" for l :: u64
    using u assms(3) by (simp add: word_less_nat_alt) linarith
  show ?thesis using m out e lt by (simp add: WooFReadWithCause_def Let_def)
qed

lemma woof_push_append_ok:
  assumes wf: "woof_wf w" and el: "elsz w \<le> length e"
  obtains w' where "woof_push tail_append w e = Ret ((wfs_head w + 1) mod wfs_history_size w, wfs_seq_no w, w')"
    "wfs_mutex w' = wfs_mutex w" "wfs_tail_wait w' = wfs_tail_wait w"
proof -
  let ?next = "(wfs_head w + 1) mod wfs_history_size w"
  have "wfs_history_size w \<noteq> 0" using woof_wf_hist[OF wf] by auto
  moreover have "unat ?next \<le> hist w" using woof_wf_hist[OF wf] by (simp add: unat_mod_distrib less_imp_le)
  ultimately show ?thesis
    using that slot_write_eq[OF wf _ el, of ?next] by (simp add: woof_push_def Let_def)
qed

lemma woof_push_append_wrap:
  assumes wf: "woof_wf w" and el: "elsz w \<le> length e" and t: "wfs_tail w = - 1"
    and h: "Suc (unat (wfs_head w)) = hist w" and seq: "unat (wfs_seq_no w) < 2 ^ 64 - 1"
  obtains w' where "woof_push tail_append w e = Ret (0, wfs_seq_no w, w')" "wfs_tail w' = - 1" "wfs_head w' = 0"
    "wfs_seq_no w' = wfs_seq_no w + 1" "wfs_mutex w' = wfs_mutex w" "wfs_tail_wait w' = wfs_tail_wait w"
proof -
  have "unat ((wfs_head w + 1) mod wfs_history_size w) = 0"
    using h unat64_next[of "wfs_head w" "wfs_history_size w"] by simp
  then have nx: "(wfs_head w + 1) mod wfs_history_size w = 0" by (simp add: unat_eq_0)
  have "wfs_history_size w \<noteq> 0" using woof_wf_hist[OF wf] by auto
  then show ?thesis
    using that slot_write_eq[OF wf _ el, of 0] nx t
    by (simp add: woof_push_def Let_def tail_append_def)
qed

section \<open>Truncation\<close>

lemma woof_idle_P:
  assumes "woof_idle w"
  obtains tw m where "sem_P (wfs_tail_wait w) = Ret tw" "sem_P (wfs_mutex w) = Ret m"
    "sem_V tw = wfs_tail_wait w" "sem_V m = wfs_mutex w"
  using assms futex.down_pos futex.bracket unfolding woof_idle_def by metis

lemma WooFTruncate_eq:
  assumes "woof_idle w" "wfs_history_size w \<noteq> 0" "s \<noteq> 0" "(wfs_tail w + 1) mod wfs_history_size w \<le> s"
  shows "WooFTruncate w s = Ret (1, w\<lparr>
      wfs_head := (wfs_head w + wfs_history_size w - (wfs_seq_no w - 1 - s)) mod wfs_history_size w,
      wfs_seq_no := s + 1\<rparr>)"
proof -
  obtain tw m where "sem_P (wfs_tail_wait w) = Ret tw" "sem_P (wfs_mutex w) = Ret m"
    "sem_V tw = wfs_tail_wait w" "sem_V m = wfs_mutex w"
    using woof_idle_P[OF assms(1)] .
  then show ?thesis using assms(2-4) by (simp add: WooFTruncate_def Let_def not_less)
qed

lemma trunc_head:
  assumes wf: "woof_wf w" and s: "unat s \<le> latest w" "latest w - unat s \<le> hist w"
  shows "unat ((wfs_head w + wfs_history_size w - (wfs_seq_no w - 1 - s)) mod wfs_history_size w)
         = behind (hist w) (unat (wfs_head w)) (latest w - unat s)"
proof -
  let ?h = "unat (wfs_head w)" and ?n = "hist w" and ?d = "latest w - unat s"
  have h: "?h < ?n" and n: "?n < 2 ^ 61" using wf hist_small by (auto simp: woof_wf_def)
  have d: "unat (wfs_seq_no w - 1 - s) = ?d" using unat64_sub[of s] s unat_latest[OF wf] by simp
  have a: "unat (wfs_head w + wfs_history_size w) = ?h + ?n" using h n by (simp add: unat64_add)
  have "unat (wfs_head w + wfs_history_size w - (wfs_seq_no w - 1 - s)) = ?h + ?n - ?d"
    using unat64_sub[of "wfs_seq_no w - 1 - s" "wfs_head w + wfs_history_size w"] a d s by simp
  then show ?thesis by (simp add: unat_mod_distrib behind_def)
qed

lemma newest_drop:
  assumes "h < n" "d + k \<le> h"
  shows "newest rd n (behind n h d) k = take k (drop d (newest rd n h h))"
  using assms by (intro nth_equalityI) (auto simp: behind_eq)

lemma WooFTruncate_ok:
  assumes "woof_wf w" "woof_idle w" "wfs_tail w = - 1" "0 < unat s" "unat s \<le> latest w"
    "latest w - unat s \<le> unat (wfs_head w)"
  shows "\<exists>w'. WooFTruncate w s = Ret (1, w') \<and> woof_wf w' \<and> latest w' = unat s
    \<and> woof_view w' = drop (latest w - unat s) (woof_view w) \<and> woof_idle w' \<and> hist w' = hist w"
proof -
  let ?h = "unat (wfs_head w)" and ?n = "hist w" and ?d = "latest w - unat s"
  define nh where "nh = (wfs_head w + wfs_history_size w - (wfs_seq_no w - 1 - s)) mod wfs_history_size w"
  define w' where "w' = w\<lparr>wfs_head := nh, wfs_seq_no := s + 1\<rparr>"
  have h: "?h < ?n" using assms(1) by (simp add: woof_wf_def)
  have nh: "unat nh = ?h - ?d"
    using trunc_head[OF assms(1,5)] assms(6) h by (simp add: nh_def behind_eq)
  have s1: "unat (s + 1) = Suc (unat s)"
    using assms(5) unat64_less[of "wfs_seq_no w"] unat64_plus1[of s "wfs_seq_no w"] assms(4) by (simp add: latest_def)
  have "s \<noteq> 0" "wfs_history_size w \<noteq> 0" using assms(4) h by auto
  then have eq: "WooFTruncate w s = Ret (1, w')"
    using WooFTruncate_eq[OF assms(2), of s] assms(3) by (simp add: w'_def nh_def)
  have c: "woof_count w = ?h" "woof_count w' = ?h - ?d" using assms(3) nh by (simp_all add: woof_count_def w'_def)
  have "?h - ?d \<le> unat s" using count_le_latest[OF assms(1)] c(1) assms(6) by simp
  then have "woof_wf w'" using assms(1,3) nh s1 c h by (simp add: woof_wf_def w'_def)
  moreover have "newest (slot_rd (elsz w) (wfs_buf w)) ?n (?h - ?d) (?h - ?d)
      = drop ?d (newest (slot_rd (elsz w) (wfs_buf w)) ?n ?h ?h)"
    using newest_drop[OF h, of ?d "?h - ?d"] assms(6) h by (simp add: behind_eq)
  then have "woof_view w' = drop ?d (woof_view w)"
    using c nh by (simp add: woof_view_def woof_slots_def w'_def drop_map)
  moreover have "woof_idle w'" using assms(2) by (simp add: woof_idle_def w'_def)
  ultimately show ?thesis using eq s1 by (auto simp: latest_def w'_def)
qed

section \<open>Properties\<close>

text \<open>C30: reading the tail is right as long as it does not step below slot 0: a request for at
  most \<open>head\<close> elements returns that many of the newest elements, newest first.\<close>

theorem ReadTail_newest:
  assumes "woof_wf w" "0 < sem_val (wfs_mutex w)" "0 \<le> sint k" "nat (sint k) \<le> unat (wfs_head w)"
  shows "WooFReadTail w k = Ret (sint k, take (nat (sint k)) (woof_view w), w)"
proof -
  let ?k = "nat (sint k)"
  have "read_tail_loop w ?k (wfs_head w) = Ret (take ?k (woof_view w))"
    using read_tail_loop_ok[OF assms(1), of 0 ?k "wfs_head w"] assms(4) by simp
  then show ?thesis
    using WooFReadTail_eq[OF assms(2)] assms(3,4) head_le_count[OF assms(1)] by simp
qed

theorem ReadTail_newest_witness:
  "WooFReadTail wrapped_woof 1 = Ret (1, [[30]], wrapped_woof)"
proof -
  have "0 < sem_val (wfs_mutex wrapped_woof)" "wfs_head wrapped_woof = 1" by (simp_all add: wrapped_woof_def)
  then show ?thesis
    using ReadTail_newest[OF wrapped_woof_wf(1), of 1] by (simp add: wrapped_woof_view)
qed

text \<open>Once the buffer has wrapped and the head is at slot 0, reading the tail returns the
  newest element again and again instead of the older ones.\<close>

theorem ReadTail_repeats_slot0:
  assumes "woof_wf w" "0 < sem_val (wfs_mutex w)" "wfs_head w = 0" "wfs_tail w = 1" "0 \<le> sint k"
  shows "WooFReadTail w k = Ret (sint k, replicate (nat (sint k)) (woof_view w ! 0), w)"
proof -
  have "1 < hist w" using assms(1,3,4) by (cases "hist w = 1") (auto simp: woof_wf_def)
  have c: "woof_count w = hist w" using assms(4) by (simp add: woof_count_def)
  then have "slot_read w 0 = Ret (woof_view w ! 0)"
    using slot_read_eq[OF assms(1), of 0] woof_view_nth[of 0 w] \<open>1 < hist w\<close> assms(3) by (simp add: behind_0)
  moreover have "wfs_history_size w \<le> 0 - 1" by (simp add: word_order.extremum)
  ultimately have "read_tail_loop w j 0 = Ret (replicate j (woof_view w ! 0))" for j
    using assms(4) by (induction j) (simp_all add: Let_def)
  then show ?thesis using WooFReadTail_eq[OF assms(2)] assms(3,5) by simp
qed

text \<open>The WooF of two slots after one more append: elements 3 and 4, the head back at slot 0.\<close>

definition rewrapped_woof :: WOOF_SHARED where
  "rewrapped_woof = wrapped_woof\<lparr>wfs_seq_no := 5, wfs_head := 0, wfs_tail := 1,
     wfs_buf := [40] @ le64 4 @ [30] @ le64 3 @ replicate 9 0\<rparr>"

lemma rewrapped_woof_wf: "woof_wf rewrapped_woof" "woof_idle rewrapped_woof"
  by (simp_all add: woof_wf_def woof_idle_def woof_count_def rewrapped_woof_def wrapped_woof_def)

lemma rewrapped_woof_view: "woof_view rewrapped_woof = [[40], [30]]"
  by (simp add: woof_view_def woof_slots_def woof_count_def rewrapped_woof_def wrapped_woof_def newest_def
      behind_def slot_rd_def load_def upt_rec)

theorem ReadTail_repeats_slot0_witness:
  "woof_view rewrapped_woof = [[40], [30]] \<and> WooFReadTail rewrapped_woof 2 = Ret (2, [[40], [40]], rewrapped_woof)"
proof -
  have f: "0 < sem_val (wfs_mutex rewrapped_woof)" "wfs_head rewrapped_woof = 0" "wfs_tail rewrapped_woof = 1"
    by (simp_all add: rewrapped_woof_def wrapped_woof_def)
  show ?thesis
    using ReadTail_repeats_slot0[OF rewrapped_woof_wf(1) f, of 2] by (simp add: rewrapped_woof_view numeral_2_eq_2)
qed

text \<open>Reading the tail of an empty WooF reports one element, the never written slot 0.\<close>

theorem ReadTail_empty_reports_one:
  assumes "woof_wf w" "0 < sem_val (wfs_mutex w)" "woof_view w = []" "0 < sint k"
  shows "\<exists>e. WooFReadTail w k = Ret (1, [e], w)"
proof -
  have c: "woof_count w = 0" using assms(3) length_woof_view[of w] by simp
  then have t: "wfs_tail w = - 1" and h: "wfs_head w = 0"
    using woof_wf_hist[OF assms(1)] by (auto simp: woof_count_def unat_eq_0 split: if_splits)
  have "wfs_history_size w \<le> 0 - 1" by (simp add: word_order.extremum)
  moreover obtain j where j: "nat (sint k) = Suc j" using assms(4) by (cases "nat (sint k)") auto
  ultimately have "\<exists>e. read_tail_loop w (nat (sint k)) (wfs_head w) = Ret [e]"
    using slot_read_eq[OF assms(1), of 0] t h by (simp add: Let_def)
  then show ?thesis using WooFReadTail_eq[OF assms(2)] by fastforce
qed

definition empty_woof :: WOOF_SHARED where
  "empty_woof = wrapped_woof\<lparr>wfs_seq_no := 1, wfs_head := 0, wfs_tail := - 1, wfs_buf := replicate 27 0\<rparr>"

lemma empty_woof_wf: "woof_wf empty_woof" "woof_idle empty_woof" "woof_view empty_woof = []"
  by (simp_all add: woof_wf_def woof_idle_def woof_count_def woof_view_def woof_slots_def empty_woof_def
      wrapped_woof_def newest_def)

theorem ReadTail_empty_reports_one_witness:
  "woof_view empty_woof = [] \<and> (\<exists>e. WooFReadTail empty_woof 1 = Ret (1, [e], empty_woof))"
proof -
  have "0 < sem_val (wfs_mutex empty_woof)" by (simp add: empty_woof_def wrapped_woof_def)
  then show ?thesis using ReadTail_empty_reports_one[OF empty_woof_wf(1), of 1] empty_woof_wf(3) by simp
qed

text \<open>C27: truncating a WooF that has not wrapped to a retained element \<open>s\<close> drops exactly the
  elements after \<open>s\<close>, keeps the WooF well-formed and continues the numbering at \<open>s + 1\<close>.\<close>

theorem Truncate_drops_newer:
  assumes "woof_wf w" "woof_idle w" "wfs_tail w = - 1" "0 < unat s" "unat s \<le> latest w"
    "latest w - unat s \<le> unat (wfs_head w)"
  shows "\<exists>w'. WooFTruncate w s = Ret (1, w') \<and> woof_wf w' \<and> latest w' = unat s
    \<and> woof_view w' = drop (latest w - unat s) (woof_view w)"
  using WooFTruncate_ok[OF assms] by blast

definition three_woof :: WOOF_SHARED where
  "three_woof = wrapped_woof\<lparr>wfs_history_size := 4, wfs_seq_no := 4, wfs_head := 3, wfs_tail := - 1,
     wfs_buf := replicate 9 0 @ [10] @ le64 1 @ [20] @ le64 2 @ [30] @ le64 3 @ replicate 9 0\<rparr>"

lemma three_woof_wf: "woof_wf three_woof" "woof_idle three_woof"
  by (simp_all add: woof_wf_def woof_idle_def woof_count_def three_woof_def wrapped_woof_def)

lemma three_woof_view: "woof_view three_woof = [[30], [20], [10]]"
  by (simp add: woof_view_def woof_slots_def woof_count_def three_woof_def wrapped_woof_def newest_def
      behind_def slot_rd_def load_def upt_rec)

theorem Truncate_drops_newer_witness:
  "\<exists>w'. WooFTruncate three_woof 2 = Ret (1, w') \<and> woof_view w' = [[20], [10]]"
proof -
  have "wfs_tail three_woof = - 1" "latest three_woof = 3" "wfs_head three_woof = 3"
    by (simp_all add: three_woof_def wrapped_woof_def latest_def)
  then show ?thesis
    using Truncate_drops_newer[OF three_woof_wf, of 2] by (auto simp: three_woof_view)
qed

text \<open>C38: after a wrap, truncation mixes elements up. The tail stays behind, so that a later read
  of number \<open>s - i\<close> returns what was number \<open>latest - i\<close> before, shifted by the distance truncated.\<close>

theorem Truncate_wrapped_shifts:
  assumes "woof_wf w" "woof_idle w" "wfs_tail w \<noteq> - 1" "unat s \<le> latest w" "latest w - unat s \<le> hist w"
    "hist w \<le> unat s" "(wfs_tail w + 1) mod wfs_history_size w \<le> s"
  shows "\<exists>w'. WooFTruncate w s = Ret (1, w')
    \<and> (\<forall>i < hist w. WooFReadWithCause w' (s - of_nat i) = Ret (1, Some (woof_view w ! i), w'))"
proof -
  define nh where "nh = (wfs_head w + wfs_history_size w - (wfs_seq_no w - 1 - s)) mod wfs_history_size w"
  let ?t = "w\<lparr>wfs_head := nh, wfs_seq_no := s + 1\<rparr>" and ?v = "w\<lparr>wfs_seq_no := s + 1\<rparr>"
  have n: "0 < hist w" using woof_wf_hist assms(1) .
  then have nz: "s \<noteq> 0" "wfs_history_size w \<noteq> 0" using assms(6) by auto
  have eq: "WooFTruncate w s = Ret (1, ?t)"
    using WooFTruncate_eq[OF assms(2) nz(2,1) assms(7)] by (simp add: nh_def)
  have "0 < unat (wfs_seq_no w)" using assms(1) by (simp add: woof_wf_def)
  then have s1: "unat (s + 1) = Suc (unat s)"
    using assms(4) unat64_plus1[of s "wfs_seq_no w"] by (simp add: latest_def)
  have v: "woof_wf ?v" "woof_view ?v = woof_view w" "latest ?v = unat s" "woof_count ?v = hist w"
    using assms(1,3,6) s1 by (auto simp: woof_wf_def woof_count_def woof_view_def woof_slots_def latest_def)
  have m: "0 < sem_val (wfs_mutex ?v)" using assms(2) by (simp add: woof_idle_def)
  obtain m' where m': "sem_P (wfs_mutex w) = Ret m'" using futex.down_pos m by auto
  have same: "WooFReadWithCause ?v q = Ret (1, Some e, ?v) \<Longrightarrow> WooFReadWithCause ?t q = Ret (1, Some e, ?t)" for q e
    using m' futex.bracket[OF m'] assms(3)
    by (auto simp: WooFReadWithCause_def WooFGetEarliest_def slot_read_def Let_def run_simps split: if_splits)
  have "WooFReadWithCause ?v (s - of_nat i) = Ret (1, Some (woof_view w ! i), ?v)" if i: "i < hist w" for i
  proof -
    have "unat (of_nat i :: u64) = i" using i unat64_less[of "wfs_history_size w"] by (simp add: unat_of_nat)
    then have u: "unat (s - of_nat i) = unat s - i" using unat64_sub[of "of_nat i" s] i assms(6) by simp
    have "spec_read (woof_view w) (unat s) (unat s - i) = Some (woof_view w ! i)"
      using i assms(6) v(4) length_woof_view[of ?v] v(2) by (auto simp: spec_read_def Let_def)
    then show ?thesis using WooFRead_ok[OF v(1) m, of "s - of_nat i"] v(2,3) u by simp
  qed
  then show ?thesis using eq same by blast
qed

theorem Truncate_wrapped_shifts_witness:
  "WooFReadWithCause rewrapped_woof 3 = Ret (1, Some [30], rewrapped_woof)
   \<and> (\<exists>w'. WooFTruncate rewrapped_woof 3 = Ret (1, w') \<and> WooFReadWithCause w' 3 = Ret (1, Some [40], w'))"
proof -
  have f: "wfs_tail rewrapped_woof = 1" "latest rewrapped_woof = 4" "hist rewrapped_woof = 2"
    "wfs_history_size rewrapped_woof = 2" "0 < sem_val (wfs_mutex rewrapped_woof)"
    by (simp_all add: rewrapped_woof_def wrapped_woof_def latest_def)
  have "WooFReadWithCause rewrapped_woof 3 = Ret (1, Some [30], rewrapped_woof)"
    using WooFRead_ok[OF rewrapped_woof_wf(1) f(5), of 3] f(2) by (simp add: rewrapped_woof_view spec_read_def)
  moreover have "\<exists>w'. WooFTruncate rewrapped_woof 3 = Ret (1, w')
      \<and> (\<forall>i < 2. WooFReadWithCause w' (3 - of_nat i) = Ret (1, Some (woof_view rewrapped_woof ! i), w'))"
    using Truncate_wrapped_shifts[OF rewrapped_woof_wf, of 3] f by simp
  ultimately show ?thesis by (auto simp: rewrapped_woof_view dest: spec[of _ 0])
qed

text \<open>C28: \<open>WooFAppend\<close> never starts the tail. The append that wraps the buffer leaves a WooF in
  which no element at all can be read.\<close>

theorem WooFAppend_wrap_unreadable:
  assumes "woof_wf (wf_shared wo)" "woof_idle (wf_shared wo)" "elsz (wf_shared wo) \<le> length e"
    "wfs_tail (wf_shared wo) = - 1" "Suc (unat (wfs_head (wf_shared wo))) = hist (wf_shared wo)"
    "unat (wfs_seq_no (wf_shared wo)) < 2 ^ 64 - 1"
  shows "\<exists>w'. WooFAppend ts cs ns wo None e = Ret (wfs_seq_no (wf_shared wo), wo\<lparr>wf_shared := w'\<rparr>, ns)
    \<and> (\<forall>s. WooFReadWithCause w' s = Ret (- 1, None, w'))"
proof -
  let ?w = "wf_shared wo"
  obtain tw m where P: "sem_P (wfs_tail_wait ?w) = Ret tw" "sem_P (wfs_mutex ?w) = Ret m"
    "sem_V tw = wfs_tail_wait ?w" "sem_V m = wfs_mutex ?w"
    using woof_idle_P[OF assms(2)] .
  let ?wl = "?w\<lparr>wfs_tail_wait := tw, wfs_mutex := m\<rparr>"
  obtain w1 where w1: "woof_push tail_append ?wl e = Ret (0, wfs_seq_no ?w, w1)" "wfs_tail w1 = - 1" "wfs_head w1 = 0"
    "wfs_seq_no w1 = wfs_seq_no ?w + 1" "wfs_mutex w1 = m" "wfs_tail_wait w1 = tw"
    using woof_push_append_wrap[of ?wl e] assms(1,3-6) by auto
  define w' where "w' = w1\<lparr>wfs_mutex := sem_V m, wfs_tail_wait := sem_V tw\<rparr>"
  have "WooFAppend ts cs ns wo None e = Ret (wfs_seq_no ?w, wo\<lparr>wf_shared := w'\<rparr>, ns)"
    using P w1 by (simp add: WooFAppend_def Let_def w'_def)
  moreover have "0 < unat (wfs_seq_no w')" using w1(4) assms(6) by (simp add: w'_def unat_word_ariths)
  then have "WooFReadWithCause w' s = Ret (- 1, None, w')" for s
    using read_empty[of w' s] w1 P assms(2) by (simp add: w'_def woof_idle_def)
  ultimately show ?thesis by blast
qed

definition one_woof :: WOOF_SHARED where
  "one_woof = wrapped_woof\<lparr>wfs_seq_no := 2, wfs_head := 1, wfs_tail := - 1,
     wfs_buf := replicate 9 0 @ [10] @ le64 1 @ replicate 9 0\<rparr>"

lemma one_woof_wf: "woof_wf one_woof" "woof_idle one_woof"
  by (simp_all add: woof_wf_def woof_idle_def woof_count_def one_woof_def wrapped_woof_def)

theorem WooFAppend_wrap_unreadable_witness:
  "\<exists>w'. WooFAppend (0, 0) 0 idle_ns \<lparr>wf_shared = one_woof, wf_ino = 5\<rparr> None [20]
      = Ret (2, \<lparr>wf_shared = w', wf_ino = 5\<rparr>, idle_ns) \<and> WooFReadWithCause w' 2 = Ret (- 1, None, w')"
proof -
  let ?wo = "\<lparr>wf_shared = one_woof, wf_ino = 5\<rparr>"
  have f: "elsz one_woof = 1" "wfs_tail one_woof = - 1" "wfs_head one_woof = 1" "hist one_woof = 2" "wfs_seq_no one_woof = 2"
    by (simp_all add: one_woof_def wrapped_woof_def)
  show ?thesis
    using WooFAppend_wrap_unreadable[of ?wo "[20]" "(0, 0)" 0 idle_ns] f one_woof_wf by auto
qed

text \<open>C29: with a handler \<open>WooFAppend\<close> keeps the unit it took from the WooF's own semaphore: each
  such append leaves one unit less, so that \<open>history_size\<close> of them exhaust the WooF.\<close>

theorem WooFAppend_handler_keeps_unit:
  assumes "woof_wf (wf_shared wo)" "woof_idle (wf_shared wo)" "elsz (wf_shared wo) \<le> length e" "log_ready ns"
  shows "\<exists>wo' ns'. WooFAppend ts cs ns wo (Some h) e = Ret (wfs_seq_no (wf_shared wo), wo', ns')
    \<and> sem_val (wfs_tail_wait (wf_shared wo')) = sem_val (wfs_tail_wait (wf_shared wo)) - 1"
proof -
  let ?w = "wf_shared wo"
  obtain tw m where P: "sem_P (wfs_tail_wait ?w) = Ret tw" "sem_P (wfs_mutex ?w) = Ret m"
    using woof_idle_P[OF assms(2)] .
  let ?wl = "?w\<lparr>wfs_tail_wait := tw, wfs_mutex := m\<rparr>" and ?ndx = "(wfs_head ?w + 1) mod wfs_history_size ?w"
  obtain w1 where w1: "woof_push tail_append ?wl e = Ret (?ndx, wfs_seq_no ?w, w1)" "wfs_tail_wait w1 = tw"
    using woof_push_append_ok[of ?wl e] assms(1,3) by auto
  obtain l where l: "Name_log ns = Some l" "log_wf l" "0 < sem_val (log_mutex l)" "log_seq_no l \<noteq> 0"
    using assms(4) by (auto simp: log_ready_def split: option.splits)
  let ?wo = "wo\<lparr>wf_shared := w1\<lparr>wfs_mutex := sem_V (wfs_mutex w1)\<rparr>\<rparr>"
  let ?ev = "trigger_event ns ?wo h
      ((EventCreate ts TRIGGER (Name_id ns))\<lparr>ev_cause_host := Name_id ns, ev_cause_seq_no := cs\<rparr>) ?ndx (wfs_seq_no ?w)"
  obtain l' where "LogEvent (Some l) ?ev = Ret (log_seq_no l, Some l')" using LogEvent_ok[OF l(2,3)] by metis
  then have "WooFAppend ts cs ns wo (Some h) e = Ret (wfs_seq_no ?w, ?wo, ns\<lparr>Name_log := Some (log_post l')\<rparr>)"
    using P w1 l(1,4) by (simp add: WooFAppend_def Let_def)
  moreover have "sem_val tw = sem_val (wfs_tail_wait ?w) - 1" using P(1) by (simp add: futex.down_Ret_iff)
  ultimately show ?thesis using w1(2) by auto
qed

theorem WooFAppend_handler_keeps_unit_witness:
  "\<exists>wo' ns'. WooFAppend (0, 0) 0 idle_ns \<lparr>wf_shared = one_woof, wf_ino = 5\<rparr> (Some ''h'') [20] = Ret (2, wo', ns')
    \<and> sem_val (wfs_tail_wait one_woof) = 2 \<and> sem_val (wfs_tail_wait (wf_shared wo')) = 1"
proof -
  let ?wo = "\<lparr>wf_shared = one_woof, wf_ino = 5\<rparr>"
  have f: "elsz one_woof = 1" "wfs_seq_no one_woof = 2" "sem_val (wfs_tail_wait one_woof) = 2"
    by (simp_all add: one_woof_def wrapped_woof_def)
  show ?thesis
    using WooFAppend_handler_keeps_unit[of ?wo "[20]" idle_ns "(0, 0)" 0 "''h''"] f one_woof_wf idle_ns_ready by auto
qed

text \<open>Raising the sequence number keeps the retained elements and renumbers them: the newest
  element gets the number before the new one; a smaller number is refused and changes nothing.\<close>

theorem set_seqno_renumbers:
  assumes "woof_wf w"
  shows "\<exists>r w'. set_seqno w n = (r, w') \<and> woof_wf w' \<and> woof_view w' = woof_view w
    \<and> (if wfs_seq_no w \<le> n then r = 1 \<and> latest w' = unat n - 1 else r = - 1 \<and> w' = w)"
  using assms
  by (auto simp: set_seqno_def woof_wf_def woof_view_def woof_slots_def woof_count_def latest_def word_le_nat_alt)

theorem set_seqno_renumbers_witness:
  "\<exists>w'. set_seqno wrapped_woof 9 = (1, w') \<and> woof_wf w' \<and> woof_view w' = [[30], [20]] \<and> latest w' = 8"
proof -
  have "wfs_seq_no wrapped_woof \<le> 9" by (simp add: wrapped_woof_def)
  then show ?thesis using set_seqno_renumbers[OF wrapped_woof_wf(1), of 9] by (auto simp: wrapped_woof_view)
qed

end
