(* ===== verification/Dispatch.thy ===== *)
theory Dispatch
  imports Woof
begin

text \<open>
  The dispatcher of a namespace: the part of \<open>WooFForker\<close> (\<^verbatim>\<open>src/src/woofc-container.cpp\<close>) that
  finds the next trigger in the event log and claims it. Several forker threads share the log and
  the cache of triggers that were seen and not yet claimed. Appenders log triggers and post the
  semaphore \<open>tail_wait\<close>; the theorems are about every interleaving of both.
\<close>

section \<open>The cache of unclaimed triggers\<close>

text \<open>
  \<open>TCache\<close> is a red-black tree with 64-bit signed keys; here it is the list of its nodes in the
  order of the keys. A node maps the sequence number of a trigger to its slot in the log.
\<close>

type_synonym tcache = "(u64 \<times> u64) list"

definition tcache_insert :: "u64 \<Rightarrow> u64 \<Rightarrow> tcache \<Rightarrow> tcache" where
  "tcache_insert seq_no ndx cache = insort_key (\<lambda>n. sint (fst n)) (seq_no, ndx) cache"

section \<open>Scanning the log\<close>

text \<open>
  The body of the scan for the event \<open>e\<close> in slot \<open>cur\<close>: the causes of the firings seen so far, the
  slot of the earliest unclaimed trigger so far and the cache.
\<close>

type_synonym scan_state = "u64 list \<times> u64 \<times> tcache"

fun scan_visit :: "EVENT \<times> u64 \<Rightarrow> scan_state \<Rightarrow> scan_state" where
  "scan_visit (e, cur) (ev_list, earliest, cache) =
     (if ev_type e = Some TRIGGER_FIRING then (ev_cause_seq_no e # ev_list, earliest, cache)
      else if ev_type e = Some TRIGGER then
        if ev_seq_no e \<in> set ev_list then (ev_list, earliest, cache)
        else (ev_list, cur, if map_of cache (ev_seq_no e) = None
                             then tcache_insert (ev_seq_no e) cur cache else cache)
      else (ev_list, earliest, cache))"

text \<open>The slot before \<open>cur\<close>; the code tests for the wrap on the low 32 bits.\<close>

definition scan_prev :: "LOG \<Rightarrow> u64 \<Rightarrow> u64" where
  "scan_prev log cur = (let c = cur - 1 in if sint (ucast c :: u32) < 0 then log_size log - 1 else c)"

text \<open>
  The loop. A scan that passes more slots than the log has never meets the tail; it is out of
  fuel and spins.
\<close>

fun forker_scan :: "nat \<Rightarrow> LOG \<Rightarrow> u64 \<Rightarrow> scan_state \<Rightarrow> scan_state run" where
  "forker_scan 0 log cur st = (if cur = log_tail log then Ret st else Blocked)"
| "forker_scan (Suc fuel) log cur st =
     (if cur = log_tail log then Ret st
      else run_bind (ev_at log cur) (\<lambda>e.
        let st' = scan_visit (e, cur) st; cur' = scan_prev log cur in
        if cur' = log_last_checked log then Ret st' else forker_scan fuel log cur' st'))"

section \<open>Claiming a trigger\<close>

text \<open>
  One round of a forker that was woken up, from \<open>P(&Name_log->mutex)\<close> to \<open>V(&Name_log->mutex)\<close>. The
  first result is the slot of the claimed trigger, \<open>None\<close> when the round found nothing. Taking the
  slot \<open>- 1\<close> from the cache would make the code use an uninitialised variable.
\<close>

definition forker_pick :: "LOG \<Rightarrow> tcache \<Rightarrow> (u64 \<times> tcache) run" where
  "forker_pick log cache =
     (case cache of
        n # ns \<Rightarrow> if snd n = - 1 then Fault else Ret (snd n, cache)
      | [] \<Rightarrow> run_bind (forker_scan (unat (log_size log)) log (log_head log) ([], - 1, cache))
               (\<lambda>(ev_list, earliest, cache'). Ret (earliest, cache')))"

definition firing_event :: "int \<times> int \<Rightarrow> namespace_state \<Rightarrow> u64 \<Rightarrow> EVENT" where
  "firing_event ts ns earliest = (EventCreate ts TRIGGER_FIRING (Name_id ns))\<lparr>
     ev_cause_host := Name_id ns, ev_cause_seq_no := earliest,
     ev_woofc_namespace := take 1024 (WooF_namespace ns)\<rparr>"

definition forker_claim ::
  "int \<times> int \<Rightarrow> namespace_state \<Rightarrow> LOG \<Rightarrow> tcache \<Rightarrow> (u64 option \<times> LOG \<times> tcache) run" where
  "forker_claim ts ns log0 cache0 =
     run_bind (sem_P (log_mutex log0)) (\<lambda>m.
     let log = log0\<lparr>log_mutex := m\<rparr> in
     run_bind (forker_pick log cache0) (\<lambda>(earliest, cache1).
     let cache = tl cache1 in
     if earliest = - 1 then
       Ret (None, log\<lparr>log_last_checked := log_head log, log_mutex := sem_V (log_mutex log)\<rparr>, cache)
     else run_bind (LogEventNoLock (Some log) (firing_event ts ns earliest)) (\<lambda>(ls, log1).
       case log1 of
         None \<Rightarrow> Fault
       | Some l \<Rightarrow> if ls = 0 then Fault
           else Ret (Some earliest, l\<lparr>log_last_checked := earliest, log_mutex := sem_V (log_mutex l)\<rparr>, cache))))"

section \<open>Appenders and forkers\<close>

text \<open>
  The shared log and cache, the number of appenders that have logged a trigger and not yet posted
  \<open>tail_wait\<close>, and the number of forkers that were woken up and have not yet taken the mutex.
\<close>

record dispatcher =
  ds_log :: LOG
  ds_cache :: tcache
  ds_posting :: nat
  ds_awake :: nat

datatype dispatch_label = Logged EVENT | Posted | Woken | Claimed EVENT | Idle

inductive dispatch_step :: "namespace_state \<Rightarrow> dispatcher \<Rightarrow> dispatch_label \<Rightarrow> dispatcher \<Rightarrow> bool" for ns where
  log_trigger: "ev_type e = Some TRIGGER \<Longrightarrow> LogEvent (Some (ds_log s)) e = Ret (ls, Some l) \<Longrightarrow>
    dispatch_step ns s (Logged (e\<lparr>ev_seq_no := ls\<rparr>)) (s\<lparr>ds_log := l, ds_posting := Suc (ds_posting s)\<rparr>)"
| post: "ds_posting s = Suc n \<Longrightarrow>
    dispatch_step ns s Posted (s\<lparr>ds_log := log_post (ds_log s), ds_posting := n\<rparr>)"
| wake: "sem_P (log_tail_wait (ds_log s)) = Ret t \<Longrightarrow>
    dispatch_step ns s Woken (s\<lparr>ds_log := (ds_log s)\<lparr>log_tail_wait := t\<rparr>, ds_awake := Suc (ds_awake s)\<rparr>)"
| claim: "ds_awake s = Suc n \<Longrightarrow> forker_claim ts ns (ds_log s) (ds_cache s) = Ret (Some i, l, c) \<Longrightarrow>
    ev_at (ds_log s) i = Ret e \<Longrightarrow>
    dispatch_step ns s (Claimed e) (s\<lparr>ds_log := l, ds_cache := c, ds_awake := n\<rparr>)"
| idle: "ds_awake s = Suc n \<Longrightarrow> forker_claim ts ns (ds_log s) (ds_cache s) = Ret (None, l, c) \<Longrightarrow>
    dispatch_step ns s Idle (s\<lparr>ds_log := l, ds_cache := c, ds_awake := n\<rparr>)"

inductive dispatch_run :: "namespace_state \<Rightarrow> dispatcher \<Rightarrow> dispatch_label list \<Rightarrow> dispatcher \<Rightarrow> bool" for ns s0 where
  start: "dispatch_run ns s0 [] s0"
| step: "dispatch_run ns s0 tr s \<Longrightarrow> dispatch_step ns s x s' \<Longrightarrow> dispatch_run ns s0 (tr @ [x]) s'"

definition new_dispatcher :: "LOG \<Rightarrow> dispatcher" where
  "new_dispatcher log = \<lparr>ds_log = log, ds_cache = [], ds_posting = 0, ds_awake = 0\<rparr>"

text \<open>The triggers logged and the triggers claimed in a run, in order.\<close>

fun logged :: "dispatch_label list \<Rightarrow> EVENT list" where
  "logged [] = []"
| "logged (Logged e # tr) = e # logged tr"
| "logged (_ # tr) = logged tr"

fun claimed :: "dispatch_label list \<Rightarrow> EVENT list" where
  "claimed [] = []"
| "claimed (Claimed e # tr) = e # claimed tr"
| "claimed (_ # tr) = claimed tr"

definition backlog :: "dispatch_label list \<Rightarrow> nat" where
  "backlog tr = length (logged tr) - length (claimed tr)"

section \<open>What a scan finds\<close>

lemma scan_prev_eq:
  assumes "unat cur < unat (log_size log)" "unat (log_size log) < 2 ^ 31"
  shows "scan_prev log cur = log_prev log cur"
proof (cases "cur = 0")
  case True
  have "sint (ucast (- 1 :: u64) :: u32) < 0" by code_simp
  then show ?thesis using True by (simp add: scan_prev_def log_prev_def Let_def word_order.extremum del: signed_ucast_eq)
next
  case False
  then have u: "unat (cur - 1) = unat cur - 1" by (simp add: unat_minus_one)
  then have "unat (cur - 1) < 2 ^ 31" using assms by linarith
  then have "0 \<le> sint (ucast (cur - 1) :: u32)" by (simp only: sint_ucast_small)
  moreover have "\<not> log_size log \<le> cur - 1" using u assms by (auto simp: word_le_nat_alt)
  ultimately show ?thesis by (simp add: scan_prev_def log_prev_def Let_def)
qed

text \<open>The entries of the log with their slots, newest first.\<close>

definition log_slot :: "LOG \<Rightarrow> nat \<Rightarrow> u64" where
  "log_slot log i = of_nat (behind (unat (log_size log)) (unat (log_head log)) i)"

lemma unat_log_slot: "log_wf log \<Longrightarrow> unat (log_slot log i) = behind (unat (log_size log)) (unat (log_head log)) i"
  using behind_less[OF log_wf_size, of log "unat (log_head log)" i] unat64_less[of "log_size log"]
  by (simp add: log_slot_def unat_of_nat take_bit_nat_eq_self)

lemma forker_scan_fold:
  assumes "log_wf log" "unat (log_size log) < 2 ^ 31" "i < m" "m \<le> log_count log" "m - i \<le> fuel"
    "m < log_count log \<Longrightarrow> log_slot log m = log_last_checked log"
    "\<And>j. i < j \<Longrightarrow> j < m \<Longrightarrow> log_slot log j \<noteq> log_last_checked log"
  shows "forker_scan fuel log (log_slot log i) st
    = Ret (fold scan_visit (map (\<lambda>j. (log_view log ! j, log_slot log j)) [i..<m]) st)"
  using assms
proof (induction fuel arbitrary: i st)
  case 0
  then show ?case by simp
next
  case (Suc fuel)
  let ?cur = "log_slot log i" and ?e = "log_view log ! i"
  have cur: "unat ?cur = behind (unat (log_size log)) (unat (log_head log)) i" using unat_log_slot Suc.prems(1) .
  have i: "i < log_count log" using Suc.prems(3,4) by simp
  have at: "ev_at log ?cur = Ret ?e" using ev_at_behind[OF Suc.prems(1) i cur] .
  have b: "unat ?cur < unat (log_size log)" using cur behind_less[OF log_wf_size[OF Suc.prems(1)]] by simp
  note sb = step_back[OF Suc.prems(1) i cur]
  have prev: "scan_prev log ?cur = log_slot log (Suc i)"
    using scan_prev_eq[OF b Suc.prems(2)] sb(2) unat_log_slot[OF Suc.prems(1), of "Suc i"] by (simp add: word_unat_eq_iff)
  have tail: "log_slot log j = log_tail log \<longleftrightarrow> j = log_count log" if "j < unat (log_size log)" for j
    using behind_span[of "unat (log_head log)" "unat (log_size log)" "unat (log_tail log)" j] that Suc.prems(1)
    by (simp add: word_unat_eq_iff unat_log_slot log_wf_def log_count_def)
  have nt: "?cur \<noteq> log_tail log" using tail[of i] i log_count_less[OF Suc.prems(1)] by simp
  let ?st = "scan_visit (?e, ?cur) st"
  have step: "forker_scan (Suc fuel) log ?cur st
     = (if log_slot log (Suc i) = log_last_checked log then Ret ?st else forker_scan fuel log (log_slot log (Suc i)) ?st)"
    using nt at prev by (simp add: Let_def)
  show ?case
  proof (cases "Suc i = m")
    case True
    have "forker_scan fuel log (log_slot log (Suc i)) ?st = Ret ?st" if "log_slot log (Suc i) \<noteq> log_last_checked log"
    proof -
      have "m = log_count log" using that True Suc.prems(4,6) by fastforce
      then have "log_slot log (Suc i) = log_tail log" using tail[of "Suc i"] True log_count_less[OF Suc.prems(1)] by simp
      then show ?thesis by (cases fuel) simp_all
    qed
    then show ?thesis using step True by (simp add: upt_conv_Cons[of i m])
  next
    case False
    then have lt: "Suc i < m" using Suc.prems(3) by simp
    then have "log_slot log (Suc i) \<noteq> log_last_checked log" using Suc.prems(7) by simp
    then have "forker_scan (Suc fuel) log ?cur st = forker_scan fuel log (log_slot log (Suc i)) ?st" using step by simp
    also have "\<dots> = Ret (fold scan_visit (map (\<lambda>j. (log_view log ! j, log_slot log j)) [Suc i..<m]) ?st)"
      using Suc.IH[OF Suc.prems(1,2) lt Suc.prems(4) _ Suc.prems(6,7)] Suc.prems(5) by simp
    finally show ?thesis using Suc.prems(3) by (simp add: upt_conv_Cons[of i m])
  qed
qed

definition is_trigger :: "EVENT \<Rightarrow> bool" where
  "is_trigger e \<longleftrightarrow> ev_type e = Some TRIGGER"

text \<open>Visiting entries from new to old, with triggers whose firings are not among them.\<close>

lemma scan_visit_fold:
  assumes "sorted_wrt (\<lambda>a b. sint (ev_seq_no (fst b)) < sint (ev_seq_no (fst a))) ps"
    "\<forall>a\<in>set ps. ev_type (fst a) = Some TRIGGER_FIRING \<longrightarrow> (\<forall>b\<in>set ps. is_trigger (fst b) \<longrightarrow> ev_cause_seq_no (fst a) \<noteq> ev_seq_no (fst b))"
    "\<forall>b\<in>set ps. is_trigger (fst b) \<longrightarrow> ev_seq_no (fst b) \<notin> set ev_list"
    "\<forall>n\<in>set cache. \<forall>a\<in>set ps. sint (ev_seq_no (fst a)) < sint (fst n)"
  shows "\<exists>evs. fold scan_visit ps (ev_list, earliest, cache) = (evs,
      case filter (\<lambda>a. is_trigger (fst a)) ps of [] \<Rightarrow> earliest | a # as \<Rightarrow> snd (last (a # as)),
      rev (map (\<lambda>a. (ev_seq_no (fst a), snd a)) (filter (\<lambda>a. is_trigger (fst a)) ps)) @ cache)"
  using assms
proof (induction ps arbitrary: ev_list earliest cache)
  case (Cons p ps)
  obtain e cur where p: "p = (e, cur)" by (cases p)
  show ?case
  proof (cases "is_trigger e")
    case True
    have "map_of cache (ev_seq_no e) = None" using Cons.prems(4) p by (auto simp: map_of_eq_None_iff)
    moreover have "insort_key (\<lambda>n. sint (fst n)) (ev_seq_no e, cur) cache = (ev_seq_no e, cur) # cache"
      using Cons.prems(4) p by (intro insort_is_Cons) (auto intro: less_imp_le)
    ultimately have "fold scan_visit (p # ps) (ev_list, earliest, cache)
        = fold scan_visit ps (ev_list, cur, (ev_seq_no e, cur) # cache)"
      using True Cons.prems(3) p by (simp add: is_trigger_def tcache_insert_def)
    with Cons.IH[of ev_list "(ev_seq_no e, cur) # cache" cur] Cons.prems True p show ?thesis
      by (auto split: list.splits)
  next
    case False
    define ev_list' where "ev_list' = (if ev_type e = Some TRIGGER_FIRING then ev_cause_seq_no e # ev_list else ev_list)"
    have "fold scan_visit (p # ps) (ev_list, earliest, cache) = fold scan_visit ps (ev_list', earliest, cache)"
      using False p by (simp add: is_trigger_def ev_list'_def)
    moreover have "\<forall>b\<in>set ps. is_trigger (fst b) \<longrightarrow> ev_seq_no (fst b) \<notin> set ev_list'"
      using Cons.prems(2,3) p by (auto simp: ev_list'_def)
    ultimately show ?thesis
      using Cons.IH[of ev_list' cache earliest] Cons.prems False p by (auto split: list.splits)
  qed
qed simp

section \<open>The log as a prefix of its history\<close>

text \<open>
  \<open>h\<close> is everything ever logged, oldest first: event number \<open>s\<close> is in slot \<open>s\<close> modulo the size.
\<close>

definition numbered :: "EVENT list \<Rightarrow> bool" where
  "numbered h \<longleftrightarrow> (\<forall>i<length h. ev_seq_no (h ! i) = of_nat (Suc i))"

definition log_history :: "LOG \<Rightarrow> EVENT list \<Rightarrow> bool" where
  "log_history l h \<longleftrightarrow> log_wf l \<and> log_seq_no l = of_nat (Suc (length h))
     \<and> unat (log_head l) = length h mod unat (log_size l)
     \<and> log_view l = take (unat (log_size l) - 1) (rev h) \<and> numbered h"

definition slot_of :: "nat \<Rightarrow> EVENT \<Rightarrow> u64" where
  "slot_of n e = of_nat (unat (ev_seq_no e) mod n)"

lemma numbered_snoc: "numbered (h @ [e]) \<longleftrightarrow> numbered h \<and> ev_seq_no e = of_nat (Suc (length h))"
  by (auto simp: numbered_def nth_append less_Suc_eq)

lemma numbered_seq: "numbered h \<Longrightarrow> i < length h \<Longrightarrow> length h < 2 ^ 64 \<Longrightarrow> unat (ev_seq_no (h ! i)) = Suc i"
  by (simp add: numbered_def unat_of_nat take_bit_nat_eq_self del: of_nat_Suc)

lemma numbered_sorted:
  assumes "numbered h" "length h < 2 ^ 64"
  shows "sorted_wrt (\<lambda>a b. unat (ev_seq_no a) < unat (ev_seq_no b)) h"
  using numbered_seq[OF assms(1) _ assms(2)] by (auto simp: sorted_wrt_iff_nth_less)

lemma behind_mod: "j \<le> i \<Longrightarrow> j \<le> n \<Longrightarrow> 0 < n \<Longrightarrow> behind n (i mod n) j = (i - j) mod n"
proof -
  assume a: "j \<le> i" "j \<le> n" "0 < n"
  have "(i mod n + n - j) mod n = (i mod n + (n - j)) mod n" using a by simp
  also have "\<dots> = (i + (n - j)) mod n" by (simp add: mod_add_left_eq)
  also have "\<dots> = ((i - j) + n) mod n" using a by simp
  finally show ?thesis by (simp add: behind_def)
qed

lemma unat_slot_of: "n < 2 ^ 64 \<Longrightarrow> 0 < n \<Longrightarrow> unat (slot_of n e) = unat (ev_seq_no e) mod n"
  by (simp add: slot_of_def unat_of_nat take_bit_nat_eq_self mod_less_divisor[THEN less_trans])

lemma slot_of_not_minus1:
  assumes "n < 2 ^ 64" "0 < n"
  shows "slot_of n e \<noteq> - 1"
proof
  assume "slot_of n e = - 1"
  then have "unat (slot_of n e) = 2 ^ 64 - 1" by (simp add: unsigned_minus_1_eq_mask mask_eq_exp_minus_1)
  then have "unat (ev_seq_no e) mod n = 2 ^ 64 - 1" using unat_slot_of[OF assms] by simp
  moreover have "unat (ev_seq_no e) mod n < n" using assms(2) by simp
  ultimately show False using assms(1) by simp
qed

text \<open>The entry \<open>j\<close> steps behind the newest and its slot.\<close>

lemma log_history_entry:
  assumes "log_history l h" "j < length h" "j < unat (log_size l)" "length h < 2 ^ 64"
  shows "log_slot l j = slot_of (unat (log_size l)) (h ! (length h - Suc j))"
    and "j < unat (log_size l) - 1 \<Longrightarrow> log_view l ! j = h ! (length h - Suc j)"
proof -
  have seq: "unat (ev_seq_no (h ! (length h - Suc j))) = length h - j"
    using numbered_seq[of h "length h - Suc j"] assms by (simp add: log_history_def)
  show "log_slot l j = slot_of (unat (log_size l)) (h ! (length h - Suc j))"
    using assms behind_mod[of j "length h" "unat (log_size l)"] by (simp add: log_slot_def slot_of_def seq log_history_def)
  show "j < unat (log_size l) - 1 \<Longrightarrow> log_view l ! j = h ! (length h - Suc j)"
    using assms by (simp add: log_history_def rev_nth)
qed

lemma log_history_count: "log_history l h \<Longrightarrow> log_count l = min (length h) (unat (log_size l) - 1)"
  using length_log_view[of l] by (simp add: log_history_def)

text \<open>Logging extends the history and touches nothing else.\<close>

lemma log_history_sema [simp]:
  "log_history (l\<lparr>log_mutex := m\<rparr>) h = log_history l h" "log_history (l\<lparr>log_tail_wait := t\<rparr>) h = log_history l h"
  "log_history (l\<lparr>log_last_checked := i\<rparr>) h = log_history l h"
  by (simp_all add: log_history_def log_wf_def log_view_def log_count_def)

lemma log_put_history:
  assumes "log_history l h" "e' = e\<lparr>ev_seq_no := log_seq_no l\<rparr>"
  obtains l' where "log_put (l\<lparr>log_seq_no := log_seq_no l + 1\<rparr>) e' = Ret l'"
    "log_history l' (h @ [e'])" "log_size l' = log_size l" "log_last_checked l' = log_last_checked l"
    "log_tail_wait l' = log_tail_wait l" "log_mutex l' = log_mutex l"
proof -
  let ?l = "l\<lparr>log_seq_no := log_seq_no l + 1\<rparr>" and ?n = "unat (log_size l)"
  have wf: "log_wf ?l" using assms(1) by (simp add: log_history_def)
  obtain l' where l': "log_put ?l e' = Ret l'" "log_wf l'"
    "log_view l' = take (?n - 1) (e' # log_view ?l)" "log_size l' = log_size l"
    "log_seq_no l' = log_seq_no l + 1" "log_mutex l' = log_mutex l" "log_tail_wait l' = log_tail_wait l"
    using log_put_ok[OF wf, of e'] by auto
  have eq: "log_head l' = (log_head l + 1) mod log_size l" "log_last_checked l' = log_last_checked l"
    using log_put_eq[OF wf, of e'] l'(1) by auto
  have "unat (log_head l') = Suc (unat (log_head l)) mod ?n"
    using assms(1) unat64_next[of "log_head l" "log_size l"] by (simp add: eq log_history_def log_wf_def)
  then have head: "unat (log_head l') = length (h @ [e']) mod ?n"
    using assms(1) by (simp add: log_history_def mod_Suc_eq)
  have "log_view l' = take (?n - 1) (rev (h @ [e']))"
    using l'(3) assms(1) by (cases "?n - 1") (simp_all add: log_history_def min_def)
  moreover have "numbered (h @ [e'])" using assms by (simp add: numbered_snoc log_history_def)
  ultimately have "log_history l' (h @ [e'])"
    using l' head assms(1) by (auto simp: log_history_def algebra_simps)
  then show ?thesis using that[OF l'(1)] l' eq by blast
qed

lemma LogEventNoLock_history:
  assumes "log_history l h"
  obtains l' where "LogEventNoLock (Some l) e = Ret (log_seq_no l, Some l')"
    "log_history l' (h @ [e\<lparr>ev_seq_no := log_seq_no l\<rparr>])" "log_size l' = log_size l"
    "log_last_checked l' = log_last_checked l" "log_tail_wait l' = log_tail_wait l" "log_mutex l' = log_mutex l"
proof -
  obtain l' where l': "log_put (l\<lparr>log_seq_no := log_seq_no l + 1\<rparr>) (e\<lparr>ev_seq_no := log_seq_no l\<rparr>) = Ret l'"
    "log_history l' (h @ [e\<lparr>ev_seq_no := log_seq_no l\<rparr>])" "log_size l' = log_size l"
    "log_last_checked l' = log_last_checked l" "log_tail_wait l' = log_tail_wait l" "log_mutex l' = log_mutex l"
    by (rule log_put_history[OF assms refl])
  have "LogEventNoLock (Some l) e = Ret (log_seq_no l, Some l')"
    using l'(1) by (simp add: LogEventNoLock_def LogAdd_def Let_def)
  then show ?thesis using that l'(2-) by blast
qed

lemma LogEvent_history:
  assumes "log_history l h" "0 < sem_val (log_mutex l)"
  obtains l' where "LogEvent (Some l) e = Ret (log_seq_no l, Some l')"
    "log_history l' (h @ [e\<lparr>ev_seq_no := log_seq_no l\<rparr>])" "log_size l' = log_size l"
    "log_last_checked l' = log_last_checked l" "log_tail_wait l' = log_tail_wait l" "log_mutex l' = log_mutex l"
proof -
  obtain m where m: "sem_P (log_mutex l) = Ret m" using futex.down_pos[OF assms(2)] by auto
  have "log_history (l\<lparr>log_mutex := m\<rparr>) h" using assms(1) by simp
  then obtain l1 where l1: "LogEventNoLock (Some (l\<lparr>log_mutex := m\<rparr>)) e = Ret (log_seq_no l, Some l1)"
    "log_history l1 (h @ [e\<lparr>ev_seq_no := log_seq_no l\<rparr>])" "log_size l1 = log_size l"
    "log_last_checked l1 = log_last_checked l" "log_tail_wait l1 = log_tail_wait l" "log_mutex l1 = m"
    using LogEventNoLock_history[of "l\<lparr>log_mutex := m\<rparr>" h e] by simp metis
  have "LogEvent (Some l) e = run_bind (LogEventNoLock (Some (l\<lparr>log_mutex := m\<rparr>)) e)
      (\<lambda>(ls, log). Ret (ls, map_option (\<lambda>l. l\<lparr>log_mutex := sem_V (log_mutex l)\<rparr>) log))"
    using m by (cases "LogAdd (Some (l\<lparr>log_mutex := m, log_seq_no := log_seq_no l + 1\<rparr>)) (e\<lparr>ev_seq_no := log_seq_no l\<rparr>)")
      (simp_all add: LogEvent_def LogEventNoLock_def Let_def case_prod_beta)
  then have "LogEvent (Some l) e = Ret (log_seq_no l, Some (l1\<lparr>log_mutex := log_mutex l\<rparr>))"
    using l1(1,6) futex.bracket[OF m] by simp
  then show ?thesis using that l1(2-5) by simp
qed

section \<open>Claims\<close>

abbreviation triggers :: "EVENT list \<Rightarrow> EVENT list" where
  "triggers h \<equiv> filter is_trigger h"

text \<open>The number of the trigger claimed last, when \<open>k\<close> were claimed.\<close>

definition last_claim :: "EVENT list \<Rightarrow> nat \<Rightarrow> nat" where
  "last_claim h k = (if k = 0 then 0 else unat (ev_seq_no (triggers h ! (k - 1))))"

definition node_of :: "nat \<Rightarrow> EVENT \<Rightarrow> u64 \<times> u64" where
  "node_of n e = (ev_seq_no e, slot_of n e)"

text \<open>
  The state of the forkers after \<open>k\<close> claims: the first \<open>k\<close> triggers are claimed, the cache holds the
  next ones, and every firing event names a slot at or before the last claim. The last conjunct is
  the consequence of a backlog of at most \<open>B\<close> triggers at every time.
\<close>

definition claims_inv :: "nat \<Rightarrow> LOG \<Rightarrow> tcache \<Rightarrow> EVENT list \<Rightarrow> nat \<Rightarrow> bool" where
  "claims_inv B l c h k \<longleftrightarrow> log_history l h
     \<and> length h = length (triggers h) + k \<and> k \<le> length (triggers h)
     \<and> log_last_checked l = (if k = 0 then - 1 else slot_of (unat (log_size l)) (triggers h ! (k - 1)))
     \<and> (\<exists>m. c = map (node_of (unat (log_size l))) (take m (drop k (triggers h))))
     \<and> (\<forall>e\<in>set h. ev_type e = Some TRIGGER_FIRING \<longrightarrow> unat (ev_cause_seq_no e) \<le> last_claim h k)
     \<and> (\<forall>j<length (triggers h). 2 * Suc j \<le> unat (ev_seq_no (triggers h ! j)) + B)"

lemma filter_above_nth:
  fixes f :: "'a \<Rightarrow> nat"
  assumes "sorted_wrt (\<lambda>a b. f a < f b) xs" "k < length xs"
  shows "filter (\<lambda>x. f (xs ! k) < f x) xs = drop (Suc k) xs"
proof -
  have "filter (\<lambda>x. f (xs ! k) < f x) (take (Suc k) xs) = []"
  proof -
    have "f (xs ! i) \<le> f (xs ! k)" if "i \<le> k" for i
      using assms that sorted_wrt_nth_less[of "\<lambda>a b. f a < f b" xs i k] by (cases "i = k") auto
    then show ?thesis using assms(2) by (auto simp: filter_empty_conv in_set_conv_nth not_less)
  qed
  moreover have "filter (\<lambda>x. f (xs ! k) < f x) (drop (Suc k) xs) = drop (Suc k) xs"
    using assms sorted_wrt_nth_less[of "\<lambda>a b. f a < f b" xs k] by (auto simp: filter_id_conv in_set_conv_nth)
  ultimately show ?thesis by (metis append_take_drop_id filter_append append_Nil)
qed

lemma numbered_drop:
  assumes "numbered h" "length h < 2 ^ 64"
  shows "drop s h = filter (\<lambda>e. s < unat (ev_seq_no e)) h"
proof -
  have "filter (\<lambda>e. s < unat (ev_seq_no e)) (take s h) = []"
    using numbered_seq[OF assms(1) _ assms(2)] by (auto simp: filter_empty_conv in_set_conv_nth)
  moreover have "filter (\<lambda>e. s < unat (ev_seq_no e)) (drop s h) = drop s h"
    using numbered_seq[OF assms(1) _ assms(2)] by (auto simp: filter_id_conv in_set_conv_nth)
  ultimately show ?thesis by (metis append_take_drop_id filter_append append_Nil)
qed

lemma triggers_sorted:
  assumes "numbered h" "length h < 2 ^ 64"
  shows "sorted_wrt (\<lambda>a b. unat (ev_seq_no a) < unat (ev_seq_no b)) (triggers h)"
  using numbered_sorted[OF assms] by (rule sorted_wrt_filter)

lemma triggers_above:
  assumes "numbered h" "length h < 2 ^ 64" "k \<le> length (triggers h)"
  shows "triggers (drop (last_claim h k) h) = drop k (triggers h)"
proof (cases k)
  case 0
  then show ?thesis by (simp add: last_claim_def)
next
  case (Suc j)
  have "triggers (drop (last_claim h k) h) = filter (\<lambda>e. last_claim h k < unat (ev_seq_no e)) (triggers h)"
    unfolding numbered_drop[OF assms(1,2)] by (simp add: conj_commute)
  then show ?thesis
    using filter_above_nth[OF triggers_sorted[OF assms(1,2)], of j] assms(3) Suc by (simp add: last_claim_def)
qed

lemma trigger_position:
  assumes "numbered h" "length h < 2 ^ 64" "j < length (triggers h)"
  shows "0 < unat (ev_seq_no (triggers h ! j))" "unat (ev_seq_no (triggers h ! j)) \<le> length h"
    "h ! (unat (ev_seq_no (triggers h ! j)) - 1) = triggers h ! j"
proof -
  have "triggers h ! j \<in> set h" using assms(3) nth_mem[of j "triggers h"] by simp
  then obtain i where i: "i < length h" "triggers h ! j = h ! i" by (metis in_set_conv_nth)
  then have "unat (ev_seq_no (triggers h ! j)) = Suc i" using numbered_seq assms by simp
  then show "0 < unat (ev_seq_no (triggers h ! j))" "unat (ev_seq_no (triggers h ! j)) \<le> length h"
    "h ! (unat (ev_seq_no (triggers h ! j)) - 1) = triggers h ! j"
    using i by auto
qed

lemma last_claim_le: "numbered h \<Longrightarrow> length h < 2 ^ 64 \<Longrightarrow> k \<le> length (triggers h) \<Longrightarrow> last_claim h k \<le> length h"
  using trigger_position(2)[of h "k - 1"] by (auto simp: last_claim_def)

text \<open>The window of a scan: with a backlog of at most \<open>B\<close> it is at most \<open>2 * B\<close> events long.\<close>

lemma claim_window:
  assumes "claims_inv B l c h k" "length (triggers h) \<le> k + B"
  shows "length h \<le> last_claim h k + 2 * B"
proof (cases k)
  case 0
  then show ?thesis using assms by (simp add: claims_inv_def last_claim_def)
next
  case (Suc j)
  then have "2 * k \<le> last_claim h k + B" using assms(1) by (auto simp: claims_inv_def last_claim_def)
  then show ?thesis using assms by (simp add: claims_inv_def)
qed

lemma claims_inv_sema [simp]:
  "claims_inv B (l\<lparr>log_mutex := m\<rparr>) c h k = claims_inv B l c h k"
  "claims_inv B (l\<lparr>log_tail_wait := t\<rparr>) c h k = claims_inv B l c h k"
  by (simp_all add: claims_inv_def)

text \<open>What the scan visits: the events after the last claim, newest first.\<close>

lemma scan_region:
  assumes "log_history l h" "length h < 2 ^ 64" "s \<le> length h" "length h < s + unat (log_size l)"
  shows "map (\<lambda>j. (log_view l ! j, log_slot l j)) [0..<length h - s]
    = map (\<lambda>e. (e, slot_of (unat (log_size l)) e)) (rev (drop s h))"
proof (rule nth_equalityI)
  fix j assume "j < length (map (\<lambda>j. (log_view l ! j, log_slot l j)) [0..<length h - s])"
  then have j: "j < length h - s" by simp
  then have "rev (drop s h) ! j = h ! (length h - Suc j)" by (simp add: rev_nth)
  moreover have "log_slot l j = slot_of (unat (log_size l)) (h ! (length h - Suc j))" "log_view l ! j = h ! (length h - Suc j)"
    using log_history_entry[OF assms(1), of j] j assms by auto
  ultimately show "map (\<lambda>j. (log_view l ! j, log_slot l j)) [0..<length h - s] ! j
      = map (\<lambda>e. (e, slot_of (unat (log_size l)) e)) (rev (drop s h)) ! j"
    using j by simp
qed simp

lemma mod_unique: "0 < d \<Longrightarrow> d < n \<Longrightarrow> (s + d) mod n \<noteq> s mod n" for s d n :: nat
  by (metis add_diff_cancel_left' le_add1 mod_eq_dvd_iff_nat nat_dvd_not_less)

text \<open>The scan stops right behind the events after the last claim.\<close>

lemma scan_stop:
  assumes inv: "claims_inv B l c h k" and len: "length h < 2 ^ 64"
    and win: "length h < last_claim h k + unat (log_size l)" and sz: "unat (log_size l) < 2 ^ 31"
  defines "m \<equiv> length h - last_claim h k"
  shows "m \<le> log_count l" "m < log_count l \<Longrightarrow> log_slot l m = log_last_checked l"
    "\<And>j. j < m \<Longrightarrow> log_slot l j \<noteq> log_last_checked l"
proof -
  let ?n = "unat (log_size l)" and ?s = "last_claim h k"
  have hist: "log_history l h" and num: "numbered h" and k: "k \<le> length (triggers h)"
    using inv by (auto simp: claims_inv_def log_history_def)
  have n: "0 < ?n" "?n < 2 ^ 64" using log_wf_size hist unat64_less by (auto simp: log_history_def)
  have s: "?s \<le> length h" using last_claim_le num len k .
  show "m \<le> log_count l" using log_history_count[OF hist] win s by (simp add: m_def)
  show "log_slot l m = log_last_checked l" if "m < log_count l"
  proof -
    have "k \<noteq> 0" using that log_history_count[OF hist] by (cases k) (auto simp: m_def last_claim_def)
    then have "log_last_checked l = of_nat (?s mod ?n)"
      using inv by (simp add: claims_inv_def slot_of_def last_claim_def)
    moreover have "log_slot l m = of_nat ((length h - m) mod ?n)"
      using hist behind_mod[of m "length h" ?n] n win s by (simp add: log_slot_def log_history_def m_def)
    ultimately show ?thesis using s by (simp add: m_def)
  qed
  show "log_slot l j \<noteq> log_last_checked l" if j: "j < m" for j
  proof (cases "k = 0")
    case True
    have "log_slot l j = slot_of ?n (h ! (length h - Suc j))"
      using log_history_entry(1)[OF hist _ _ len] j win by (simp add: m_def)
    then show ?thesis using True inv slot_of_not_minus1[OF n(2,1)] by (simp add: claims_inv_def)
  next
    case False
    have "unat (log_slot l j) = (length h - j) mod ?n"
      using hist behind_mod[of j "length h" ?n] n win s j unat_log_slot[of l j] by (simp add: log_history_def m_def)
    moreover have "unat (log_last_checked l) = ?s mod ?n"
      using inv False unat_slot_of[OF n(2,1)] by (simp add: claims_inv_def last_claim_def)
    moreover have "(length h - j) mod ?n \<noteq> ?s mod ?n"
      using mod_unique[of "length h - j - ?s" ?n ?s] j win s by (simp add: m_def)
    ultimately show ?thesis by auto
  qed
qed

lemma sint64_small:
  assumes "unat (w :: u64) < 2 ^ 63"
  shows "sint w = int (unat w)"
proof -
  have "int (unat w) < 2 ^ 63" using assms by (simp only: of_nat_less_numeral_power_cancel_iff)
  then have "uint w < 2 ^ 63" by simp
  moreover have "- (2 ^ 63) \<le> uint w" by (rule order_trans[of _ 0]) simp_all
  ultimately show ?thesis by (simp add: sint_uint signed_take_bit_int_eq_self)
qed

lemma numbered_region:
  assumes "numbered h" "length h < 2 ^ 64" "e \<in> set (drop s h)"
  shows "unat (ev_seq_no e) \<le> length h" "s < unat (ev_seq_no e)"
proof -
  obtain i where "i < length h" "e = h ! i" using assms(3) by (metis in_set_conv_nth in_set_dropD)
  then show "unat (ev_seq_no e) \<le> length h" using numbered_seq[OF assms(1) _ assms(2)] by simp
  show "s < unat (ev_seq_no e)" using assms(3) numbered_drop[OF assms(1,2), of s] by simp
qed

lemma region_sorted:
  assumes "numbered h" "length h < 2 ^ 63"
  shows "sorted_wrt (\<lambda>a b. sint (ev_seq_no (fst b)) < sint (ev_seq_no (fst a))) (map (\<lambda>e. (e, f e)) (rev (drop s h)))"
proof -
  have len: "length h < 2 ^ 64" using assms(2) by simp
  have "sorted_wrt (\<lambda>a b. unat (ev_seq_no a) < unat (ev_seq_no b)) (drop s h)"
    using numbered_sorted[OF assms(1) len] by (rule sorted_wrt_drop)
  moreover have "sint (ev_seq_no a) < sint (ev_seq_no b)"
    if "a \<in> set (drop s h)" "b \<in> set (drop s h)" "unat (ev_seq_no a) < unat (ev_seq_no b)" for a b
  proof -
    have "unat (ev_seq_no a) < 2 ^ 63" "unat (ev_seq_no b) < 2 ^ 63"
      using numbered_region(1)[OF assms(1) len that(1)] numbered_region(1)[OF assms(1) len that(2)] assms(2) by auto
    then show ?thesis using that(3) by (simp only: sint64_small)
  qed
  ultimately have "sorted_wrt (\<lambda>a b. sint (ev_seq_no a) < sint (ev_seq_no b)) (drop s h)"
    by (rule sorted_wrt_mono_rel[rotated])
  then show ?thesis by (simp add: sorted_wrt_map sorted_wrt_rev)
qed

lemma case_snoc: "(case xs @ [x] of [] \<Rightarrow> d | a # as \<Rightarrow> f (last (a # as))) = f x"
  by (cases xs) simp_all

text \<open>A scan of the events after the last claim finds the unclaimed triggers.\<close>

lemma scan_region_result:
  assumes inv: "claims_inv B l c h k" and k: "k < length (triggers h)" and len: "length h < 2 ^ 63"
  shows "\<exists>evs. fold scan_visit (map (\<lambda>e. (e, slot_of n e)) (rev (drop (last_claim h k) h))) ([], - 1, [])
    = (evs, slot_of n (triggers h ! k), map (node_of n) (drop k (triggers h)))"
proof -
  let ?s = "last_claim h k" and ?tr = "drop k (triggers h)"
  let ?ps = "map (\<lambda>e. (e, slot_of n e)) (rev (drop ?s h))"
  have num: "numbered h" using inv by (simp add: claims_inv_def log_history_def)
  have len': "length h < 2 ^ 64" using len by simp
  have fl: "filter (\<lambda>a. is_trigger (fst a)) ?ps = rev (map (\<lambda>e. (e, slot_of n e)) ?tr)"
    using triggers_above[OF num len'] k by (simp add: filter_map rev_map comp_def flip: rev_filter)
  have cause: "ev_cause_seq_no (fst a) \<noteq> ev_seq_no (fst b)"
    if "a \<in> set ?ps" "ev_type (fst a) = Some TRIGGER_FIRING" "b \<in> set ?ps" for a b
  proof -
    have "fst a \<in> set h" "fst b \<in> set (drop ?s h)" using that(1,3) in_set_dropD[of "fst a" ?s h] by auto
    then have "unat (ev_cause_seq_no (fst a)) \<le> ?s" "?s < unat (ev_seq_no (fst b))"
      using inv that(2) numbered_region(2)[OF num len'] by (auto simp: claims_inv_def)
    then show ?thesis by auto
  qed
  have ex: "\<exists>evs. fold scan_visit ?ps ([], - 1, []) = (evs,
      case rev (map (\<lambda>e. (e, slot_of n e)) ?tr) of [] \<Rightarrow> - 1 | a # as \<Rightarrow> snd (last (a # as)),
      rev (map (\<lambda>a. (ev_seq_no (fst a), snd a)) (rev (map (\<lambda>e. (e, slot_of n e)) ?tr))) @ [])"
    unfolding fl[symmetric] using cause by (intro scan_visit_fold region_sorted[OF num len]) auto
  have "?tr = triggers h ! k # drop (Suc k) (triggers h)" using k by (simp add: Cons_nth_drop_Suc)
  then have "(case rev (map (\<lambda>e. (e, slot_of n e)) ?tr) of [] \<Rightarrow> - 1 | a # as \<Rightarrow> snd (last (a # as))) = slot_of n (triggers h ! k)"
    using case_snoc[where x = "(triggers h ! k, slot_of n (triggers h ! k))" and f = snd]
    by simp
  with ex show ?thesis by (simp add: rev_map node_of_def[abs_def] comp_def)
qed

lemma pick_by_scan:
  assumes inv: "claims_inv B l [] h k" and k: "k < length (triggers h)" and len: "length h < 2 ^ 63"
    and win: "length h < last_claim h k + unat (log_size l)" and sz: "unat (log_size l) < 2 ^ 31"
  shows "forker_pick l [] = Ret (slot_of (unat (log_size l)) (triggers h ! k),
    map (node_of (unat (log_size l))) (drop k (triggers h)))"
proof -
  let ?n = "unat (log_size l)" and ?s = "last_claim h k"
  have hist: "log_history l h" and num: "numbered h" and wf: "log_wf l" using inv by (auto simp: claims_inv_def log_history_def)
  have len': "length h < 2 ^ 64" using len by simp
  note stop = scan_stop[OF inv len' win sz]
  have s: "?s \<le> length h" using last_claim_le num len' k by simp
  have "triggers (drop ?s h) \<noteq> []" using triggers_above[OF num len'] k by simp
  then have "drop ?s h \<noteq> []" by auto
  then have pos: "0 < length h - ?s" by simp
  have "log_slot l 0 = log_head l" using wf by (simp add: log_slot_def behind_0 log_wf_def)
  moreover have "forker_scan ?n l (log_slot l 0) ([], - 1, [])
      = Ret (fold scan_visit (map (\<lambda>j. (log_view l ! j, log_slot l j)) [0..<length h - ?s]) ([], - 1, []))"
    using win stop by (intro forker_scan_fold[OF wf sz pos]) auto
  ultimately have "forker_scan ?n l (log_head l) ([], - 1, [])
      = Ret (fold scan_visit (map (\<lambda>e. (e, slot_of ?n e)) (rev (drop ?s h))) ([], - 1, []))"
    using scan_region[OF hist len' s win] by simp
  then show ?thesis using scan_region_result[OF inv k len, of ?n] by (auto simp: forker_pick_def)
qed

lemma forker_pick_ok:
  assumes inv: "claims_inv B l c h k" and k: "k < length (triggers h)" and len: "length h < 2 ^ 63"
    and win: "length h < last_claim h k + unat (log_size l)" and sz: "unat (log_size l) < 2 ^ 31"
  shows "\<exists>m. forker_pick l c = Ret (slot_of (unat (log_size l)) (triggers h ! k),
    map (node_of (unat (log_size l))) (take (Suc m) (drop k (triggers h))))"
proof -
  let ?n = "unat (log_size l)" and ?tr = "drop k (triggers h)"
  obtain m where c: "c = map (node_of ?n) (take m ?tr)" using inv by (auto simp: claims_inv_def)
  have tr: "?tr = triggers h ! k # drop (Suc k) (triggers h)" using k by (simp add: Cons_nth_drop_Suc)
  show ?thesis
  proof (cases m)
    case 0
    then have "c = []" using c by simp
    moreover have "take (Suc (length ?tr)) ?tr = ?tr" by simp
    ultimately show ?thesis using pick_by_scan[of B l h k] assms by metis
  next
    case (Suc j)
    then have "c = node_of ?n (triggers h ! k) # map (node_of ?n) (take j (drop (Suc k) (triggers h)))"
      using c tr by simp
    moreover have "slot_of ?n (triggers h ! k) \<noteq> - 1"
      using inv slot_of_not_minus1 log_wf_size unat64_less by (simp add: claims_inv_def log_history_def)
    ultimately have "forker_pick l c = Ret (slot_of ?n (triggers h ! k), c)" by (simp add: forker_pick_def node_of_def)
    then show ?thesis using c Suc by blast
  qed
qed

text \<open>A retained event is in its slot.\<close>

lemma log_history_slot:
  assumes "log_history l h" "length h < 2 ^ 64" "0 < s" "s \<le> length h" "Suc (length h) < s + unat (log_size l)"
  shows "ev_at l (slot_of (unat (log_size l)) (h ! (s - 1))) = Ret (h ! (s - 1))"
proof -
  let ?j = "length h - s"
  have wf: "log_wf l" using assms(1) by (simp add: log_history_def)
  have j: "?j < length h" "?j < unat (log_size l) - 1" "length h - Suc ?j = s - 1" using assms by auto
  then have "?j < log_count l" using log_history_count[OF assms(1)] by simp
  then have "ev_at l (log_slot l ?j) = Ret (log_view l ! ?j)"
    using ev_at_behind[OF wf _ unat_log_slot[OF wf]] by blast
  then show ?thesis using log_history_entry[OF assms(1) j(1) _ assms(2)] j by simp
qed

lemma claim_not_overwritten:
  assumes "claims_inv B l c h k" "k < length (triggers h)" "length h < 2 ^ 64"
    "length h < last_claim h k + unat (log_size l)"
  shows "ev_at l (slot_of (unat (log_size l)) (triggers h ! k)) = Ret (triggers h ! k)"
proof -
  let ?s = "unat (ev_seq_no (triggers h ! k))"
  have hist: "log_history l h" and num: "numbered h" using assms(1) by (auto simp: claims_inv_def log_history_def)
  have "last_claim h k < ?s"
  proof (cases k)
    case 0
    then show ?thesis using trigger_position(1)[OF num assms(3,2)] by (simp add: last_claim_def)
  next
    case (Suc j)
    then show ?thesis
      using sorted_wrt_nth_less[OF triggers_sorted[OF num assms(3)], of j k] assms(2) by (simp add: last_claim_def)
  qed
  then show ?thesis
    using log_history_slot[OF hist assms(3), of ?s] trigger_position[OF num assms(3,2)] assms(4) by simp
qed

text \<open>Logging the firing of trigger \<open>k\<close> and remembering its slot.\<close>

lemma claims_inv_fired:
  assumes inv: "claims_inv B l c h k" and k: "k < length (triggers h)" and len: "length h < 2 ^ 64"
    and l': "log_history l' (h @ [f])" "log_size l' = log_size l"
    and f: "ev_type f = Some TRIGGER_FIRING" "ev_cause_seq_no f = slot_of (unat (log_size l)) (triggers h ! k)"
    and lc: "log_last_checked l' = slot_of (unat (log_size l)) (triggers h ! k)"
  shows "claims_inv B l' (map (node_of (unat (log_size l))) (take m (drop (Suc k) (triggers h)))) (h @ [f]) (Suc k)"
proof -
  let ?n = "unat (log_size l)"
  have num: "numbered h" and n: "0 < ?n" using inv log_wf_size by (auto simp: claims_inv_def log_history_def)
  have tr: "triggers (h @ [f]) = triggers h" using f(1) by (simp add: is_trigger_def)
  have last: "last_claim (h @ [f]) (Suc k) = unat (ev_seq_no (triggers h ! k))" by (simp only: last_claim_def tr) simp
  have "unat (ev_cause_seq_no f) \<le> unat (ev_seq_no (triggers h ! k))"
    using f(2) unat_slot_of[OF unat64_less n] by simp
  moreover have "unat (ev_cause_seq_no e) \<le> unat (ev_seq_no (triggers h ! k))"
    if "e \<in> set h" "ev_type e = Some TRIGGER_FIRING" for e
  proof -
    have "last_claim h k \<le> unat (ev_seq_no (triggers h ! k))"
      using sorted_wrt_nth_less[OF triggers_sorted[OF num len], of "k - 1" k] k
      by (cases k) (auto simp: last_claim_def)
    moreover have "unat (ev_cause_seq_no e) \<le> last_claim h k" using inv that by (auto simp: claims_inv_def)
    ultimately show ?thesis by simp
  qed
  ultimately have "\<forall>e\<in>set (h @ [f]). ev_type e = Some TRIGGER_FIRING \<longrightarrow> unat (ev_cause_seq_no e) \<le> last_claim (h @ [f]) (Suc k)"
    unfolding last by auto
  moreover have "length h = length (triggers h) + k" "\<forall>j<length (triggers h). 2 * Suc j \<le> unat (ev_seq_no (triggers h ! j)) + B"
    using inv by (auto simp: claims_inv_def)
  ultimately show ?thesis using k l' lc unfolding claims_inv_def tr by auto
qed

lemma forker_claim_ok:
  assumes inv: "claims_inv B l c h k" and mu: "0 < sem_val (log_mutex l)" and k: "k < length (triggers h)"
    and len: "Suc (length h) < 2 ^ 63" and win: "length h < last_claim h k + unat (log_size l)"
    and sz: "unat (log_size l) < 2 ^ 31"
  defines "i \<equiv> slot_of (unat (log_size l)) (triggers h ! k)"
  obtains l' c' f where "forker_claim ts ns l c = Ret (Some i, l', c')" "claims_inv B l' c' (h @ [f]) (Suc k)"
    "\<not> is_trigger f" "log_size l' = log_size l" "log_tail_wait l' = log_tail_wait l" "log_mutex l' = log_mutex l"
proof -
  obtain m where m: "sem_P (log_mutex l) = Ret m" using futex.down_pos[OF mu] by auto
  have inv': "claims_inv B (l\<lparr>log_mutex := m\<rparr>) c h k" using inv by simp
  obtain j where pick: "forker_pick (l\<lparr>log_mutex := m\<rparr>) c = Ret (i, map (node_of (unat (log_size l))) (take (Suc j) (drop k (triggers h))))"
    using forker_pick_ok[OF inv' k] len win sz by (auto simp: i_def)
  have hist: "log_history (l\<lparr>log_mutex := m\<rparr>) h" "log_seq_no l = of_nat (Suc (length h))"
    using inv by (auto simp: claims_inv_def log_history_def)
  let ?f = "(firing_event ts ns i)\<lparr>ev_seq_no := log_seq_no l\<rparr>"
  obtain l1 where l1: "LogEventNoLock (Some (l\<lparr>log_mutex := m\<rparr>)) (firing_event ts ns i) = Ret (log_seq_no l, Some l1)"
    "log_history l1 (h @ [?f])" "log_size l1 = log_size l" "log_tail_wait l1 = log_tail_wait l" "log_mutex l1 = m"
    using LogEventNoLock_history[OF hist(1), of "firing_event ts ns i"] by simp metis
  have "i \<noteq> - 1" unfolding i_def
    using slot_of_not_minus1[OF unat64_less] log_wf_size inv by (simp add: claims_inv_def log_history_def)
  moreover have "log_seq_no l \<noteq> 0" using hist(2) len by (simp add: word_unat_eq_iff unat_of_nat take_bit_nat_eq_self del: of_nat_Suc)
  moreover let ?l' = "l1\<lparr>log_last_checked := i, log_mutex := log_mutex l\<rparr>"
  let ?c' = "map (node_of (unat (log_size l))) (take j (drop (Suc k) (triggers h)))"
  have "tl (map (node_of (unat (log_size l))) (take (Suc j) (drop k (triggers h)))) = ?c'"
    using k by (simp add: map_tl[symmetric] tl_take tl_drop drop_Suc)
  ultimately have "forker_claim ts ns l c = Ret (Some i, ?l', ?c')"
    using m pick l1(1,5) futex.bracket[OF m] by (simp add: forker_claim_def Let_def)
  moreover have "claims_inv B ?l' ?c' (h @ [?f]) (Suc k)"
    using l1 len by (intro claims_inv_fired[OF inv k]) (simp_all add: i_def firing_event_def EventCreate_def)
  moreover have "\<not> is_trigger ?f" by (simp add: is_trigger_def firing_event_def EventCreate_def)
  ultimately show ?thesis using that l1 by simp
qed

text \<open>Logging a trigger.\<close>

lemma claims_inv_logged:
  assumes inv: "claims_inv B l c h k" and l': "log_history l' (h @ [e])" "log_size l' = log_size l"
      "log_last_checked l' = log_last_checked l"
    and e: "is_trigger e" and len: "Suc (length h) < 2 ^ 64" and B: "Suc (length (triggers h)) \<le> k + B"
  shows "claims_inv B l' c (h @ [e]) k"
proof -
  let ?n = "unat (log_size l)" and ?t = "triggers h"
  have tr: "triggers (h @ [e]) = ?t @ [e]" using e by simp
  have k: "k \<le> length ?t" "length h = length ?t + k"
    and lc: "log_last_checked l = (if k = 0 then - 1 else slot_of ?n (?t ! (k - 1)))"
    and c: "\<exists>m. c = map (node_of ?n) (take m (drop k ?t))"
    and fired: "\<forall>a\<in>set h. ev_type a = Some TRIGGER_FIRING \<longrightarrow> unat (ev_cause_seq_no a) \<le> last_claim h k"
    and low: "\<forall>j<length ?t. 2 * Suc j \<le> unat (ev_seq_no (?t ! j)) + B"
    using inv unfolding claims_inv_def by blast+
  have seq: "unat (ev_seq_no e) = Suc (length h)"
    using l'(1) numbered_seq[of "h @ [e]" "length h"] len by (simp add: log_history_def)
  have at: "(?t @ [e]) ! j = ?t ! j" if "j < length ?t" for j using that by (simp add: nth_append)
  have take: "\<exists>m'. take m (drop k ?t) = take m' (drop k (?t @ [e]))" for m
    using k(1) by (intro exI[of _ "min m (length ?t - k)"]) (cases "m \<le> length ?t - k", simp_all)
  have "\<exists>m. c = map (node_of ?n) (take m (drop k (?t @ [e])))" using c take by metis
  moreover have last: "last_claim (h @ [e]) k = last_claim h k"
    using k(1) at[of "k - 1"] unfolding last_claim_def tr by (cases k) simp_all
  moreover have "\<forall>j<Suc (length ?t). 2 * Suc j \<le> unat (ev_seq_no ((?t @ [e]) ! j)) + B"
    using low at seq k(2) B by (simp add: All_less_Suc)
  moreover have "\<forall>a\<in>set (h @ [e]). ev_type a = Some TRIGGER_FIRING \<longrightarrow> unat (ev_cause_seq_no a) \<le> last_claim h k"
    using fired e by (simp add: is_trigger_def)
  moreover have "log_last_checked l' = (if k = 0 then - 1 else slot_of ?n ((?t @ [e]) ! (k - 1)))"
    using lc k(1) l'(3) at[of "k - 1"] by (cases k) simp_all
  ultimately show ?thesis using k l'(1,2) unfolding claims_inv_def tr last by simp
qed

section \<open>Runs of the dispatcher\<close>

lemma logged_append [simp]: "logged (tr @ tr') = logged tr @ logged tr'"
  by (induction tr rule: logged.induct) simp_all

lemma claimed_append [simp]: "claimed (tr @ tr') = claimed tr @ claimed tr'"
  by (induction tr rule: claimed.induct) simp_all

text \<open>
  Every logged trigger that is not yet claimed is accounted for: its appender is about to post, the
  semaphore holds its unit, or a forker took the unit.
\<close>

definition run_inv :: "nat \<Rightarrow> u64 \<Rightarrow> dispatch_label list \<Rightarrow> dispatcher \<Rightarrow> EVENT list \<Rightarrow> bool" where
  "run_inv B sz tr s h \<longleftrightarrow> claims_inv B (ds_log s) (ds_cache s) h (length (claimed tr))
     \<and> triggers h = logged tr \<and> claimed tr = take (length (claimed tr)) (logged tr) \<and> Idle \<notin> set tr
     \<and> log_size (ds_log s) = sz \<and> sem_val (log_mutex (ds_log s)) = 1 \<and> 0 \<le> sem_val (log_tail_wait (ds_log s))
     \<and> int (backlog tr) = int (ds_posting s) + sem_val (log_tail_wait (ds_log s)) + int (ds_awake s)
     \<and> length h \<le> length tr"

lemma run_inv_claims:
  assumes "run_inv B sz tr s h"
  shows "length (claimed tr) \<le> length (logged tr)" "length h = length (logged tr) + length (claimed tr)"
    "length (logged tr) = length (claimed tr) + backlog tr"
proof -
  show le: "length (claimed tr) \<le> length (logged tr)" "length h = length (logged tr) + length (claimed tr)"
    using assms unfolding run_inv_def claims_inv_def by auto
  then show "length (logged tr) = length (claimed tr) + backlog tr" by (simp add: backlog_def)
qed

lemma run_inv_new:
  assumes "LogCreate True f h sz = Ret (Some log)" "0 < sz" "log_fits sz"
  shows "run_inv B sz [] (new_dispatcher log) []"
proof -
  have "log_wf log \<and> log_view log = [] \<and> log_size log = sz" using log_create_wf[OF assms(2,3,1)] .
  moreover have "log_seq_no log = 1" "log_head log = 0" "log_last_checked log = - 1" "sem_val (log_mutex log) = 1"
    "sem_val (log_tail_wait log) = 0"
    using log_create_fields[OF assms(1)] by auto
  ultimately show ?thesis
    by (simp add: run_inv_def claims_inv_def log_history_def numbered_def new_dispatcher_def last_claim_def backlog_def)
qed

text \<open>A forker that was woken up finds a trigger.\<close>

lemma run_claim:
  assumes inv: "run_inv B sz tr s h" and aw: "0 < ds_awake s" and B: "backlog tr \<le> B" "2 * B < unat sz"
    and sz: "unat sz < 2 ^ 31" and len: "Suc (length tr) < 2 ^ 63"
  defines "k \<equiv> length (claimed tr)"
  obtains i l' c' f where "forker_claim ts ns (ds_log s) (ds_cache s) = Ret (Some i, l', c')"
    "ev_at (ds_log s) i = Ret (logged tr ! k)" "claims_inv B l' c' (h @ [f]) (Suc k)" "\<not> is_trigger f"
    "log_size l' = sz" "log_tail_wait l' = log_tail_wait (ds_log s)" "log_mutex l' = log_mutex (ds_log s)"
    "k < length (logged tr)"
proof -
  note r = run_inv_claims[OF inv]
  have ci: "claims_inv B (ds_log s) (ds_cache s) h k" and tr: "triggers h = logged tr"
    and size: "log_size (ds_log s) = sz" and mu: "0 < sem_val (log_mutex (ds_log s))" and "length h \<le> length tr"
    and cnt: "int (backlog tr) = int (ds_posting s) + sem_val (log_tail_wait (ds_log s)) + int (ds_awake s)"
      "0 \<le> sem_val (log_tail_wait (ds_log s))"
    using inv by (auto simp: run_inv_def k_def)
  have k: "k < length (triggers h)" using cnt aw r(3) tr by (simp add: k_def)
  have len': "Suc (length h) < 2 ^ 63" "length h < 2 ^ 64" using len \<open>length h \<le> length tr\<close> by simp_all
  have win: "length h < last_claim h k + unat (log_size (ds_log s))"
    using claim_window[OF ci] r B size tr by (simp add: k_def)
  have sz': "unat (log_size (ds_log s)) < 2 ^ 31" using sz size by simp
  show ?thesis
    using forker_claim_ok[OF ci mu k len'(1) win sz', of ts ns] claim_not_overwritten[OF ci k len'(2) win] that k tr size
    by metis
qed

inductive_cases dispatch_stepE: "dispatch_step ns s x s'"
inductive_cases dispatch_run_snocE: "dispatch_run ns s0 (tr @ [x]) s'"

lemma is_trigger_seq_no [simp]: "is_trigger (e\<lparr>ev_seq_no := n\<rparr>) = is_trigger e"
  by (simp add: is_trigger_def)

lemma run_inv_log:
  assumes inv: "run_inv B sz tr s h" and e: "ev_type e = Some TRIGGER"
    and log: "LogEvent (Some (ds_log s)) e = Ret (ls, Some l)"
    and B: "backlog (tr @ [Logged (e\<lparr>ev_seq_no := ls\<rparr>)]) \<le> B" and len: "Suc (length tr) < 2 ^ 63"
  shows "run_inv B sz (tr @ [Logged (e\<lparr>ev_seq_no := ls\<rparr>)]) (s\<lparr>ds_log := l, ds_posting := Suc (ds_posting s)\<rparr>) (h @ [e\<lparr>ev_seq_no := ls\<rparr>])"
proof -
  let ?k = "length (claimed tr)" and ?e = "e\<lparr>ev_seq_no := ls\<rparr>"
  note r = run_inv_claims[OF inv]
  have ci: "claims_inv B (ds_log s) (ds_cache s) h ?k" and hist: "log_history (ds_log s) h"
    and mu: "0 < sem_val (log_mutex (ds_log s))"
    using inv by (auto simp: run_inv_def claims_inv_def)
  obtain l' where l': "LogEvent (Some (ds_log s)) e = Ret (log_seq_no (ds_log s), Some l')"
    "log_history l' (h @ [e\<lparr>ev_seq_no := log_seq_no (ds_log s)\<rparr>])" "log_size l' = log_size (ds_log s)"
    "log_last_checked l' = log_last_checked (ds_log s)" "log_tail_wait l' = log_tail_wait (ds_log s)"
    "log_mutex l' = log_mutex (ds_log s)"
    by (rule LogEvent_history[OF hist mu])
  have [simp]: "l' = l" "ls = log_seq_no (ds_log s)" using log l'(1) by simp_all
  have t: "is_trigger e" using e by (simp add: is_trigger_def)
  have "Suc (length (triggers h)) \<le> ?k + B" using B inv r(1) by (simp add: backlog_def run_inv_def)
  moreover have "Suc (length h) < 2 ^ 64" using len inv by (simp add: run_inv_def)
  ultimately have "claims_inv B l (ds_cache s) (h @ [?e]) ?k"
    using l' by (intro claims_inv_logged[OF ci]) (simp_all add: t)
  then show ?thesis using inv l' t r(1) by (simp add: run_inv_def backlog_def Suc_diff_le)
qed

lemma run_inv_post:
  assumes inv: "run_inv B sz tr s h" and n: "ds_posting s = Suc n" and B: "backlog tr \<le> B" "2 * B < unat sz" "unat sz < 2 ^ 31"
  shows "run_inv B sz (tr @ [Posted]) (s\<lparr>ds_log := log_post (ds_log s), ds_posting := n\<rparr>) h"
proof -
  have "sem_val (log_tail_wait (ds_log s)) < 2 ^ 31 - 1" using inv n B by (simp add: run_inv_def)
  then have "sem_val (sem_V (log_tail_wait (ds_log s))) = sem_val (log_tail_wait (ds_log s)) + 1" by (rule futex.up_units)
  then show ?thesis using inv n by (simp add: run_inv_def log_post_def backlog_def)
qed

lemma run_inv_wake:
  assumes inv: "run_inv B sz tr s h" and t: "sem_P (log_tail_wait (ds_log s)) = Ret t"
  shows "run_inv B sz (tr @ [Woken]) (s\<lparr>ds_log := (ds_log s)\<lparr>log_tail_wait := t\<rparr>, ds_awake := Suc (ds_awake s)\<rparr>) h"
  using inv t by (simp add: run_inv_def backlog_def futex.down_Ret_iff)

lemma run_inv_claimed:
  assumes inv: "run_inv B sz tr s h" and n: "ds_awake s = Suc n"
    and c: "claims_inv B l c (h @ [f]) (Suc (length (claimed tr)))" "\<not> is_trigger f" "log_size l = sz"
      "log_tail_wait l = log_tail_wait (ds_log s)" "log_mutex l = log_mutex (ds_log s)"
    and k: "length (claimed tr) < length (logged tr)"
  shows "run_inv B sz (tr @ [Claimed (logged tr ! length (claimed tr))]) (s\<lparr>ds_log := l, ds_cache := c, ds_awake := n\<rparr>) (h @ [f])"
  using assms by (simp add: run_inv_def backlog_def take_Suc_conv_app_nth)

lemma run_inv_step:
  assumes inv: "run_inv B sz tr s h" and step: "dispatch_step ns s x s'"
    and B: "backlog tr \<le> B" "backlog (tr @ [x]) \<le> B" "2 * B < unat sz" "unat sz < 2 ^ 31" and len: "Suc (length tr) < 2 ^ 63"
  shows "\<exists>h'. run_inv B sz (tr @ [x]) s' h'"
  using step
proof (cases rule: dispatch_step.cases)
  case (log_trigger e ls l)
  then show ?thesis using run_inv_log[OF inv _ _ _ len, of e ls l] B by blast
next
  case (post n)
  then show ?thesis using run_inv_post[OF inv _ B(1,3,4)] by blast
next
  case (wake t)
  then show ?thesis using run_inv_wake[OF inv] by blast
next
  case (claim n ts i l c e)
  then obtain i' l' c' f where "forker_claim ts ns (ds_log s) (ds_cache s) = Ret (Some i', l', c')"
    "ev_at (ds_log s) i' = Ret (logged tr ! length (claimed tr))" "claims_inv B l' c' (h @ [f]) (Suc (length (claimed tr)))"
    "\<not> is_trigger f" "log_size l' = sz" "log_tail_wait l' = log_tail_wait (ds_log s)" "log_mutex l' = log_mutex (ds_log s)"
    "length (claimed tr) < length (logged tr)"
    using run_claim[OF inv _ B(1,3,4) len, of ts ns] by auto
  then show ?thesis using claim run_inv_claimed[OF inv, of n l c f] by auto
next
  case (idle n ts l c)
  then show ?thesis using run_claim[OF inv _ B(1,3,4) len, of ts ns] by auto
qed

lemma run_inv_run:
  assumes "dispatch_run ns s0 tr s" "run_inv B sz [] s0 []" "\<forall>n\<le>length tr. backlog (take n tr) \<le> B" "2 * B < unat sz"
    "unat sz < 2 ^ 31" "length tr < 2 ^ 63"
  shows "\<exists>h. run_inv B sz tr s h"
  using assms
proof (induction rule: dispatch_run.induct)
  case start
  then show ?case by blast
next
  case (step tr s x s')
  have "\<forall>n\<le>length tr. backlog (take n tr) \<le> B"
  proof (intro allI impI)
    fix n assume "n \<le> length tr"
    then show "backlog (take n tr) \<le> B" using step.prems(2) by (auto dest: spec[of _ n])
  qed
  then obtain h where h: "run_inv B sz tr s h" using step by auto
  have "backlog tr \<le> B" "backlog (tr @ [x]) \<le> B"
    using step.prems(2) by (auto dest: spec[of _ "length tr"] spec[of _ "Suc (length tr)"])
  then show ?case using run_inv_step[OF h step.hyps(2)] step.prems by simp
qed

lemma run_of_new:
  assumes "LogCreate True f h sz = Ret (Some log)" "unat sz < 2 ^ 31" "dispatch_run ns (new_dispatcher log) tr s"
    "\<forall>n\<le>length tr. backlog (take n tr) \<le> B" "2 * B < unat sz" "length tr < 2 ^ 63"
  shows "\<exists>hist. run_inv B sz tr s hist"
proof -
  have "0 < sz" using assms(5) by (simp add: word_less_nat_alt)
  moreover have "log_fits sz" using assms(2) by (simp add: log_fits_def)
  ultimately show ?thesis using run_inv_run[OF assms(3) run_inv_new[OF assms(1)] assms(4,5,2,6)] by blast
qed

text \<open>A run in which one trigger is logged and claimed.\<close>

definition demo_trigger :: EVENT where
  "demo_trigger = (EventCreate (0, 0) TRIGGER 7)\<lparr>ev_seq_no := 1\<rparr>"

lemma demo_run:
  "\<exists>log s. LogCreate True None 7 4 = Ret (Some log) \<and> ds_awake s = 1
    \<and> dispatch_run idle_ns (new_dispatcher log) [Logged demo_trigger, Posted, Woken] s"
proof -
  obtain log where log: "LogCreate True None 7 4 = Ret (Some log)"
    using LogCreate_returns[of 4] by (auto simp: log_fits_def)
  let ?s0 = "new_dispatcher log" and ?e = "EventCreate (0, 0) TRIGGER 7"
  have wf: "log_wf log" using log_create_wf[OF _ _ log] by (simp add: log_fits_def)
  have f: "log_seq_no log = 1" "sem_val (log_mutex log) = 1" "log_tail_wait log = \<lparr>sema_value = 0\<rparr>"
    using log_create_fields[OF log] by auto
  obtain l where l: "LogEvent (Some log) ?e = Ret (1, Some l)" "log_tail_wait l = \<lparr>sema_value = 0\<rparr>"
    using LogEvent_ok[OF wf, of ?e] f by auto
  define s1 where "s1 = ?s0\<lparr>ds_log := l, ds_posting := 1\<rparr>"
  define s2 where "s2 = s1\<lparr>ds_log := log_post l, ds_posting := 0\<rparr>"
  define s3 where "s3 = s2\<lparr>ds_log := (log_post l)\<lparr>log_tail_wait := \<lparr>sema_value = 0\<rparr>\<rparr>, ds_awake := 1\<rparr>"
  have d: "ev_type ?e = Some TRIGGER" "ds_log ?s0 = log" "ds_posting ?s0 = 0" "ds_awake ?s0 = 0"
    by (simp_all add: EventCreate_def new_dispatcher_def)
  have 1: "dispatch_step idle_ns ?s0 (Logged demo_trigger) s1"
    using dispatch_step.log_trigger[of ?e ?s0 1 l idle_ns] l d by (simp add: s1_def demo_trigger_def)
  have 2: "dispatch_step idle_ns s1 Posted s2"
    using dispatch_step.post[of s1 0 idle_ns] by (simp add: s1_def s2_def)
  have "sem_P (log_tail_wait (log_post l)) = Ret \<lparr>sema_value = 0\<rparr>"
    using l(2) futex.up_down[of "\<lparr>sema_value = 0\<rparr>"] by (simp add: log_post_def)
  then have 3: "dispatch_step idle_ns s2 Woken s3"
    using dispatch_step.wake[of s2 "\<lparr>sema_value = 0\<rparr>" idle_ns] d by (simp add: s1_def s2_def s3_def)
  have "dispatch_run idle_ns ?s0 ((([] @ [Logged demo_trigger]) @ [Posted]) @ [Woken]) s3"
    by (rule dispatch_run.step[OF dispatch_run.step[OF dispatch_run.step[OF dispatch_run.start 1] 2] 3])
  then show ?thesis using log by (intro exI[of _ log] exI[of _ s3]) (simp add: s3_def)
qed

lemma demo_backlog:
  "\<forall>n\<le>3. backlog (take n [Logged demo_trigger, Posted, Woken]) \<le> 1"
  "\<forall>n\<le>4. backlog (take n [Logged demo_trigger, Posted, Woken, Claimed demo_trigger]) \<le> 1"
  by (auto simp: backlog_def le_Suc_eq numeral_eq_Suc)

lemma demo_claimed:
  "\<exists>log s. LogCreate True None 7 4 = Ret (Some log) \<and> ds_posting s = 0
    \<and> dispatch_run idle_ns (new_dispatcher log) [Logged demo_trigger, Posted, Woken, Claimed demo_trigger] s"
proof -
  let ?tr = "[Logged demo_trigger, Posted, Woken]"
  obtain log s where log: "LogCreate True None 7 4 = Ret (Some log)" "ds_awake s = 1"
    "dispatch_run idle_ns (new_dispatcher log) ?tr s"
    using demo_run by blast
  obtain h where h: "run_inv 1 4 ?tr s h" using run_of_new[OF log(1) _ log(3), of 1] demo_backlog(1) by auto
  then have p: "ds_posting s = 0" using log(2) by (auto simp: run_inv_def backlog_def)
  obtain i l c where c: "forker_claim (0, 0) idle_ns (ds_log s) (ds_cache s) = Ret (Some i, l, c)"
    "ev_at (ds_log s) i = Ret (logged ?tr ! length (claimed ?tr))"
    by (rule run_claim[OF h, of "(0, 0)" idle_ns]) (simp_all add: log(2) backlog_def)
  have "dispatch_step idle_ns s (Claimed demo_trigger) (s\<lparr>ds_log := l, ds_cache := c, ds_awake := 0\<rparr>)"
    using dispatch_step.claim[of s 0 "(0, 0)" idle_ns i l c demo_trigger] c log(2) by simp
  from dispatch_run.step[OF log(3) this] show ?thesis
    using log(1) p by (intro exI[of _ log] exI[of _ "s\<lparr>ds_log := l, ds_cache := c, ds_awake := 0\<rparr>"]) simp
qed

section \<open>Properties\<close>

text \<open>C4: every trigger is claimed exactly once and in the order of logging. In every interleaving of
  appenders and forkers on a new namespace log in which the number of unclaimed triggers stays
  below half of the log, however often the log wraps, the claimed triggers are a prefix of the
  logged ones, no forker wakes up in vain, and every unclaimed trigger is accounted for by an
  appender about to post, a unit of the semaphore or a forker that is awake.\<close>

theorem triggers_claimed_in_order:
  assumes "LogCreate True f h sz = Ret (Some log)" "unat sz < 2 ^ 31" "dispatch_run ns (new_dispatcher log) tr s"
    "\<forall>n\<le>length tr. backlog (take n tr) \<le> B" "2 * B < unat sz" "length tr < 2 ^ 63"
  shows "claimed tr = take (length (claimed tr)) (logged tr) \<and> Idle \<notin> set tr
    \<and> int (length (logged tr)) = int (length (claimed tr)) + int (ds_posting s)
        + sem_val (log_tail_wait (ds_log s)) + int (ds_awake s)"
proof -
  obtain hist where inv: "run_inv B sz tr s hist" using run_of_new[OF assms] by blast
  then show ?thesis using run_inv_claims(3)[OF inv] by (simp add: run_inv_def)
qed

theorem triggers_claimed_in_order_witness:
  "\<exists>log s. LogCreate True None 7 4 = Ret (Some log)
    \<and> dispatch_run idle_ns (new_dispatcher log) [Logged demo_trigger, Posted, Woken, Claimed demo_trigger] s
    \<and> sem_val (log_tail_wait (ds_log s)) + int (ds_awake s) = 0"
proof -
  obtain log s where log: "LogCreate True None 7 4 = Ret (Some log)" "ds_posting s = 0"
    "dispatch_run idle_ns (new_dispatcher log) [Logged demo_trigger, Posted, Woken, Claimed demo_trigger] s"
    using demo_claimed by blast
  show ?thesis using triggers_claimed_in_order[OF log(1) _ log(3), of 1] log demo_backlog(2) by auto
qed

text \<open>C15: a forker that was woken up claims the oldest unclaimed trigger. In every state that such a
  run reaches, its round ends, finds that trigger, still holding the event that was logged, in the
  log, and logs its firing.\<close>

theorem woken_forker_claims:
  assumes "LogCreate True f h sz = Ret (Some log)" "unat sz < 2 ^ 31" "dispatch_run ns (new_dispatcher log) tr s"
    "\<forall>n\<le>length tr. backlog (take n tr) \<le> B" "2 * B < unat sz" "Suc (length tr) < 2 ^ 63" "0 < ds_awake s"
  shows "length (claimed tr) < length (logged tr)
    \<and> (\<exists>s'. dispatch_step ns s (Claimed (logged tr ! length (claimed tr))) s')"
proof -
  obtain n where n: "ds_awake s = Suc n" using assms(7) gr0_conv_Suc by blast
  have len: "length tr < 2 ^ 63" using assms(6) by simp
  obtain hist where inv: "run_inv B sz tr s hist" using run_of_new[OF assms(1-5) len] by blast
  have "backlog tr \<le> B" using assms(4) by auto
  then obtain i l c where "forker_claim (0, 0) ns (ds_log s) (ds_cache s) = Ret (Some i, l, c)"
    "ev_at (ds_log s) i = Ret (logged tr ! length (claimed tr))" "length (claimed tr) < length (logged tr)"
    using run_claim[OF inv assms(7) _ assms(5,2,6), of "(0, 0)" ns] by metis
  then show ?thesis using dispatch_step.claim[OF n] by blast
qed

theorem woken_forker_claims_witness:
  "\<exists>log s s'. LogCreate True None 7 4 = Ret (Some log)
    \<and> dispatch_run idle_ns (new_dispatcher log) [Logged demo_trigger, Posted, Woken] s
    \<and> dispatch_step idle_ns s (Claimed demo_trigger) s'"
proof -
  obtain log s where log: "LogCreate True None 7 4 = Ret (Some log)" "ds_awake s = 1"
    "dispatch_run idle_ns (new_dispatcher log) [Logged demo_trigger, Posted, Woken] s"
    using demo_run by blast
  show ?thesis using woken_forker_claims[OF log(1) _ log(3), of 1] log demo_backlog(1) by auto
qed

end
