(* ===== verification/C_Strings.thy ===== *)
theory C_Strings
  imports Cspot_Prelude
begin

text \<open>
  Strings as the protocol carries them: NUL-terminated bytes in a frame, and numbers printed in
  decimal by \<^verbatim>\<open>std::to_string\<close> and read back by \<^verbatim>\<open>strtoul\<close>. A C string that is read from a
  buffer without a terminator runs past the buffer: a fault.
\<close>

section \<open>Characters and bytes\<close>

definition char_of_byte :: "u8 \<Rightarrow> char" where
  "char_of_byte b = char_of (unat b)"

definition byte_of_char :: "char \<Rightarrow> u8" where
  "byte_of_char c = of_nat (of_char c)"

definition NUL :: char where "NUL = CHR 0x00"

text \<open>A string with its terminator, as \<^verbatim>\<open>strlen(s) + 1\<close> bytes are copied into a frame.\<close>

definition c_bytes :: "string \<Rightarrow> bytes" where
  "c_bytes s = map byte_of_char s @ [0]"

fun c_string :: "bytes \<Rightarrow> string run" where
  "c_string [] = Fault"
| "c_string (b # bs) = (if b = 0 then Ret [] else run_bind (c_string bs) (\<lambda>s. Ret (char_of_byte b # s)))"

lemma char_of_byte_inverse [simp]: "char_of_byte (byte_of_char c) = c"
proof -
  have "of_char c < (256 :: nat)" by (metis of_char_mod_256 mod_less_divisor zero_less_numeral)
  then show ?thesis by (simp add: char_of_byte_def byte_of_char_def unat_of_nat take_bit_nat_eq_self)
qed

lemma byte_of_char_inverse [simp]: "byte_of_char (char_of_byte b) = b"
  using unsigned_less[of b, where 'a = nat] by (simp add: char_of_byte_def byte_of_char_def of_char_of)

lemma byte_of_char_0 [simp]: "byte_of_char c = 0 \<longleftrightarrow> c = NUL"
proof
  assume "byte_of_char c = 0"
  then have "c = char_of_byte 0" using char_of_byte_inverse[of c] by simp
  then show "c = NUL" by (simp add: char_of_byte_def NUL_def char_of_def)
qed (simp add: byte_of_char_def NUL_def)

lemma c_string_c_bytes: "NUL \<notin> set s \<Longrightarrow> c_string (c_bytes s @ rest) = Ret s"
  by (induction s) (auto simp: c_bytes_def)

lemma c_string_frame [simp]: "NUL \<notin> set s \<Longrightarrow> c_string (c_bytes s) = Ret s"
  using c_string_c_bytes[of s "[]"] by simp

lemma c_string_no_NUL: "c_string bs = Ret s \<Longrightarrow> NUL \<notin> set s"
proof (induction bs arbitrary: s)
  case (Cons b bs)
  have "char_of_byte b = NUL \<Longrightarrow> b = 0" by (metis byte_of_char_0 byte_of_char_inverse)
  then show ?case using Cons by (auto simp: run_bind_Ret_iff split: if_splits)
qed simp

lemma length_c_bytes [simp]: "length (c_bytes s) = Suc (length s)"
  by (simp add: c_bytes_def)

lemma c_bytes_not_Nil [simp]: "c_bytes s \<noteq> []"
  by (simp add: c_bytes_def)

section \<open>Searching\<close>

text \<open>\<^verbatim>\<open>strstr\<close>, as a truth value, and \<^verbatim>\<open>strncmp(s, p, strlen(p)) == 0\<close>.\<close>

fun starts_with :: "string \<Rightarrow> string \<Rightarrow> bool" where
  "starts_with s [] = True"
| "starts_with [] (p # ps) = False"
| "starts_with (c # s) (p # ps) = (c = p \<and> starts_with s ps)"

fun strstr :: "string \<Rightarrow> string \<Rightarrow> bool" where
  "strstr [] p = starts_with [] p"
| "strstr (c # s) p = (starts_with (c # s) p \<or> strstr s p)"

lemma starts_with_iff: "starts_with s p \<longleftrightarrow> (\<exists>t. s = p @ t)"
  by (induction s p rule: starts_with.induct) auto

lemma strstr_iff: "strstr s p \<longleftrightarrow> (\<exists>u v. s = u @ p @ v)"
proof (induction s)
  case Nil
  then show ?case by (cases p) auto
next
  case (Cons c s)
  show ?case
  proof
    assume "strstr (c # s) p"
    then show "\<exists>u v. c # s = u @ p @ v" using Cons by (auto simp: starts_with_iff) (metis append_Cons append_Nil)+
  next
    assume "\<exists>u v. c # s = u @ p @ v"
    then obtain u v where uv: "c # s = u @ p @ v" by blast
    show "strstr (c # s) p"
    proof (cases u)
      case Nil
      then have "starts_with (c # s) p" using uv by (auto simp: starts_with_iff)
      then show ?thesis by simp
    next
      case (Cons d u')
      then show ?thesis using uv Cons.IH by auto
    qed
  qed
qed

text \<open>The byte at an index of a C string: the terminator at the index of its length.\<close>

definition c_at :: "string \<Rightarrow> nat \<Rightarrow> char" where
  "c_at s i = (if i < length s then s ! i else NUL)"

section \<open>Decimal numbers\<close>

definition digit_char :: "nat \<Rightarrow> char" where
  "digit_char d = char_of (48 + d)"

fun decimal :: "nat \<Rightarrow> string" where
  "decimal n = (if n < 10 then [digit_char n] else decimal (n div 10) @ [digit_char (n mod 10)])"

declare decimal.simps [simp del]

text \<open>\<^verbatim>\<open>std::to_string\<close> of an \<^verbatim>\<open>unsigned long\<close>.\<close>

definition to_string :: "u64 \<Rightarrow> string" where
  "to_string w = decimal (unat w)"

definition is_digit :: "char \<Rightarrow> bool" where
  "is_digit c \<longleftrightarrow> 48 \<le> (of_char c :: nat) \<and> (of_char c :: nat) \<le> 57"

definition is_space :: "char \<Rightarrow> bool" where
  "is_space c \<longleftrightarrow> (of_char c :: nat) = 32 \<or> 9 \<le> (of_char c :: nat) \<and> (of_char c :: nat) \<le> 13"

text \<open>The value of the longest prefix of digits, and what follows it.\<close>

fun scan_digits :: "nat \<Rightarrow> string \<Rightarrow> nat \<times> string" where
  "scan_digits acc [] = (acc, [])"
| "scan_digits acc (c # s) = (if is_digit c then scan_digits (10 * acc + (of_char c - 48)) s else (acc, c # s))"

definition scan_sign :: "string \<Rightarrow> bool \<times> string" where
  "scan_sign s = (let t = dropWhile is_space s in
     if c_at t 0 = CHR ''-'' then (True, tl t) else if c_at t 0 = CHR ''+'' then (False, tl t) else (False, t))"

text \<open>\<^verbatim>\<open>strtoul(s, NULL, 10)\<close>: overflow gives \<^verbatim>\<open>ULONG_MAX\<close>, no digits give 0.\<close>

definition strtoul :: "string \<Rightarrow> u64" where
  "strtoul s = (let (neg, t) = scan_sign s; v = fst (scan_digits 0 t) in
     if 2 ^ 64 \<le> v then - 1 else if neg then - of_nat v else of_nat v)"

text \<open>\<^verbatim>\<open>strtol(s, &end, 10)\<close>: the value, kept in the range of \<^verbatim>\<open>long\<close>, and the text at \<open>end\<close>.\<close>

definition strtol :: "string \<Rightarrow> int \<times> string" where
  "strtol s = (let (neg, t) = scan_sign s; (v, rest) = scan_digits 0 t in
     if t = rest then (0, s)
     else (if neg then max (- (2 ^ 63)) (- int v) else min (2 ^ 63 - 1) (int v), rest))"

lemma of_char_digit [simp]: "d < 10 \<Longrightarrow> (of_char (digit_char d) :: nat) = 48 + d"
  by (simp add: digit_char_def of_char_of)

lemma digit_is_digit [simp]: "d < 10 \<Longrightarrow> is_digit (digit_char d)"
  by (simp add: is_digit_def)

lemma scan_digits_append:
  "(\<forall>c\<in>set s. is_digit c) \<Longrightarrow> scan_digits acc (s @ t) = scan_digits (fst (scan_digits acc s)) t"
  by (induction s arbitrary: acc) auto

lemma decimal_digits: "c \<in> set (decimal n) \<Longrightarrow> is_digit c"
  by (induction n rule: decimal.induct) (subst (asm) (2) decimal.simps, auto split: if_splits)

lemma scan_decimal: "scan_digits 0 (decimal n) = (n, [])"
proof (induction n rule: decimal.induct)
  case (1 n)
  show ?case
  proof (cases "n < 10")
    case True
    then show ?thesis by (subst decimal.simps) simp
  next
    case False
    have "scan_digits 0 (decimal n) = scan_digits (n div 10) [digit_char (n mod 10)]"
      using False 1 decimal_digits by (subst decimal.simps) (simp add: scan_digits_append)
    then show ?thesis by simp
  qed
qed

lemma decimal_not_Nil: "decimal n \<noteq> []"
  by (subst decimal.simps) simp

lemma digit_not_special:
  assumes "is_digit c"
  shows "\<not> is_space c" "c \<noteq> CHR ''-''" "c \<noteq> CHR ''+''" "c \<noteq> NUL"
  using assms by (auto simp: is_digit_def is_space_def NUL_def)

lemma scan_sign_decimal: "scan_sign (decimal n @ t) = (False, decimal n @ t)"
proof -
  obtain c s where c: "decimal n = c # s" using decimal_not_Nil by (cases "decimal n") auto
  then have "is_digit c" using decimal_digits[of c n] by simp
  then show ?thesis using digit_not_special by (simp add: scan_sign_def c c_at_def Let_def)
qed

lemma NUL_decimal [simp]: "NUL \<notin> set (decimal n)"
  using decimal_digits digit_not_special(4) by blast

lemma NUL_to_string [simp]: "NUL \<notin> set (to_string w)"
  by (simp add: to_string_def)

lemma strtoul_to_string [simp]: "strtoul (to_string w) = w"
  using scan_sign_decimal[of "unat w" "[]"] scan_decimal[of "unat w"] unsigned_less[of w, where 'a = nat]
  by (simp add: strtoul_def to_string_def)

lemma strtol_decimal: "n < 2 ^ 63 \<Longrightarrow> strtol (decimal n) = (int n, [])"
  using scan_sign_decimal[of n "[]"] scan_decimal[of n] decimal_not_Nil[of n] by (simp add: strtol_def)

lemma length_decimal: "n < 10 ^ k \<Longrightarrow> length (decimal n) \<le> max 1 k"
proof (induction n arbitrary: k rule: decimal.induct)
  case (1 n)
  show ?case
  proof (cases "n < 10")
    case True
    then show ?thesis by (subst decimal.simps) simp
  next
    case False
    then obtain j where j: "k = Suc j" using 1(2) by (cases k) auto
    have "n div 10 < 10 ^ j" using 1(2) j by (simp add: less_mult_imp_div_less mult.commute)
    moreover have "0 < j" using False 1(2) j by (cases j) auto
    ultimately have "length (decimal (n div 10)) \<le> j" using 1(1)[OF False, of j] by simp
    then show ?thesis using False j by (subst decimal.simps) simp
  qed
qed

lemma length_to_string: "length (to_string w) \<le> 20"
proof -
  have "unat w < 2 ^ 64" using unsigned_less[of w, where 'a = nat] by simp
  then have "unat w < 10 ^ 20" by (rule less_le_trans) simp
  from length_decimal[OF this] show ?thesis by (simp add: to_string_def)
qed

section \<open>Texts that are read after they were destroyed\<close>

text \<open>
  In several places the code takes \<^verbatim>\<open>std::to_string(n).c_str()\<close> and reads the text in a later statement,
  when the string object is destroyed. The language does not say what is found there: it is a parameter
  \<open>dead\<close>, from the text that was there to the text that is read. The GNU library keeps strings of up to
  15 characters in the object itself, that is on the stack, and longer ones in memory that is freed.
  \<open>keeps_short\<close> says that the bytes of the former are still there; of the latter nothing is assumed.
\<close>

definition keeps_short :: "(string \<Rightarrow> string) \<Rightarrow> bool" where
  "keeps_short dead \<longleftrightarrow> (\<forall>s. length s \<le> 15 \<longrightarrow> dead s = s)"

lemma dead_decimal: "keeps_short dead \<Longrightarrow> n < 10 ^ 15 \<Longrightarrow> dead (decimal n) = decimal n"
  using length_decimal[of n 15] by (simp add: keeps_short_def)

lemma dead_to_string: "keeps_short dead \<Longrightarrow> unat n < 10 ^ 15 \<Longrightarrow> dead (to_string n) = to_string n"
  unfolding to_string_def by (rule dead_decimal)

lemma dead_u32: "keeps_short dead \<Longrightarrow> dead (decimal (unat (n :: 32 word))) = decimal (unat n)"
  using unsigned_less[of n, where 'a = nat] by (intro dead_decimal) simp_all

end
