(* ===== verification/Watermark.thy ===== *)
theory Watermark
  imports C_Strings
begin

text \<open>
  The check that a handler is a CSPOT program, done before it is started
  (\<open>CheckHandlerWatermarkELF64\<close> of \<^verbatim>\<open>src/src/woofc-forker-helper.cpp\<close>): the section table of the ELF file is
  searched for the section that \<^verbatim>\<open>woofc-shepherd.cpp\<close> puts into every handler. The file is the string of
  its bytes; reading outside of an allocated block is a fault.
\<close>

section \<open>The ELF structures\<close>

text \<open>Little-endian fields of a structure at an offset.\<close>

definition field :: "bytes \<Rightarrow> nat \<Rightarrow> nat \<Rightarrow> nat" where
  "field b off k = of_le_bytes (load b off k)"

record Elf64_Ehdr =
  e_ident :: bytes
  e_shoff :: nat
  e_shentsize :: nat
  e_shnum :: nat
  e_shstrndx :: nat

record Elf64_Shdr =
  sh_name :: nat
  sh_offset :: nat
  sh_size :: nat

definition ehdr_of :: "bytes \<Rightarrow> Elf64_Ehdr" where
  "ehdr_of b = \<lparr>e_ident = take 16 b, e_shoff = field b 40 8, e_shentsize = field b 58 2, e_shnum = field b 60 2,
     e_shstrndx = field b 62 2\<rparr>"

text \<open>Entry \<open>i\<close> of the array of section headers in the block \<open>b\<close>.\<close>

definition shdr_at :: "bytes \<Rightarrow> nat \<Rightarrow> Elf64_Shdr run" where
  "shdr_at b i = (if i * 64 + 64 \<le> length b
     then Ret \<lparr>sh_name = field b (i * 64) 4, sh_offset = field b (i * 64 + 24) 8, sh_size = field b (i * 64 + 32) 8\<rparr>
     else Fault)"

section \<open>The C library\<close>

text \<open>\<^verbatim>\<open>fseek(fp, off, SEEK_SET)\<close> followed by \<^verbatim>\<open>fread\<close> of \<open>k\<close> bytes: \<open>None\<close> when one of them fails.\<close>

definition read_at :: "bytes \<Rightarrow> nat \<Rightarrow> nat \<Rightarrow> bytes option" where
  "read_at file_bytes off k =
     (if 2 ^ 63 \<le> off then None
      else if off + k \<le> length file_bytes \<or> k = 0 then Some (load file_bytes off k) else None)"

text \<open>\<^verbatim>\<open>strcmp(s, t) == 0\<close> for a string in a block: it stops at the first difference.\<close>

fun strcmp_eq :: "bytes \<Rightarrow> string \<Rightarrow> bool run" where
  "strcmp_eq [] t = Fault"
| "strcmp_eq (b # bs) [] = Ret (b = 0)"
| "strcmp_eq (b # bs) (c # t) = (if b = byte_of_char c then strcmp_eq bs t else Ret False)"

section \<open>The check\<close>

definition watermark_section :: string where
  "watermark_section = ''.note.my_codebase''"

text \<open>
  The contents of the section that was found are read and dropped. Its block has room for
  \<^verbatim>\<open>sh_size + 1\<close> bytes, a sum that wraps.
\<close>

definition read_watermark :: "(nat \<Rightarrow> bool) \<Rightarrow> bytes \<Rightarrow> Elf64_Shdr \<Rightarrow> int run" where
  "read_watermark mem f sh =
     (if \<not> mem ((sh_size sh + 1) mod 2 ^ 64) then Ret (- 1)
      else if 2 ^ 63 \<le> sh_offset sh then Ret (- 1)
      else if (sh_size sh + 1) mod 2 ^ 64 < min (sh_size sh) (length f - sh_offset sh) then Fault
      else Ret (if read_at f (sh_offset sh) (sh_size sh) = None then - 1 else 1))"

text \<open>The loop over the sections, with \<open>k\<close> of them left from \<open>i\<close> on.\<close>

fun section_loop :: "(nat \<Rightarrow> bool) \<Rightarrow> bytes \<Rightarrow> bytes \<Rightarrow> bytes \<Rightarrow> nat \<Rightarrow> nat \<Rightarrow> int run" where
  "section_loop mem f shdrs shstrtab 0 i = Ret (- 1)"
| "section_loop mem f shdrs shstrtab (Suc k) i =
     run_bind (shdr_at shdrs i) (\<lambda>sh.
     run_bind (strcmp_eq (drop (sh_name sh) shstrtab) watermark_section) (\<lambda>found.
     if found then read_watermark mem f sh else section_loop mem f shdrs shstrtab k (Suc i)))"

text \<open>
  \<open>CheckHandlerWatermarkELF64\<close>. \<open>files\<close> has the contents of the files that can be opened, \<open>mem\<close> says for
  which sizes \<^verbatim>\<open>malloc\<close> succeeds. The size of the table is a product of type \<^verbatim>\<open>int\<close>; when it is above
  \<^verbatim>\<open>INT_MAX\<close> it becomes a size that no \<^verbatim>\<open>malloc\<close> grants.
\<close>

definition CheckHandlerWatermarkELF64 ::
  "(nat \<Rightarrow> bool) \<Rightarrow> (string \<Rightarrow> bytes option) \<Rightarrow> string option \<Rightarrow> int run" where
  "CheckHandlerWatermarkELF64 mem files handler_name =
     (case handler_name of None \<Rightarrow> Ret 1
      | Some name \<Rightarrow> (case files name of None \<Rightarrow> Ret (- 1)
      | Some f \<Rightarrow> if length f < 64 then Ret (- 1)
        else let ehdr = ehdr_of f; table = e_shentsize ehdr * e_shnum ehdr in
          if take 4 (e_ident ehdr) \<noteq> [0x7f, 0x45, 0x4c, 0x46] then Ret (- 1)
          else if e_ident ehdr ! 4 \<noteq> 2 then Ret (- 1)
          else if e_ident ehdr ! 5 \<noteq> 1 then Ret (- 1)
          else if 2 ^ 31 \<le> table \<or> \<not> mem table then Ret (- 1)
          else if e_shentsize ehdr = 0 \<and> e_shnum ehdr \<noteq> 0 then Ret (- 1)
          else case read_at f (e_shoff ehdr) table of None \<Rightarrow> Ret (- 1)
            | Some shdrs \<Rightarrow>
                run_bind (shdr_at shdrs (e_shstrndx ehdr)) (\<lambda>shstr.
                if \<not> mem (sh_size shstr) then Ret (- 1)
                else case read_at f (sh_offset shstr) (sh_size shstr) of None \<Rightarrow> Ret (- 1)
                  | Some shstrtab \<Rightarrow> section_loop mem f shdrs shstrtab (e_shnum ehdr) 0)))"

definition CheckHandlerWatermark :: "(nat \<Rightarrow> bool) \<Rightarrow> (string \<Rightarrow> bytes option) \<Rightarrow> string option \<Rightarrow> int run" where
  "CheckHandlerWatermark mem files handler_name = CheckHandlerWatermarkELF64 mem files handler_name"

section \<open>Well-formed images\<close>

text \<open>
  The format as the ELF specification describes it: 64-byte entries, the table, the string table and
  every section inside the file, every name a string inside the string table.
\<close>

definition elf_shdr :: "bytes \<Rightarrow> nat \<Rightarrow> Elf64_Shdr" where
  "elf_shdr f i = (let o' = e_shoff (ehdr_of f) + i * 64 in
     \<lparr>sh_name = field f o' 4, sh_offset = field f (o' + 24) 8, sh_size = field f (o' + 32) 8\<rparr>)"

definition elf_strtab :: "bytes \<Rightarrow> bytes" where
  "elf_strtab f = (let sh = elf_shdr f (e_shstrndx (ehdr_of f)) in load f (sh_offset sh) (sh_size sh))"

definition elf_section_name :: "bytes \<Rightarrow> nat \<Rightarrow> string run" where
  "elf_section_name f i = c_string (drop (sh_name (elf_shdr f i)) (elf_strtab f))"

definition elf_wf :: "bytes \<Rightarrow> bool" where
  "elf_wf f \<longleftrightarrow> 64 \<le> length f \<and> length f < 2 ^ 63 \<and> take 6 f = [0x7f, 0x45, 0x4c, 0x46, 2, 1]
     \<and> e_shentsize (ehdr_of f) = 64 \<and> e_shoff (ehdr_of f) + 64 * e_shnum (ehdr_of f) \<le> length f
     \<and> e_shstrndx (ehdr_of f) < e_shnum (ehdr_of f)
     \<and> (\<forall>i<e_shnum (ehdr_of f). sh_offset (elf_shdr f i) + sh_size (elf_shdr f i) \<le> length f
          \<and> elf_section_name f i \<noteq> Fault)"

lemma load_load: "off + k \<le> n \<Longrightarrow> load (load m base n) off k = load m (base + off) k"
  by (simp add: load_def drop_take add.commute min_def)

lemma shdr_at_table:
  assumes "i < n"
  shows "shdr_at (load f off (64 * n)) i = (if off + 64 * n \<le> length f then
    Ret \<lparr>sh_name = field f (off + i * 64) 4, sh_offset = field f (off + i * 64 + 24) 8, sh_size = field f (off + i * 64 + 32) 8\<rparr>
    else shdr_at (load f off (64 * n)) i)"
  using assms by (simp add: shdr_at_def field_def load_load mem_simps add.assoc)

lemma strcmp_eq_c_string:
  "NUL \<notin> set t \<Longrightarrow> c_string bs = Ret s \<Longrightarrow> strcmp_eq bs t = Ret (s = t)"
proof (induction bs t arbitrary: s rule: strcmp_eq.induct)
  case (2 b bs)
  then show ?case by (auto split: if_splits simp: run_bind_Ret_iff)
next
  case (3 b bs c t)
  show ?case
  proof (cases "b = byte_of_char c")
    case True
    then have "b \<noteq> 0" using 3(2) by auto
    then obtain s' where "c_string bs = Ret s'" "s = char_of_byte b # s'" using 3(3) by (auto simp: run_bind_Ret_iff)
    then show ?thesis using True 3(1,2) by simp
  next
    case False
    then have "s \<noteq> c # t" using 3(3) by (auto simp: run_bind_Ret_iff split: if_splits)
    then show ?thesis using False by simp
  qed
qed simp

lemma section_loop_ok:
  assumes "\<And>z. z < 2 ^ 63 \<Longrightarrow> mem z" "length f < 2 ^ 63 - 1"
    "\<And>j. i \<le> j \<Longrightarrow> j < i + k \<Longrightarrow> shdr_at shdrs j = Ret (sh j) \<and> sh_offset (sh j) + sh_size (sh j) \<le> length f
       \<and> c_string (drop (sh_name (sh j)) tab) = Ret (nm j)"
  shows "section_loop mem f shdrs tab k i
    = Ret (if \<exists>j. i \<le> j \<and> j < i + k \<and> nm j = watermark_section then 1 else - 1)"
  using assms(3)
proof (induction k arbitrary: i)
  case (Suc k)
  have i: "shdr_at shdrs i = Ret (sh i)" "sh_offset (sh i) + sh_size (sh i) \<le> length f"
    "c_string (drop (sh_name (sh i)) tab) = Ret (nm i)"
    using Suc.prems[of i] by auto
  have "NUL \<notin> set watermark_section" by (simp add: watermark_section_def NUL_def)
  then have eq: "strcmp_eq (drop (sh_name (sh i)) tab) watermark_section = Ret (nm i = watermark_section)"
    using strcmp_eq_c_string i(3) by simp
  show ?case
  proof (cases "nm i = watermark_section")
    case True
    have "read_watermark mem f (sh i) = Ret 1"
      using i(2) assms(1,2) by (simp add: read_watermark_def read_at_def)
    then show ?thesis using True i eq by (auto intro: exI[of _ i])
  next
    case False
    have "section_loop mem f shdrs tab (Suc k) i = section_loop mem f shdrs tab k (Suc i)" using False i eq by simp
    also have "\<dots> = Ret (if \<exists>j. Suc i \<le> j \<and> j < Suc i + k \<and> nm j = watermark_section then 1 else - 1)"
      by (rule Suc.IH) (use Suc.prems in simp)
    also have "(\<exists>j. Suc i \<le> j \<and> j < Suc i + k \<and> nm j = watermark_section)
        \<longleftrightarrow> (\<exists>j. i \<le> j \<and> j < i + Suc k \<and> nm j = watermark_section)"
      using False by (metis Suc_leD add_Suc_shift le_neq_implies_less not_less_eq_eq less_eq_Suc_le)
    finally show ?thesis .
  qed
qed simp

lemma c_string_not_Blocked: "c_string bs \<noteq> Blocked"
proof (induction bs)
  case (Cons b bs)
  then show ?case by (cases "c_string bs") auto
qed simp

lemma c_string_Ret: "c_string bs \<noteq> Fault \<Longrightarrow> \<exists>s. c_string bs = Ret s"
  using c_string_not_Blocked[of bs] by (cases "c_string bs") auto

text \<open>The block that is read for the table of a well-formed image has the headers of the image.\<close>

lemma elf_table:
  assumes "elf_wf f" "i < e_shnum (ehdr_of f)"
  shows "shdr_at (load f (e_shoff (ehdr_of f)) (64 * e_shnum (ehdr_of f))) i = Ret (elf_shdr f i)"
  using assms shdr_at_table[OF assms(2), of f "e_shoff (ehdr_of f)"] by (simp add: elf_wf_def elf_shdr_def Let_def)

lemma elf_ident:
  assumes "take 6 f = [0x7f, 0x45, 0x4c, 0x46, 2, 1]"
  shows "take 4 (e_ident (ehdr_of f)) = [0x7f, 0x45, 0x4c, 0x46]" "e_ident (ehdr_of f) ! 4 = 2" "e_ident (ehdr_of f) ! 5 = 1"
proof -
  have "take 4 (e_ident (ehdr_of f)) = take 4 (take 6 f)" by (simp add: ehdr_of_def min_def)
  then show "take 4 (e_ident (ehdr_of f)) = [0x7f, 0x45, 0x4c, 0x46]" using assms by simp
  have "e_ident (ehdr_of f) ! i = take 6 f ! i" if "i < 6" for i using that by (simp add: ehdr_of_def)
  then show "e_ident (ehdr_of f) ! 4 = 2" "e_ident (ehdr_of f) ! 5 = 1" using assms by simp_all
qed

lemma field_less: "field b off k < 256 ^ k"
proof -
  have "length (load b off k) \<le> k" by (simp add: load_def)
  then have "(256 :: nat) ^ length (load b off k) \<le> 256 ^ k" by (rule power_increasing) simp
  then show ?thesis using of_le_bytes_less[of "load b off k"] unfolding field_def by linarith
qed

lemma elf_shnum_less: "e_shnum (ehdr_of f) < 2 ^ 16"
  using field_less[of f 60 2] by (simp add: ehdr_of_def)

text \<open>The check on a well-formed image.\<close>

lemma CheckHandlerWatermark_ok:
  assumes "files name = Some f" "elf_wf f" "length f < 2 ^ 63 - 1" "\<And>z. z < 2 ^ 63 \<Longrightarrow> mem z"
  shows "CheckHandlerWatermark mem files (Some name)
    = Ret (if \<exists>i<e_shnum (ehdr_of f). elf_section_name f i = Ret watermark_section then 1 else - 1)"
proof -
  let ?n = "e_shnum (ehdr_of f)" and ?off = "e_shoff (ehdr_of f)" and ?ndx = "e_shstrndx (ehdr_of f)"
  let ?tab = "load f ?off (64 * ?n)" and ?str = "elf_shdr f ?ndx"
  have w: "64 \<le> length f" "e_shentsize (ehdr_of f) = 64" "?off + 64 * ?n \<le> length f" "?ndx < ?n"
    "\<And>i. i < ?n \<Longrightarrow> sh_offset (elf_shdr f i) + sh_size (elf_shdr f i) \<le> length f"
    using assms(2) by (auto simp: elf_wf_def)
  have names: "\<exists>s. elf_section_name f i = Ret s" if "i < ?n" for i
    using assms(2) that c_string_Ret by (auto simp: elf_wf_def elf_section_name_def)
  define nm where "nm i = (SOME s. elf_section_name f i = Ret s)" for i
  have nm: "elf_section_name f i = Ret (nm i)" if "i < ?n" for i
    unfolding nm_def using names[OF that] by (rule someI_ex)
  have str: "read_at f (sh_offset ?str) (sh_size ?str) = Some (elf_strtab f)" "sh_size ?str < 2 ^ 63"
    using w(5)[OF w(4)] assms(3) by (auto simp: read_at_def elf_strtab_def Let_def)
  have loop: "section_loop mem f ?tab (elf_strtab f) ?n 0
      = Ret (if \<exists>j. 0 \<le> j \<and> j < 0 + ?n \<and> nm j = watermark_section then 1 else - 1)"
    by (rule section_loop_ok[OF assms(4) assms(3), where sh = "elf_shdr f"])
      (use elf_table[OF assms(2)] w(5) nm in \<open>auto simp: elf_section_name_def\<close>)
  have "64 * ?n < 2 ^ 31" using elf_shnum_less[of f] by simp
  moreover have "read_at f ?off (64 * ?n) = Some ?tab" using w(3) assms(3) by (simp add: read_at_def)
  ultimately have "CheckHandlerWatermark mem files (Some name) = section_loop mem f ?tab (elf_strtab f) ?n 0"
    using assms(1,2,4) w str elf_ident[of f] elf_table[OF assms(2) w(4)]
    by (simp add: CheckHandlerWatermark_def CheckHandlerWatermarkELF64_def Let_def elf_wf_def)
  then show ?thesis using loop nm by (auto simp: if_splits)
qed

text \<open>The smallest image with the watermark: a header, a string table and a table of two sections.\<close>

definition demo_handler :: bytes where
  "demo_handler = [0x7f, 0x45, 0x4c, 0x46, 2, 1] @ replicate 34 0 @ le_bytes 8 83 @ replicate 10 0
     @ le_bytes 2 64 @ le_bytes 2 2 @ le_bytes 2 0 @ 0 # c_bytes watermark_section
     @ le_bytes 4 0 @ replicate 20 0 @ le_bytes 8 64 @ le_bytes 8 19 @ replicate 24 0
     @ le_bytes 4 1 @ replicate 20 0 @ le_bytes 8 64 @ le_bytes 8 0 @ replicate 24 0"

lemma demo_handler_shape:
  "length demo_handler = 211" "take 6 demo_handler = [0x7f, 0x45, 0x4c, 0x46, 2, 1]"
  "e_shoff (ehdr_of demo_handler) = 83" "e_shentsize (ehdr_of demo_handler) = 64"
  "e_shnum (ehdr_of demo_handler) = 2" "e_shstrndx (ehdr_of demo_handler) = 0"
  "elf_shdr demo_handler 0 = \<lparr>sh_name = 0, sh_offset = 64, sh_size = 19\<rparr>"
  "elf_shdr demo_handler 1 = \<lparr>sh_name = 1, sh_offset = 64, sh_size = 0\<rparr>"
  "elf_section_name demo_handler 0 = Ret []" "elf_section_name demo_handler 1 = Ret watermark_section"
  by code_simp+

lemma demo_handler_wf: "elf_wf demo_handler"
proof -
  have "(\<forall>i<2. P i) \<longleftrightarrow> P 0 \<and> P 1" for P :: "nat \<Rightarrow> bool" by (auto simp: numeral_2_eq_2 All_less_Suc)
  then show ?thesis using demo_handler_shape by (simp add: elf_wf_def)
qed

lemma demo_handler_marked:
  "CheckHandlerWatermark (\<lambda>_. True) [''/home/ns/h'' \<mapsto> demo_handler] (Some ''/home/ns/h'') = Ret 1"
proof -
  have "\<exists>i<e_shnum (ehdr_of demo_handler). elf_section_name demo_handler i = Ret watermark_section"
    using demo_handler_shape by (intro exI[of _ 1]) simp
  then show ?thesis
    using CheckHandlerWatermark_ok[of "[''/home/ns/h'' \<mapsto> demo_handler]" "''/home/ns/h''" demo_handler "\<lambda>_. True"]
      demo_handler_wf demo_handler_shape(1) by simp
qed

section \<open>Properties\<close>

text \<open>C16: the check finds the watermark. On every well-formed ELF image, with enough memory, it ends and
  accepts exactly the images that have a section of the watermark's name.\<close>

theorem watermark_check_iff:
  assumes "files name = Some f" "elf_wf f" "length f < 2 ^ 63 - 1" "\<And>z. z < 2 ^ 63 \<Longrightarrow> mem z"
  shows "CheckHandlerWatermark mem files (Some name)
    = Ret (if \<exists>i<e_shnum (ehdr_of f). elf_section_name f i = Ret watermark_section then 1 else - 1)"
  using assms by (intro CheckHandlerWatermark_ok)

theorem watermark_check_iff_witness:
  "CheckHandlerWatermark (\<lambda>_. True) [''/home/ns/h'' \<mapsto> demo_handler] (Some ''/home/ns/h'') = Ret 1"
proof -
  have "\<exists>i<e_shnum (ehdr_of demo_handler). elf_section_name demo_handler i = Ret watermark_section"
    using demo_handler_shape by (intro exI[of _ 1]) simp
  then show ?thesis
    using watermark_check_iff[of "[''/home/ns/h'' \<mapsto> demo_handler]" "''/home/ns/h''" demo_handler "\<lambda>_. True"]
      demo_handler_wf demo_handler_shape(1) by simp
qed

text \<open>C40: an ELF file without section headers (as left by tools that strip them, or any file with such a
  header) makes the check read outside of its allocated table: the number of sections is zero, and the
  header of the string table is read from the empty table.\<close>

theorem sectionless_handler_faults:
  assumes "files name = Some f" "64 \<le> length f" "take 6 f = [0x7f, 0x45, 0x4c, 0x46, 2, 1]"
    "e_shnum (ehdr_of f) = 0" "e_shoff (ehdr_of f) < 2 ^ 63" "mem 0"
  shows "CheckHandlerWatermark mem files (Some name) = Fault"
  using assms elf_ident[OF assms(3)]
  by (simp add: CheckHandlerWatermark_def CheckHandlerWatermarkELF64_def Let_def read_at_def shdr_at_def load_def)

theorem sectionless_handler_faults_witness:
  "CheckHandlerWatermark (\<lambda>_. True) [''/home/ns/h'' \<mapsto> [0x7f, 0x45, 0x4c, 0x46, 2, 1] @ replicate 58 0] (Some ''/home/ns/h'') = Fault"
proof -
  let ?f = "[0x7f, 0x45, 0x4c, 0x46, 2, 1] @ replicate 58 0 :: bytes"
  have "e_shnum (ehdr_of ?f) = 0" "e_shoff (ehdr_of ?f) = 0" by code_simp+
  then show ?thesis using sectionless_handler_faults[of "[''/home/ns/h'' \<mapsto> ?f]" "''/home/ns/h''" ?f "\<lambda>_. True"] by simp
qed

end
