(* ===== verification/Woof_Names.thy ===== *)
theory Woof_Names
  imports C_Strings
begin

text \<open>
  Names of WooFs (\<^verbatim>\<open>src/src/woofc-access.cpp\<close>, the inline functions of \<^verbatim>\<open>include/woofc-access.h\<close>,
  \<^verbatim>\<open>src/src/net/cmq/common.cpp\<close>, and the hashes at the end of \<^verbatim>\<open>src/src/woofc.cpp\<close>). A URI names a
  host, a port, and a path whose last component is the name of the WooF and whose other components
  are its namespace. The URI parser and the address lookup of the system are the parameter
  \<open>resolver\<close>.
\<close>

section \<open>Parameters\<close>

record uri =
  uri_host :: "string option"
  uri_port :: int
  uri_path :: "string option"

text \<open>
  \<open>rs_parse\<close> is the parser of uriparser2, \<open>None\<close> when it rejects the string; \<open>rs_aton\<close> says whether
  a host is a dotted address; \<open>rs_lookup\<close> gives the addresses of a host name; \<open>rs_ifaddrs\<close> is the list
  of network interfaces with an IPv4 address; \<open>rs_Host_ip\<close> and \<open>rs_WOOFC_IP\<close> are the configured
  address and the environment variable.
\<close>

record resolver =
  rs_parse :: "string \<Rightarrow> uri option"
  rs_aton :: "string \<Rightarrow> bool"
  rs_lookup :: "string \<Rightarrow> string list option"
  rs_ifaddrs :: "(string \<times> string) list"
  rs_Host_ip :: string
  rs_WOOFC_IP :: "string option"

section \<open>URIs\<close>

definition WooFValidURI :: "string \<Rightarrow> bool" where
  "WooFValidURI str \<longleftrightarrow> strstr str ''woof://'' \<or> strstr str ''cmq://'' \<or> strstr str ''zmq://'' \<or> strstr str ''mqtt://''"

text \<open>The path of a URI, or the early returns the functions below share.\<close>

definition uri_path_of :: "resolver \<Rightarrow> string \<Rightarrow> string option" where
  "uri_path_of rs str =
     (if \<not> WooFValidURI str then None
      else case rs_parse rs str of None \<Rightarrow> None | Some u \<Rightarrow> uri_path u)"

definition WooFURINameSpace :: "resolver \<Rightarrow> string \<Rightarrow> nat \<Rightarrow> (int \<times> string) run" where
  "WooFURINameSpace rs str len =
     (case uri_path_of rs str of
        None \<Rightarrow> Ret (- 1, [])
      | Some path \<Rightarrow> if len \<le> length path then Fault else Ret (1, path))"

text \<open>
  The walk back to the last slash. The index is unsigned: on a path without a slash it passes 0
  and the walk leaves the string (\<open>None\<close>).
\<close>

fun last_slash :: "string \<Rightarrow> nat \<Rightarrow> nat option" where
  "last_slash path 0 = (if c_at path 0 = CHR ''/'' then Some 0 else None)"
| "last_slash path (Suc i) = (if c_at path (Suc i) = CHR ''/'' then Some (Suc i) else last_slash path i)"

text \<open>
  \<open>len\<close> is the size of the caller's zeroed buffer. A namespace of exactly \<open>len\<close> characters leaves it
  without a terminator.
\<close>

definition WooFNameSpaceFromURI :: "resolver \<Rightarrow> string \<Rightarrow> nat \<Rightarrow> (int \<times> string) run" where
  "WooFNameSpaceFromURI rs str len =
     (case uri_path_of rs str of
        None \<Rightarrow> Ret (- 1, [])
      | Some path \<Rightarrow>
          (case last_slash path (length path) of
             None \<Rightarrow> Fault
           | Some i \<Rightarrow>
               if i = 0 then Ret (- 1, [])
               else if len < i then Ret (- 1, [])
               else if i = len then Fault
               else Ret (1, take i path)))"

definition WooFNameFromURI :: "resolver \<Rightarrow> string \<Rightarrow> nat \<Rightarrow> (int \<times> string) run" where
  "WooFNameFromURI rs str len =
     (case uri_path_of rs str of
        None \<Rightarrow> Ret (- 1, [])
      | Some path \<Rightarrow>
          if c_at path (length path) = CHR ''/'' then Ret (- 1, [])
          else (case last_slash path (length path) of
             None \<Rightarrow> Fault
           | Some i \<Rightarrow>
               if len < length path - i then Ret (- 1, [])
               else Ret (1, drop (Suc i) path)))"

definition WooFLocalName :: "resolver \<Rightarrow> string \<Rightarrow> nat \<Rightarrow> (int \<times> string) run" where
  "WooFLocalName rs woof_name len = WooFNameFromURI rs woof_name len"

text \<open>Whether the URI names a WooF that holds capabilities: 1, 0, or a negative value on error.\<close>

definition WooFIsCAPName :: "resolver \<Rightarrow> string \<Rightarrow> int run" where
  "WooFIsCAPName rs str =
     run_bind (WooFNameFromURI rs str 4096) (\<lambda>(err, local_name).
     if err < 0 then Ret err
     else if length local_name < 4 then Ret (- 1)
     else let s = drop (length local_name - 4) local_name in
       if s = ''.CAP'' then Ret 1 else if s = ''.cap'' then Ret 1 else Ret 0)"

section \<open>Addresses\<close>

text \<open>The caller's buffer has \<open>len\<close> bytes; a longer address would not be terminated.\<close>

definition copy_addr :: "string \<Rightarrow> nat \<Rightarrow> (int \<times> string) run" where
  "copy_addr a len = (if len \<le> length a then Fault else Ret (1, a))"

definition WooFIPAddrFromURI :: "resolver \<Rightarrow> string \<Rightarrow> nat \<Rightarrow> (int \<times> string) run" where
  "WooFIPAddrFromURI rs str len =
     (if \<not> WooFValidURI str then Ret (- 1, [])
      else case rs_parse rs str of
        None \<Rightarrow> Ret (- 1, [])
      | Some u \<Rightarrow>
          (case uri_host u of
             None \<Rightarrow> Ret (- 1, [])
           | Some host \<Rightarrow>
               if rs_aton rs host then copy_addr host len
               else (case rs_lookup rs host of
                 None \<Rightarrow> Ret (- 1, [])
               | Some [] \<Rightarrow> Ret (- 1, [])
               | Some (a # as) \<Rightarrow> copy_addr a len)))"

definition WooFPortFromURI :: "resolver \<Rightarrow> string \<Rightarrow> int option" where
  "WooFPortFromURI rs str =
     (if \<not> WooFValidURI str then None
      else case rs_parse rs str of
        None \<Rightarrow> None
      | Some u \<Rightarrow> if uri_port u = 0 then None else if uri_port u = - 1 then None else Some (uri_port u))"

text \<open>Without a configured address, the first interface that is not the loopback; without one, \<^verbatim>\<open>exit\<close>.\<close>

definition WooFLocalIP :: "resolver \<Rightarrow> nat \<Rightarrow> (int \<times> string) run" where
  "WooFLocalIP rs len =
     (if rs_Host_ip rs \<noteq> [] then copy_addr (rs_Host_ip rs) len
      else case rs_WOOFC_IP rs of
        Some ip \<Rightarrow> copy_addr ip len
      | None \<Rightarrow>
          (case filter (\<lambda>(ifa_name, a). ifa_name \<noteq> ''lo'') (rs_ifaddrs rs) of
             [] \<Rightarrow> Fault
           | (n, a) # _ \<Rightarrow> copy_addr a len))"

definition ip_from_uri :: "resolver \<Rightarrow> string \<Rightarrow> string option run" where
  "ip_from_uri rs str = run_bind (WooFIPAddrFromURI rs str 25) (\<lambda>(err, ip). Ret (if err < 0 then None else Some ip))"

definition local_ip :: "resolver \<Rightarrow> string option run" where
  "local_ip rs = run_bind (WooFLocalIP rs 25) (\<lambda>(err, ip). Ret (if err < 0 then None else Some ip))"

definition ns_from_uri :: "resolver \<Rightarrow> string \<Rightarrow> string option run" where
  "ns_from_uri rs str = run_bind (WooFNameSpaceFromURI rs str 1024) (\<lambda>(err, s). Ret (if err < 0 then None else Some s))"

definition port_from_uri :: "resolver \<Rightarrow> string \<Rightarrow> u16 option" where
  "port_from_uri rs str = map_option of_int (WooFPortFromURI rs str)"

section \<open>The namespace part of a name, for the keychain\<close>

text \<open>The position of the last slash among the first \<open>len\<close> characters.\<close>

function uri_scan :: "string \<Rightarrow> nat \<Rightarrow> nat \<Rightarrow> nat option \<Rightarrow> nat option" where
  "uri_scan s len i p =
     (if length s \<le> i \<or> c_at s i = NUL then p
      else let p' = (if c_at s i = CHR ''/'' then Some i else p) in
        if len \<le> Suc i then p' else uri_scan s len (Suc i) p')"
  by pat_completeness auto
termination by (relation "measure (\<lambda>(s, len, i, p). length s - i)") auto

declare uri_scan.simps [simp del]

definition WooFNamespaceURI :: "string \<Rightarrow> nat \<Rightarrow> (int \<times> string)" where
  "WooFNamespaceURI woof_name len =
     (case uri_scan woof_name len 0 None of
        None \<Rightarrow> (- 1, [])
      | Some p \<Rightarrow> (1, take p woof_name))"

section \<open>Hashes\<close>

definition WooFNameHash :: "string \<Rightarrow> u64" where
  "WooFNameHash woof_namespace = foldl (\<lambda>h c. h * 33 + ucast (byte_of_char c)) 5381 woof_namespace"

definition WooFPortHash :: "string \<Rightarrow> u32" where
  "WooFPortHash woof_namespace = 50000 + ucast (WooFNameHash woof_namespace mod 10000)"

section \<open>Endpoints\<close>

definition ip_from_woof :: "resolver \<Rightarrow> string \<Rightarrow> string option run" where
  "ip_from_woof rs woof_name =
     run_bind (ns_from_uri rs woof_name) (\<lambda>woof_namespace.
     if woof_namespace = None then Ret None
     else run_bind (ip_from_uri rs woof_name) (\<lambda>ip.
       case ip of Some a \<Rightarrow> Ret (Some a) | None \<Rightarrow> local_ip rs))"

definition port_from_woof :: "resolver \<Rightarrow> string \<Rightarrow> string option run" where
  "port_from_woof rs woof_name =
     run_bind (ns_from_uri rs woof_name) (\<lambda>woof_namespace.
     case woof_namespace of
       None \<Rightarrow> Ret None
     | Some ns \<Rightarrow>
         let port = (case port_from_uri rs woof_name of Some p \<Rightarrow> p | None \<Rightarrow> ucast (WooFPortHash ns))
         in Ret (Some (decimal (unat port))))"

text \<open>The transport that the scheme of a name selects (\<^verbatim>\<open>src/src/net.cpp\<close>).\<close>

definition backend_from_woof :: "string \<Rightarrow> int" where
  "backend_from_woof woof_name =
     (if starts_with woof_name ''woof://'' \<or> starts_with woof_name ''zmq://'' then 1
      else if starts_with woof_name ''cmq://'' then 2
      else if starts_with woof_name ''mqtt://'' then 3
      else - 1)"

section \<open>Splitting a path\<close>

lemma last_slash_back:
  assumes "c_at path i = CHR ''/''" "\<And>j. i < j \<Longrightarrow> j \<le> i + k \<Longrightarrow> c_at path j \<noteq> CHR ''/''"
  shows "last_slash path (i + k) = Some i"
  using assms
proof (induction k)
  case 0
  then show ?case by (cases i) auto
qed auto

lemma last_slash_split:
  assumes "CHR ''/'' \<notin> set name"
  shows "last_slash (ns @ CHR ''/'' # name) (length (ns @ CHR ''/'' # name)) = Some (length ns)"
proof -
  have "c_at (ns @ CHR ''/'' # name) j \<noteq> CHR ''/''" if "length ns < j" for j
  proof (cases "j < length (ns @ CHR ''/'' # name)")
    case True
    then have "(ns @ CHR ''/'' # name) ! j \<in> set name" using that
      by (auto simp: nth_append nth_Cons' intro!: nth_mem)
    then show ?thesis using assms True by (auto simp: c_at_def)
  qed (simp add: c_at_def NUL_def)
  moreover have "c_at (ns @ CHR ''/'' # name) (length ns) = CHR ''/''" by (simp add: c_at_def)
  ultimately show ?thesis using last_slash_back[of "ns @ CHR ''/'' # name" "length ns" "Suc (length name)"] by simp
qed

lemma c_at_end [simp]: "c_at s (length s) = NUL"
  by (simp add: c_at_def)

lemma NUL_not_slash [simp]: "NUL \<noteq> CHR ''/''"
  by (simp add: NUL_def)

text \<open>A URI whose path is \<open>ns/name\<close>.\<close>

definition names_woof :: "resolver \<Rightarrow> string \<Rightarrow> string \<Rightarrow> string \<Rightarrow> bool" where
  "names_woof rs str ns name \<longleftrightarrow> uri_path_of rs str = Some (ns @ CHR ''/'' # name)
     \<and> CHR ''/'' \<notin> set name \<and> NUL \<notin> set name"

lemma names_woof_path:
  assumes "names_woof rs str ns name"
  obtains path where "uri_path_of rs str = Some path" "last_slash path (length path) = Some (length ns)"
    "take (length ns) path = ns" "drop (Suc (length ns)) path = name" "length path - length ns = Suc (length name)"
  using assms last_slash_split[of name ns] that[of "ns @ CHR ''/'' # name"] unfolding names_woof_def by simp

lemma NameFromURI_ok:
  assumes "names_woof rs str ns name" "length name < len"
  shows "WooFNameFromURI rs str len = Ret (1, name)"
  by (rule names_woof_path[OF assms(1)]) (use assms(2) in \<open>simp add: WooFNameFromURI_def\<close>)

lemma NameFromURI_long:
  assumes "names_woof rs str ns name" "len \<le> length name"
  shows "WooFNameFromURI rs str len = Ret (- 1, [])"
  by (rule names_woof_path[OF assms(1)]) (use assms(2) in \<open>simp add: WooFNameFromURI_def\<close>)

lemma NameSpaceFromURI_ok:
  assumes "names_woof rs str ns name" "ns \<noteq> []" "length ns < len"
  shows "WooFNameSpaceFromURI rs str len = Ret (1, ns)"
  by (rule names_woof_path[OF assms(1)]) (use assms(2,3) in \<open>simp add: WooFNameSpaceFromURI_def\<close>)

lemma NameSpaceFromURI_root:
  assumes "names_woof rs str [] name"
  shows "WooFNameSpaceFromURI rs str len = Ret (- 1, [])"
  by (rule names_woof_path[OF assms]) (simp add: WooFNameSpaceFromURI_def)

lemma NameFromURI_not_uri: "\<not> WooFValidURI str \<Longrightarrow> WooFNameFromURI rs str len = Ret (- 1, [])"
  by (simp add: WooFNameFromURI_def uri_path_of_def)

lemma ns_from_uri_not_uri: "\<not> WooFValidURI str \<Longrightarrow> ns_from_uri rs str = Ret None"
  by (simp add: ns_from_uri_def WooFNameSpaceFromURI_def uri_path_of_def)

lemma valid_uri_slash: "WooFValidURI str \<Longrightarrow> CHR ''/'' \<in> set str"
  by (auto simp: WooFValidURI_def strstr_iff)

definition is_cap_name :: "string \<Rightarrow> bool" where
  "is_cap_name name \<longleftrightarrow> (\<exists>s. name = s @ ''.CAP'') \<or> (\<exists>s. name = s @ ''.cap'')"

lemma suffix4: "4 \<le> length name \<Longrightarrow> length t = 4 \<Longrightarrow> drop (length name - 4) name = t \<longleftrightarrow> (\<exists>s. name = s @ t)"
  by (metis append_take_drop_id append_eq_append_conv length_drop diff_diff_cancel)

lemma IsCAPName_ok:
  assumes "names_woof rs str ns name" "length name < 4096"
  shows "WooFIsCAPName rs str = Ret (if length name < 4 then - 1 else if is_cap_name name then 1 else 0)"
  using NameFromURI_ok[OF assms] suffix4[of name "''.CAP''"] suffix4[of name "''.cap''"]
  by (simp add: WooFIsCAPName_def is_cap_name_def Let_def)

lemma uri_scan_no_slash:
  "CHR ''/'' \<notin> set (drop i s) \<Longrightarrow> uri_scan s len i p = p"
proof (induction s len i p rule: uri_scan.induct)
  case (1 s len i p)
  show ?case
  proof (cases "length s \<le> i \<or> c_at s i = NUL")
    case True
    then show ?thesis by (subst uri_scan.simps) simp
  next
    case False
    then have d: "drop i s = c_at s i # drop (Suc i) s" by (simp add: c_at_def Cons_nth_drop_Suc)
    then have "c_at s i \<noteq> CHR ''/''" "CHR ''/'' \<notin> set (drop (Suc i) s)" using 1(2) by auto
    then show ?thesis using False 1(1)[of p] by (subst uri_scan.simps) (simp add: Let_def)
  qed
qed

lemma uri_scan_slash:
  assumes "NUL \<notin> set s" "length s < len" "s = a @ CHR ''/'' # b" "CHR ''/'' \<notin> set b" "i \<le> length a"
  shows "uri_scan s len i p = Some (length a)"
  using assms
proof (induction s len i p rule: uri_scan.induct)
  case (1 s len i p)
  have "i < length s" using 1(2-) by simp
  moreover from this have "c_at s i \<in> set s" by (simp add: c_at_def)
  ultimately have i: "\<not> length s \<le> i" "c_at s i \<noteq> NUL" "\<not> len \<le> Suc i" using 1(2,3) by (simp, metis, simp)
  show ?case
  proof (cases "i = length a")
    case True
    then have "c_at s i = CHR ''/''" "CHR ''/'' \<notin> set (drop (Suc i) s)" using 1(2-) by (simp_all add: c_at_def)
    then show ?thesis using i True by (subst uri_scan.simps) (simp add: uri_scan_no_slash)
  next
    case False
    then show ?thesis using 1 i by (subst uri_scan.simps) (simp add: Let_def)
  qed
qed

lemma NamespaceURI_ok:
  assumes "NUL \<notin> set (a @ CHR ''/'' # b)" "CHR ''/'' \<notin> set b" "length (a @ CHR ''/'' # b) < len"
  shows "WooFNamespaceURI (a @ CHR ''/'' # b) len = (1, a)"
  using uri_scan_slash[OF assms(1,3) refl assms(2), of 0 None] by (simp add: WooFNamespaceURI_def)

section \<open>Properties\<close>

text \<open>A URI path is taken apart the way it is put together. For a URI whose path is
  \<open>ns/name\<close>, the name functions return exactly \<open>name\<close> and \<open>ns\<close> as long as they fit their buffers;
  a name that does not fit is refused, and the root namespace is refused as a namespace.\<close>

theorem uri_split:
  assumes "names_woof rs str ns name"
  shows "WooFNameFromURI rs str len = (if length name < len then Ret (1, name) else Ret (- 1, []))
    \<and> WooFNameSpaceFromURI rs str len' =
        (if ns = [] \<or> len' < length ns then Ret (- 1, []) else if length ns = len' then Fault else Ret (1, ns))"
proof -
  obtain path where "uri_path_of rs str = Some path" "last_slash path (length path) = Some (length ns)"
    "take (length ns) path = ns" "drop (Suc (length ns)) path = name" "length path - length ns = Suc (length name)"
    using names_woof_path[OF assms] .
  then show ?thesis by (auto simp: WooFNameFromURI_def WooFNameSpaceFromURI_def)
qed

definition demo_resolver :: resolver where
  "demo_resolver = \<lparr>rs_parse = (\<lambda>s. Some \<lparr>uri_host = Some ''10.0.0.1'', uri_port = 0, uri_path = Some (drop 15 s)\<rparr>),
     rs_aton = (\<lambda>_. True), rs_lookup = (\<lambda>_. None), rs_ifaddrs = [], rs_Host_ip = ''10.0.0.9'', rs_WOOFC_IP = None\<rparr>"

theorem uri_split_witness:
  "WooFNameFromURI demo_resolver ''woof://10.0.0.1/home/ns/temps'' 1024 = Ret (1, ''temps'')
   \<and> WooFNameSpaceFromURI demo_resolver ''woof://10.0.0.1/home/ns/temps'' 1024 = Ret (1, ''/home/ns'')"
proof -
  have "names_woof demo_resolver ''woof://10.0.0.1/home/ns/temps'' ''/home/ns'' ''temps''"
    by (simp add: names_woof_def uri_path_of_def demo_resolver_def WooFValidURI_def NUL_def)
  from uri_split[OF this, of 1024 1024] show ?thesis by simp
qed

text \<open>C33: the port derived from a namespace is one of 50000 to 59999, and so is the port a client
  uses for a URI without one: client and server agree on it whenever they agree on the namespace.\<close>

theorem port_hash_bounds:
  assumes "names_woof rs str ns name" "ns \<noteq> []" "length ns < 1024" "WooFPortFromURI rs str = None"
  shows "50000 \<le> unat (WooFPortHash ns) \<and> unat (WooFPortHash ns) \<le> 59999
    \<and> port_from_woof rs str = Ret (Some (decimal (unat (WooFPortHash ns))))"
proof -
  let ?m = "WooFNameHash ns mod 10000"
  have m: "unat ?m < 10000" by (simp add: unat_mod_distrib)
  then have c: "unat (ucast ?m :: u32) = unat ?m" by (simp add: unsigned_ucast_eq take_bit_nat_eq_self)
  have h: "unat (WooFPortHash ns) = 50000 + unat ?m"
    using m c unfolding WooFPortHash_def by (subst unat_add_lem[THEN iffD1]) (simp_all)
  then have "unat (ucast (WooFPortHash ns) :: u16) = unat (WooFPortHash ns)"
    using m by (simp add: unsigned_ucast_eq take_bit_nat_eq_self)
  then show ?thesis using NameSpaceFromURI_ok[OF assms(1-3)] assms(4) h m
    by (simp add: port_from_woof_def ns_from_uri_def port_from_uri_def)
qed

theorem port_hash_bounds_witness:
  "50000 \<le> unat (WooFPortHash ''/home/ns'') \<and> unat (WooFPortHash ''/home/ns'') \<le> 59999
    \<and> port_from_woof demo_resolver ''woof://10.0.0.1/home/ns/temps'' = Ret (Some (decimal (unat (WooFPortHash ''/home/ns''))))"
proof -
  have "names_woof demo_resolver ''woof://10.0.0.1/home/ns/temps'' ''/home/ns'' ''temps''"
    by (simp add: names_woof_def uri_path_of_def demo_resolver_def WooFValidURI_def NUL_def)
  moreover have "WooFPortFromURI demo_resolver ''woof://10.0.0.1/home/ns/temps'' = None"
    by (simp add: WooFPortFromURI_def demo_resolver_def)
  ultimately show ?thesis using port_hash_bounds by simp
qed

end
