(* ===== verification/Woof_Api.thy ===== *)
theory Woof_Api
  imports Woof_Ops Woof_Names
begin

text \<open>
  The interface by name: \<open>WooFCreate\<close>, \<open>WooFOpen\<close>, \<open>WooFPut\<close>, \<open>WooFGet\<close> and the queries
  (\<^verbatim>\<open>src/src/woofc.cpp\<close>). A process has a directory of mapped files, the globals of its namespace
  and the network. Every operation decides from the name whether the WooF is local; a local one
  is opened, used through the operations of the WooF and written back to the directory, which is
  what the shared mapping does. The operations on remote WooFs are those of the transport, a
  parameter here and modelled for CMQ in the client and server theories.
\<close>

section \<open>Processes\<close>

text \<open>
  \<open>pr_files\<close> holds the WooF file at each path; \<open>pr_creatable\<close> says whether \<^verbatim>\<open>MIOOpen\<close> can create a
  file of a size, and \<open>pr_ino\<close> the inode it gets; \<open>pr_namelog_seqno\<close> is the environment variable
  \<^verbatim>\<open>WOOF_NAMELOG_SEQNO\<close>; \<open>pr_net\<close> is the state of the rest of the network.
\<close>

record 'n process =
  pr_rs :: resolver
  pr_dir :: string
  pr_ns :: namespace_state
  pr_files :: "string \<Rightarrow> WOOF option"
  pr_creatable :: "string \<Rightarrow> u64 \<Rightarrow> bool"
  pr_ino :: "string \<Rightarrow> u64"
  pr_namelog_seqno :: "string option"
  pr_now :: "int \<times> int"
  pr_version :: string
  pr_dead :: "string \<Rightarrow> string"
  pr_net :: 'n

text \<open>The operations of the transport (\<open>WooFMsg...\<close> of \<^verbatim>\<open>src/src/net.cpp\<close>).\<close>

record 'n transport =
  WooFMsgCreate :: "'n \<Rightarrow> string \<Rightarrow> u64 \<Rightarrow> u64 \<Rightarrow> (int \<times> 'n) run"
  WooFMsgGetElSize :: "'n \<Rightarrow> string \<Rightarrow> (u64 \<times> 'n) run"
  WooFMsgPut :: "'n \<Rightarrow> string \<Rightarrow> string option \<Rightarrow> bytes \<Rightarrow> u64 \<Rightarrow> (u64 \<times> 'n) run"
  WooFMsgGet :: "'n \<Rightarrow> string \<Rightarrow> u64 \<Rightarrow> u64 \<Rightarrow> (int \<times> bytes option \<times> 'n) run"
  WooFMsgGetRange :: "'n \<Rightarrow> string \<Rightarrow> u64 \<Rightarrow> u64 \<Rightarrow> u32 \<Rightarrow> (int \<times> bytes \<times> 'n) run"
  WooFMsgGetLatestSeqno :: "'n \<Rightarrow> string \<Rightarrow> (u64 \<times> 'n) run"
  WooFMsgGetEarliestSeqno :: "'n \<Rightarrow> string \<Rightarrow> (u64 \<times> 'n) run"
  WooFMsgGetTail :: "'n \<Rightarrow> string \<Rightarrow> u64 \<Rightarrow> int \<Rightarrow> (u64 \<times> bytes \<times> 'n) run"

section \<open>Local and remote names\<close>

text \<open>
  The check that there is a local address is an empty macro in this configuration. An address that was
  not found is only used, and is a fault, when the namespaces are the same.
\<close>

definition IsRemoteWoof :: "'n process \<Rightarrow> string \<Rightarrow> bool run" where
  "IsRemoteWoof p wf_name =
     run_bind (ip_from_uri (pr_rs p) wf_name) (\<lambda>uri_ip.
     run_bind (if uri_ip = None then local_ip (pr_rs p) else Ret uri_ip) (\<lambda>ns_ip.
     run_bind (local_ip (pr_rs p)) (\<lambda>my_ip.
     run_bind (ns_from_uri (pr_rs p) wf_name) (\<lambda>wf_namespace.
       case wf_namespace of
         None \<Rightarrow> Ret False
       | Some s \<Rightarrow>
           if WooF_namespace (pr_ns p) \<noteq> s then Ret True
           else if my_ip = None \<or> ns_ip = None then Fault
           else Ret (my_ip \<noteq> ns_ip)))))"

definition dir_prefix :: "string \<Rightarrow> string" where
  "dir_prefix dir = (if last dir \<noteq> CHR ''/'' then dir @ ''/'' else dir)"

text \<open>A path that does not fit the 4096 bytes of \<open>local_name\<close> overruns it.\<close>

definition local_path :: "'n process \<Rightarrow> string \<Rightarrow> string run" where
  "local_path p name =
     (let path = dir_prefix (pr_dir p) @ name in if 4096 \<le> length path then Fault else Ret path)"

section \<open>Creating and opening\<close>

text \<open>
  \<open>WooFCreate\<close>; the second result is the process. A local WooF created under a URI gets its file
  name from a buffer that was never written: \<open>fname\<close> is what that buffer contains.
\<close>

definition WooFCreate ::
  "'n transport \<Rightarrow> string \<Rightarrow> 'n process \<Rightarrow> string \<Rightarrow> u64 \<Rightarrow> u64 \<Rightarrow> (int \<times> 'n process) run" where
  "WooFCreate tr fname p name element_size history_size =
     (let space = (history_size + 1) * (element_size + sizeof_ELID) + sizeof_WOOF_SHARED in
      if pr_dir p = [] then Ret (- 1, p)
      else run_bind (IsRemoteWoof p name) (\<lambda>remote.
        if remote then
          run_bind (WooFMsgCreate tr (pr_net p) name element_size history_size) (\<lambda>(err, n). Ret (err, p\<lparr>pr_net := n\<rparr>))
        else run_bind (local_path p name) (\<lambda>path.
          if \<not> pr_creatable p path space then Ret (- 1, p)
          else run_bind (woof_layout (pr_version p) (if WooFValidURI name then fname else name) element_size history_size) (\<lambda>w.
            Ret (1, p\<lparr>pr_files := (pr_files p)(path \<mapsto> \<lparr>wf_shared = w, wf_ino = pr_ino p path\<rparr>)\<rparr>)))))"

text \<open>\<open>WooFOpen\<close>: the path of the file and the WooF in it.\<close>

definition WooFOpen :: "'n process \<Rightarrow> string \<Rightarrow> (string \<times> WOOF) option run" where
  "WooFOpen p name =
     (if pr_dir p = [] then Ret None
      else run_bind (if WooFValidURI name then WooFNameFromURI (pr_rs p) name 4096 else Ret (1, name)) (\<lambda>(err, fname).
        if err < 0 then Ret None
        else run_bind (local_path p fname) (\<lambda>path.
          case pr_files p path of
            None \<Rightarrow> Ret None
          | Some wo \<Rightarrow> if wfs_watermark (wf_shared wo) \<noteq> CSPOT_WATERMARK then Ret None else Ret (Some (path, wo)))))"

definition WooFExist :: "'n process \<Rightarrow> string \<Rightarrow> int run" where
  "WooFExist p name =
     (if pr_dir p = [] then Ret (- 1)
      else run_bind (if WooFValidURI name then WooFNameFromURI (pr_rs p) name 4096 else Ret (1, name)) (\<lambda>(err, fname).
        if err < 0 then Ret 0
        else Ret (if pr_files p (dir_prefix (pr_dir p) @ fname) = None then 0 else 1)))"

text \<open>The shared mapping makes an update of an open WooF an update of its file.\<close>

definition write_back :: "'n process \<Rightarrow> string \<Rightarrow> WOOF \<Rightarrow> 'n process" where
  "write_back p path wo = p\<lparr>pr_files := (pr_files p)(path \<mapsto> wo)\<rparr>"

definition put_shared :: "'n process \<Rightarrow> string \<Rightarrow> WOOF \<Rightarrow> WOOF_SHARED \<Rightarrow> 'n process" where
  "put_shared p path wo w = write_back p path (wo\<lparr>wf_shared := w\<rparr>)"

section \<open>Putting\<close>

definition namelog_seqno :: "'n process \<Rightarrow> u64" where
  "namelog_seqno p = (case pr_namelog_seqno p of None \<Rightarrow> 0 | Some s \<Rightarrow> strtoul s)"

definition append_named ::
  "'n process \<Rightarrow> string \<Rightarrow> string option \<Rightarrow> bytes \<Rightarrow> u64 \<Rightarrow> u64 \<Rightarrow> (u64 \<times> 'n process) run" where
  "append_named p wf_name hand_name element cause_host cause_seq_no =
     run_bind (WooFOpen p wf_name) (\<lambda>opened. case opened of
       None \<Rightarrow> Ret (- 1, p)
     | Some (path, wo) \<Rightarrow>
         run_bind (WooFAppendWithCause (pr_now p) (pr_ns p) wo hand_name element cause_host cause_seq_no) (\<lambda>(seq_no, wo', ns').
           Ret (seq_no, (write_back p path wo')\<lparr>pr_ns := ns'\<rparr>)))"

definition remote_put_named ::
  "'n transport \<Rightarrow> 'n process \<Rightarrow> string \<Rightarrow> string option \<Rightarrow> bytes \<Rightarrow> (u64 \<times> 'n process) run" where
  "remote_put_named tr p wf_name hand_name element =
     run_bind (WooFMsgGetElSize tr (pr_net p) wf_name) (\<lambda>(el_size, n1).
     if el_size = - 1 then Ret (- 1, p\<lparr>pr_net := n1\<rparr>)
     else run_bind (WooFMsgPut tr n1 wf_name hand_name element el_size) (\<lambda>(seq_no, n2).
       Ret (seq_no, p\<lparr>pr_net := n2\<rparr>)))"

definition WooFPut ::
  "'n transport \<Rightarrow> 'n process \<Rightarrow> string \<Rightarrow> string option \<Rightarrow> bytes \<Rightarrow> (u64 \<times> 'n process) run" where
  "WooFPut tr p wf_name wf_handler element =
     run_bind (IsRemoteWoof p wf_name) (\<lambda>remote.
     if remote then remote_put_named tr p wf_name wf_handler element
     else if pr_dir p = [] then Ret (- 1, p)
     else append_named p wf_name wf_handler element (Name_id (pr_ns p)) (namelog_seqno p))"

definition WooFPutWithCause ::
  "'n transport \<Rightarrow> 'n process \<Rightarrow> string \<Rightarrow> string option \<Rightarrow> bytes \<Rightarrow> u64 \<Rightarrow> u64 \<Rightarrow> (u64 \<times> 'n process) run" where
  "WooFPutWithCause tr p wf_name hand_name element cause_host cause_seq_no =
     run_bind (IsRemoteWoof p wf_name) (\<lambda>remote.
     if remote then remote_put_named tr p wf_name hand_name element
     else if pr_dir p = [] then Ret (- 1, p)
     else append_named p wf_name hand_name element cause_host cause_seq_no)"

section \<open>Getting\<close>

definition WooFGet :: "'n transport \<Rightarrow> 'n process \<Rightarrow> string \<Rightarrow> u64 \<Rightarrow> (int \<times> bytes option \<times> 'n process) run" where
  "WooFGet tr p wf_name seq_no =
     run_bind (IsRemoteWoof p wf_name) (\<lambda>remote.
     if remote then
       run_bind (WooFMsgGetElSize tr (pr_net p) wf_name) (\<lambda>(el_size, n1).
       if el_size = - 1 then Ret (- 1, None, p\<lparr>pr_net := n1\<rparr>)
       else run_bind (WooFMsgGet tr n1 wf_name el_size seq_no) (\<lambda>(err, e, n2). Ret (err, e, p\<lparr>pr_net := n2\<rparr>)))
     else if pr_dir p = [] then Ret (- 1, None, p)
     else run_bind (WooFOpen p wf_name) (\<lambda>opened. case opened of
       None \<Rightarrow> Ret (- 1, None, p)
     | Some (path, wo) \<Rightarrow>
         run_bind (WooFReadWithCause (wf_shared wo) seq_no) (\<lambda>(err, e, w). Ret (err, e, put_shared p path wo w))))"

definition WooFGetElSize :: "'n transport \<Rightarrow> 'n process \<Rightarrow> WOOF option \<Rightarrow> string \<Rightarrow> (u64 \<times> 'n process) run" where
  "WooFGetElSize tr p wo wf_name =
     run_bind (IsRemoteWoof p wf_name) (\<lambda>remote.
     if remote then run_bind (WooFMsgGetElSize tr (pr_net p) wf_name) (\<lambda>(el_size, n). Ret (el_size, p\<lparr>pr_net := n\<rparr>))
     else case wo of
       Some o' \<Rightarrow> Ret (wfs_element_size (wf_shared o'), p)
     | None \<Rightarrow> run_bind (WooFOpen p wf_name) (\<lambda>opened. case opened of
         None \<Rightarrow> Ret (- 1, p)
       | Some (path, o') \<Rightarrow> Ret (wfs_element_size (wf_shared o'), p)))"

text \<open>Reading \<open>k\<close> more elements from number \<open>s\<close> on, until one cannot be read.\<close>

fun get_range_loop :: "WOOF_SHARED \<Rightarrow> nat \<Rightarrow> u64 \<Rightarrow> (bytes list \<times> WOOF_SHARED) run" where
  "get_range_loop w 0 s = Ret ([], w)"
| "get_range_loop w (Suc k) s =
     run_bind (WooFReadWithCause w s) (\<lambda>(err, e, w').
     if 0 < err then run_bind (get_range_loop w' k (s + 1)) (\<lambda>(es, w''). Ret (the e # es, w''))
     else Ret ([], w'))"

definition WooFGetRange ::
  "'n transport \<Rightarrow> 'n process \<Rightarrow> string \<Rightarrow> u64 \<Rightarrow> u32 \<Rightarrow> (int \<times> bytes \<times> 'n process) run" where
  "WooFGetRange tr p wf_name seq_no count =
     (if sint count < 0 then Ret (- 1, [], p)
      else if count = 0 then Ret (0, [], p)
      else run_bind (IsRemoteWoof p wf_name) (\<lambda>remote.
        if remote then
          run_bind (WooFMsgGetElSize tr (pr_net p) wf_name) (\<lambda>(el_size, n1).
          if el_size = - 1 then Ret (- 1, [], p\<lparr>pr_net := n1\<rparr>)
          else run_bind (WooFMsgGetRange tr n1 wf_name el_size seq_no count) (\<lambda>(err, e, n2). Ret (err, e, p\<lparr>pr_net := n2\<rparr>)))
        else run_bind (WooFGetElSize tr p None wf_name) (\<lambda>(el_size, p1).
          if el_size = - 1 then Ret (- 1, [], p1)
          else if pr_dir p1 = [] then Ret (- 1, [], p1)
          else run_bind (WooFOpen p1 wf_name) (\<lambda>opened. case opened of
            None \<Rightarrow> Ret (- 1, [], p1)
          | Some (path, wo) \<Rightarrow>
              run_bind (get_range_loop (wf_shared wo) (unat count) seq_no) (\<lambda>(es, w).
                Ret (if 0 < length es then int (length es) else - 1, concat es, put_shared p1 path wo w))))))"

section \<open>Queries\<close>

definition WooFGetLatestSeqnoWithCause :: "'n transport \<Rightarrow> 'n process \<Rightarrow> string \<Rightarrow> (u64 \<times> 'n process) run" where
  "WooFGetLatestSeqnoWithCause tr p wf_name =
     run_bind (IsRemoteWoof p wf_name) (\<lambda>remote.
     if remote then run_bind (WooFMsgGetLatestSeqno tr (pr_net p) wf_name) (\<lambda>(s, n). Ret (s, p\<lparr>pr_net := n\<rparr>))
     else if pr_dir p = [] then Ret (- 1, p)
     else run_bind (WooFOpen p wf_name) (\<lambda>opened. case opened of
       None \<Rightarrow> Ret (- 1, p)
     | Some (path, wo) \<Rightarrow> Ret (wfs_seq_no (wf_shared wo) - 1, p)))"

definition WooFGetEarliestSeqno :: "'n transport \<Rightarrow> 'n process \<Rightarrow> string \<Rightarrow> (u64 \<times> 'n process) run" where
  "WooFGetEarliestSeqno tr p wf_name =
     run_bind (IsRemoteWoof p wf_name) (\<lambda>remote.
     if remote then run_bind (WooFMsgGetEarliestSeqno tr (pr_net p) wf_name) (\<lambda>(s, n). Ret (s, p\<lparr>pr_net := n\<rparr>))
     else if pr_dir p = [] then Ret (- 1, p)
     else run_bind (WooFOpen p wf_name) (\<lambda>opened. case opened of
       None \<Rightarrow> Ret (- 1, p)
     | Some (path, wo) \<Rightarrow> Ret (WooFGetEarliest (wf_shared wo), p)))"

text \<open>\<open>WooFGetTail\<close>; \<open>WooFReadTail\<close> takes the count as an \<^verbatim>\<open>int\<close>.\<close>

definition WooFGetTail :: "'n transport \<Rightarrow> 'n process \<Rightarrow> string \<Rightarrow> u64 \<Rightarrow> (u64 \<times> bytes \<times> 'n process) run" where
  "WooFGetTail tr p wf_name element_count =
     run_bind (IsRemoteWoof p wf_name) (\<lambda>remote.
     if remote then
       run_bind (WooFMsgGetElSize tr (pr_net p) wf_name) (\<lambda>(el_size, n1).
       if el_size \<noteq> - 1 then
         run_bind (WooFMsgGetTail tr n1 wf_name el_size (sint (ucast element_count :: u32))) (\<lambda>(err, e, n2).
           Ret (of_int (sint (ucast err :: u32)), e, p\<lparr>pr_net := n2\<rparr>))
       else Ret (- 1, [], p\<lparr>pr_net := n1\<rparr>))
     else if pr_dir p = [] then Ret (- 1, [], p)
     else run_bind (WooFOpen p wf_name) (\<lambda>opened. case opened of
       None \<Rightarrow> Ret (- 1, [], p)
     | Some (path, wo) \<Rightarrow>
         run_bind (WooFReadTail (wf_shared wo) (ucast element_count)) (\<lambda>(err, es, w).
           Ret (of_int err, concat es, put_shared p path wo w))))"

section \<open>Truncating\<close>

definition truncate_named :: "'n process \<Rightarrow> string \<Rightarrow> u64 \<Rightarrow> (int \<times> 'n process) run" where
  "truncate_named p name seq_no =
     run_bind (WooFOpen p name) (\<lambda>opened. case opened of
       None \<Rightarrow> Ret (- 1, p)
     | Some (path, wo) \<Rightarrow> run_bind (WooFTruncate (wf_shared wo) seq_no) (\<lambda>(err, w). Ret (err, put_shared p path wo w)))"

section \<open>A log behind a name\<close>

text \<open>
  What a program relies on when it uses a WooF by name, wherever the WooF is: a put returns the next
  sequence number and pushes the element, a get is a lookup by number and changes nothing.
  \<open>bound\<close> limits the numbers, \<open>slots\<close> is the history size and \<open>esize\<close> the element size.
\<close>

locale named_log =
  fixes ok :: "'s \<Rightarrow> bool" and contents :: "'s \<Rightarrow> bytes list" and last_no :: "'s \<Rightarrow> nat"
    and slots :: nat and esize :: nat and bound :: nat
    and put :: "'s \<Rightarrow> bytes \<Rightarrow> (u64 \<times> 's) run"
    and get :: "'s \<Rightarrow> u64 \<Rightarrow> (int \<times> bytes option \<times> 's) run"
  assumes bound_small: "bound < 2 ^ 64"
    and held: "ok s \<Longrightarrow> length (contents s) \<le> slots \<and> length (contents s) \<le> last_no s"
    and put_ok: "ok s \<Longrightarrow> length e = esize \<Longrightarrow> Suc (last_no s) < bound \<Longrightarrow>
      \<exists>s'. put s e = Ret (of_nat (Suc (last_no s)), s') \<and> ok s' \<and> contents s' = take slots (e # contents s)
        \<and> last_no s' = Suc (last_no s)"
    and get_ok: "ok s \<Longrightarrow> unat q < bound \<Longrightarrow>
      get s q = Ret (case spec_read (contents s) (last_no s) (unat q) of None \<Rightarrow> (- 1, None, s) | Some e \<Rightarrow> (1, Some e, s))"

text \<open>Putting a list of elements one after the other, with the numbers the puts return.\<close>

fun put_seq :: "('s \<Rightarrow> bytes \<Rightarrow> (u64 \<times> 's) run) \<Rightarrow> 's \<Rightarrow> bytes list \<Rightarrow> (u64 list \<times> 's) run" where
  "put_seq put s [] = Ret ([], s)"
| "put_seq put s (e # es) =
     run_bind (put s e) (\<lambda>(n, s1). run_bind (put_seq put s1 es) (\<lambda>(ns, s2). Ret (n # ns, s2)))"

lemma spec_read_recent:
  assumes "length old \<le> l0"
  shows "i < length es \<Longrightarrow> length es - i \<le> slots \<Longrightarrow>
      spec_read (take slots (rev es @ old)) (l0 + length es) (l0 + Suc i) = Some (es ! i)"
    "l0 + length es < k \<Longrightarrow> spec_read (take slots (rev es @ old)) (l0 + length es) k = None"
    "0 < k \<Longrightarrow> k + slots \<le> l0 + length es \<Longrightarrow> spec_read (take slots (rev es @ old)) (l0 + length es) k = None"
  using assms by (auto simp: spec_read_def Let_def nth_append rev_nth)

context named_log
begin

lemma put_seq_ok:
  assumes "ok s" "\<forall>e\<in>set es. length e = esize" "last_no s + length es < bound"
  shows "\<exists>s'. put_seq put s es = Ret (map (\<lambda>i. of_nat (last_no s + Suc i)) [0..<length es], s') \<and> ok s'
    \<and> contents s' = take slots (rev es @ contents s) \<and> last_no s' = last_no s + length es"
  using assms
proof (induction es arbitrary: s)
  case Nil
  then show ?case using held by simp
next
  case (Cons e es)
  obtain s1 where s1: "put s e = Ret (of_nat (Suc (last_no s)), s1)" "ok s1"
    "contents s1 = take slots (e # contents s)" "last_no s1 = Suc (last_no s)"
    using put_ok[of s e] Cons.prems by auto
  then obtain s2 where s2: "put_seq put s1 es = Ret (map (\<lambda>i. of_nat (last_no s1 + Suc i)) [0..<length es], s2)"
    "ok s2" "contents s2 = take slots (rev es @ contents s1)" "last_no s2 = last_no s1 + length es"
    using Cons.IH[of s1] Cons.prems by auto
  have "map (\<lambda>i. of_nat (last_no s + Suc i) :: u64) [0..<length (e # es)]
      = of_nat (Suc (last_no s)) # map (\<lambda>i. of_nat (last_no s1 + Suc i)) [0..<length es]"
    by (simp add: upt_conv_Cons s1(4) map_Suc_upt[symmetric] del: upt_Suc map_Suc_upt)
  then show ?case using s1 s2 by (simp add: take_append_take)
qed

lemma put_seq_get:
  assumes "ok s" "\<forall>e\<in>set es. length e = esize" "last_no s + length es < bound"
    "put_seq put s es = Ret (ns, s')"
  shows "i < length es \<Longrightarrow> length es - i \<le> slots \<Longrightarrow> get s' (ns ! i) = Ret (1, Some (es ! i), s')"
    "i < length es \<Longrightarrow> slots < length es - i \<Longrightarrow> get s' (ns ! i) = Ret (- 1, None, s')"
proof -
  have s': "ok s'" "contents s' = take slots (rev es @ contents s)" "last_no s' = last_no s + length es"
    and ns: "ns = map (\<lambda>i. of_nat (last_no s + Suc i)) [0..<length es]"
    using put_seq_ok[OF assms(1-3)] assms(4) by auto
  have u: "unat (ns ! i) = last_no s + Suc i" "unat (ns ! i) < bound" if "i < length es" for i
  proof -
    have "ns ! i = of_nat (last_no s + Suc i)" using that by (simp add: ns)
    moreover have "last_no s + Suc i < 2 ^ 64" using that assms(3) bound_small by simp
    ultimately show "unat (ns ! i) = last_no s + Suc i" by (simp add: unat_of_nat take_bit_nat_eq_self del: of_nat_add of_nat_Suc)
    then show "unat (ns ! i) < bound" using that assms(3) by simp
  qed
  have c: "length (contents s) \<le> last_no s" using held[OF assms(1)] by simp
  show "get s' (ns ! i) = Ret (1, Some (es ! i), s')" if "i < length es" "length es - i \<le> slots"
    using get_ok[OF s'(1) u(2)[OF that(1)]] u(1)[OF that(1)] spec_read_recent(1)[OF c that] s'(2,3) by simp
  show "get s' (ns ! i) = Ret (- 1, None, s')" if "i < length es" "slots < length es - i"
    using get_ok[OF s'(1) u(2)[OF that(1)]] u(1)[OF that(1)] spec_read_recent(3)[OF c, of "last_no s + Suc i" slots es] that s'(2,3) by simp
qed

end

section \<open>Local WooFs\<close>

definition path_of :: "'n process \<Rightarrow> string \<Rightarrow> string" where
  "path_of p name = dir_prefix (pr_dir p) @ name"

definition usable :: "WOOF \<Rightarrow> bool" where
  "usable wo \<longleftrightarrow> wfs_watermark (wf_shared wo) = CSPOT_WATERMARK \<and> woof_wf (wf_shared wo) \<and> woof_idle (wf_shared wo)"

text \<open>A process that can use files by name and knows its own address.\<close>

definition process_ok :: "'n process \<Rightarrow> bool" where
  "process_ok p \<longleftrightarrow> pr_dir p \<noteq> [] \<and> (\<exists>a. local_ip (pr_rs p) = Ret (Some a))"

text \<open>A name, no URI, of a WooF in the directory of the process.\<close>

definition holds :: "'n process \<Rightarrow> string \<Rightarrow> WOOF \<Rightarrow> bool" where
  "holds p name wo \<longleftrightarrow> process_ok p \<and> \<not> WooFValidURI name \<and> length (path_of p name) < 4096
     \<and> pr_files p (path_of p name) = Some wo \<and> usable wo"

lemma IsRemote_plain:
  assumes "process_ok p" "\<not> WooFValidURI name"
  shows "IsRemoteWoof p name = Ret False"
proof -
  obtain a where "local_ip (pr_rs p) = Ret (Some a)" using assms(1) by (auto simp: process_ok_def)
  moreover have "ip_from_uri (pr_rs p) name = Ret None" using assms(2) by (simp add: ip_from_uri_def WooFIPAddrFromURI_def)
  ultimately show ?thesis using ns_from_uri_not_uri[OF assms(2)] by (simp add: IsRemoteWoof_def)
qed

lemma WooFOpen_plain:
  assumes "holds p name wo"
  shows "WooFOpen p name = Ret (Some (path_of p name, wo))"
  using assms by (simp add: holds_def WooFOpen_def process_ok_def path_of_def local_path_def usable_def Let_def)

lemma WooFOpen_absent:
  assumes "\<not> WooFValidURI name" "length (path_of p name) < 4096" "pr_files p (path_of p name) = None"
  shows "WooFOpen p name = Ret None"
  using assms by (simp add: WooFOpen_def path_of_def local_path_def Let_def)

lemma path_of_update [simp]:
  "path_of (p\<lparr>pr_files := f\<rparr>) name = path_of p name" "path_of (p\<lparr>pr_ns := ns\<rparr>) name = path_of p name"
  "path_of (p\<lparr>pr_net := n\<rparr>) name = path_of p name" "path_of (write_back p path wo) name = path_of p name"
  by (simp_all add: path_of_def write_back_def)

lemma process_ok_update [simp]:
  "process_ok (p\<lparr>pr_files := f\<rparr>) = process_ok p" "process_ok (p\<lparr>pr_ns := ns\<rparr>) = process_ok p"
  "process_ok (p\<lparr>pr_net := n\<rparr>) = process_ok p" "process_ok (write_back p path wo) = process_ok p"
  by (simp_all add: process_ok_def write_back_def)

lemma put_shared_same: "pr_files p path = Some wo \<Longrightarrow> put_shared p path wo (wf_shared wo) = p"
  by (simp add: put_shared_def write_back_def fun_upd_idem)

lemma usable_appended: "usable wo \<Longrightarrow> appended (wf_shared wo) e w' \<Longrightarrow> usable (wo\<lparr>wf_shared := w'\<rparr>)"
  using appendedD[of "wf_shared wo" e w'] appended_idle[of "wf_shared wo" e w'] by (simp add: usable_def)

text \<open>The append by name: with a handler the namespace log must be ready.\<close>

lemma append_named_ok:
  assumes "holds p name wo" "elsz (wf_shared wo) \<le> length e" "unat (wfs_seq_no (wf_shared wo)) < 2 ^ 64 - 1"
    "hand = None \<or> log_ready (pr_ns p)"
  obtains w' ns' where "append_named p name hand e ch cs =
      Ret (wfs_seq_no (wf_shared wo), (write_back p (path_of p name) (wo\<lparr>wf_shared := w'\<rparr>))\<lparr>pr_ns := ns'\<rparr>)"
    "appended (wf_shared wo) e w'" "holds ((write_back p (path_of p name) (wo\<lparr>wf_shared := w'\<rparr>))\<lparr>pr_ns := ns'\<rparr>) name (wo\<lparr>wf_shared := w'\<rparr>)"
    "hand = None \<Longrightarrow> ns' = pr_ns p"
proof -
  have u: "usable wo" using assms(1) by (simp add: holds_def)
  then have "woof_wf (wf_shared wo)" "woof_idle (wf_shared wo)" by (simp_all add: usable_def)
  then obtain w' ns' where a: "WooFAppendWithCause (pr_now p) (pr_ns p) wo hand e ch cs =
      Ret (wfs_seq_no (wf_shared wo), wo\<lparr>wf_shared := w'\<rparr>, ns')" "appended (wf_shared wo) e w'" "hand = None \<Longrightarrow> ns' = pr_ns p"
    using append_ok[OF _ _ assms(2-4), of "pr_now p" ch cs] by blast
  show thesis
    by (rule that[OF _ a(2) _ a(3)]) (use assms(1) a(1) WooFOpen_plain[OF assms(1)] usable_appended[OF u a(2)]
      in \<open>simp_all add: append_named_def holds_def\<close>, simp_all add: write_back_def)
qed

lemma WooFGet_plain:
  assumes "holds p name wo"
  shows "WooFGet tr p name q = Ret (case spec_read (woof_view (wf_shared wo)) (latest (wf_shared wo)) (unat q) of
    None \<Rightarrow> (- 1, None, p) | Some e \<Rightarrow> (1, Some e, p))"
proof -
  have h: "process_ok p" "\<not> WooFValidURI name" "pr_dir p \<noteq> []" "pr_files p (path_of p name) = Some wo"
    "woof_wf (wf_shared wo)" "0 < sem_val (wfs_mutex (wf_shared wo))"
    using assms by (auto simp: holds_def process_ok_def usable_def woof_idle_def)
  show ?thesis
    using IsRemote_plain[OF h(1,2)] WooFOpen_plain[OF assms] WooFRead_ok[OF h(5,6), of q] put_shared_same[OF h(4)] h(3)
    by (simp add: WooFGet_def split: option.splits)
qed

text \<open>The WooF behind a name, its retained elements and the number of the newest.\<close>

definition woof_at :: "'n process \<Rightarrow> string \<Rightarrow> WOOF_SHARED" where
  "woof_at p name = wf_shared (the (pr_files p (path_of p name)))"

definition local_ok :: "string \<Rightarrow> nat \<Rightarrow> nat \<Rightarrow> 'n process \<Rightarrow> bool" where
  "local_ok name n es p \<longleftrightarrow> (\<exists>wo. holds p name wo) \<and> hist (woof_at p name) = n \<and> elsz (woof_at p name) = es"

lemma woof_at_holds: "holds p name wo \<Longrightarrow> woof_at p name = wf_shared wo"
  by (simp add: holds_def woof_at_def)

lemma append_named_local:
  assumes "local_ok name n es p" "length e = es" "Suc (latest (woof_at p name)) < 2 ^ 64 - 1"
  shows "\<exists>p'. append_named p name None e ch cs = Ret (of_nat (Suc (latest (woof_at p name))), p') \<and> local_ok name n es p'
    \<and> woof_view (woof_at p' name) = take n (e # woof_view (woof_at p name))
    \<and> latest (woof_at p' name) = Suc (latest (woof_at p name))"
proof -
  obtain wo where wo: "holds p name wo" using assms(1) by (auto simp: local_ok_def)
  note w = woof_at_holds[OF wo]
  have wf: "woof_wf (wf_shared wo)" using wo by (simp add: holds_def usable_def)
  have seq: "unat (wfs_seq_no (wf_shared wo)) = Suc (latest (wf_shared wo))" using wf by (simp add: woof_wf_def latest_def)
  then have lt: "unat (wfs_seq_no (wf_shared wo)) < 2 ^ 64 - 1" using assms(3) w by simp
  have es: "elsz (wf_shared wo) = es" "hist (wf_shared wo) = n" using assms(1) w by (simp_all add: local_ok_def)
  obtain w' ns' where a: "append_named p name None e ch cs =
      Ret (wfs_seq_no (wf_shared wo), (write_back p (path_of p name) (wo\<lparr>wf_shared := w'\<rparr>))\<lparr>pr_ns := ns'\<rparr>)"
    "appended (wf_shared wo) e w'" "holds ((write_back p (path_of p name) (wo\<lparr>wf_shared := w'\<rparr>))\<lparr>pr_ns := ns'\<rparr>) name (wo\<lparr>wf_shared := w'\<rparr>)"
    by (rule append_named_ok[OF wo _ lt, of e None ch cs]) (use es assms(2) in auto)
  have "wfs_seq_no (wf_shared wo) = of_nat (Suc (latest (wf_shared wo)))" unfolding seq[symmetric] by simp
  then show ?thesis
    using a(1) a(3) woof_at_holds[OF a(3)] appendedD[OF a(2)] appended_latest[OF a(2) lt wf] es w assms(2)
    by (intro exI[of _ "(write_back p (path_of p name) (wo\<lparr>wf_shared := w'\<rparr>))\<lparr>pr_ns := ns'\<rparr>"]) (auto simp: local_ok_def)
qed

interpretation local_log: named_log "local_ok name n es" "\<lambda>p. woof_view (woof_at p name)" "\<lambda>p. latest (woof_at p name)"
  n es "2 ^ 64 - 1" "\<lambda>p e. WooFPut tr p name None e" "\<lambda>p q. WooFGet tr p name q" for tr name n es
proof (unfold_locales, goal_cases)
  case 1
  then show ?case by simp
next
  case (2 p)
  then obtain wo where "holds p name wo" by (auto simp: local_ok_def)
  then have "woof_wf (woof_at p name)" using woof_at_holds by (metis holds_def usable_def)
  then show ?case using 2 woof_count_le count_le_latest by (auto simp: local_ok_def)
next
  case (3 p e)
  obtain wo where wo: "holds p name wo" using 3(1) by (auto simp: local_ok_def)
  then have "IsRemoteWoof p name = Ret False" "pr_dir p \<noteq> []" using IsRemote_plain by (auto simp: holds_def process_ok_def)
  then show ?case using append_named_local[OF 3] by (simp add: WooFPut_def)
next
  case (4 p q)
  then obtain wo where wo: "holds p name wo" by (auto simp: local_ok_def)
  then show ?case using WooFGet_plain[OF wo, of tr q] woof_at_holds[OF wo] by simp
qed

section \<open>Creation\<close>

lemma WooFCreate_plain:
  assumes "process_ok p" "\<not> WooFValidURI name" "length (path_of p name) < 4096" "woof_fits es hs" "unat hs < 2 ^ 31"
    "pr_creatable p (path_of p name) ((hs + 1) * (es + sizeof_ELID) + sizeof_WOOF_SHARED)"
  obtains p' where "WooFCreate tr fname p name es hs = Ret (1, p')" "local_ok name (unat hs) (unat es) p'"
    "woof_view (woof_at p' name) = []" "latest (woof_at p' name) = 0"
    "\<exists>wo. p' = write_back p (path_of p name) wo"
proof -
  obtain w where w: "woof_layout (pr_version p) name es hs = Ret w" "woof_wf w" "woof_idle w" "woof_view w = []"
    "wfs_seq_no w = 1" "wfs_history_size w = hs" "wfs_element_size w = es" "wfs_watermark w = CSPOT_WATERMARK"
    using woof_layout_ok[OF assms(4,5), of "pr_version p" name] .
  let ?wo = "\<lparr>wf_shared = w, wf_ino = pr_ino p (path_of p name)\<rparr>"
  let ?p = "p\<lparr>pr_files := (pr_files p)(path_of p name \<mapsto> ?wo)\<rparr>"
  have c: "WooFCreate tr fname p name es hs = Ret (1, ?p)"
    using IsRemote_plain[OF assms(1,2)] assms w(1)
    by (simp add: WooFCreate_def Let_def process_ok_def local_path_def path_of_def)
  have h: "holds ?p name ?wo" using assms(1-3) w by (simp add: holds_def usable_def)
  show thesis by (rule that[OF c]) (use h woof_at_holds[OF h] w in \<open>auto simp: local_ok_def latest_def write_back_def\<close>)
qed

section \<open>Properties\<close>

text \<open>C10: through the interface by name a new WooF keeps the last \<open>hs\<close> elements. After \<open>WooFCreate\<close> of
  a WooF in the directory of the process and any number of calls of \<open>WooFPut\<close>, \<open>WooFGet\<close> with the
  number that a put returned gives the element of that put, as long as at most \<open>hs\<close> elements were
  put from it on, and fails for the older ones.\<close>

theorem api_put_get:
  assumes "process_ok p" "\<not> WooFValidURI name" "length (path_of p name) < 4096" "woof_fits es hs" "unat hs < 2 ^ 31"
    "pr_creatable p (path_of p name) ((hs + 1) * (es + sizeof_ELID) + sizeof_WOOF_SHARED)"
    "\<forall>e\<in>set els. length e = unat es" "length els < 2 ^ 64 - 1"
  shows "\<exists>p1 ns p2. WooFCreate tr fname p name es hs = Ret (1, p1)
    \<and> put_seq (\<lambda>p e. WooFPut tr p name None e) p1 els = Ret (ns, p2) \<and> length ns = length els
    \<and> (\<forall>i. i < length els \<longrightarrow> WooFGet tr p2 name (ns ! i) =
        Ret (if length els - i \<le> unat hs then (1, Some (els ! i), p2) else (- 1, None, p2)))"
proof -
  obtain p1 where p1: "WooFCreate tr fname p name es hs = Ret (1, p1)" "local_ok name (unat hs) (unat es) p1"
    "latest (woof_at p1 name) = 0"
    by (rule WooFCreate_plain[OF assms(1-6), of tr fname])
  have len: "latest (woof_at p1 name) + length els < 2 ^ 64 - 1" using p1(3) assms(8) by simp
  obtain p2 where p2: "put_seq (\<lambda>p e. WooFPut tr p name None e) p1 els
      = Ret (map (\<lambda>i. of_nat (latest (woof_at p1 name) + Suc i)) [0..<length els], p2)"
    using local_log.put_seq_ok[OF p1(2) assms(7) len, of tr] by blast
  show ?thesis
    using p1(1) p2 local_log.put_seq_get[OF p1(2) assms(7) len p2]
    by (intro exI[of _ p1] exI[of _ p2] exI conjI) (assumption, assumption, simp, auto simp: not_le)
qed

text \<open>A process in \<^verbatim>\<open>/home/ns\<close> with an empty directory and no network.\<close>

definition demo_process :: "'n \<Rightarrow> 'n process" where
  "demo_process net = \<lparr>pr_rs = demo_resolver, pr_dir = ''/home/ns'', pr_ns = idle_ns\<lparr>WooF_namespace := ''/home/ns''\<rparr>,
     pr_files = (\<lambda>_. None), pr_creatable = (\<lambda>_ _. True), pr_ino = (\<lambda>_. 3), pr_namelog_seqno = None,
     pr_now = (0, 0), pr_version = ''3.01'',
     pr_dead = (\<lambda>s. if length s \<le> 15 then s else ''?''), pr_net = net\<rparr>"

definition no_network :: "'n transport" where
  "no_network = \<lparr>WooFMsgCreate = (\<lambda>n _ _ _. Ret (- 1, n)), WooFMsgGetElSize = (\<lambda>n _. Ret (- 1, n)),
     WooFMsgPut = (\<lambda>n _ _ _ _. Ret (- 1, n)), WooFMsgGet = (\<lambda>n _ _ _. Ret (- 1, None, n)),
     WooFMsgGetRange = (\<lambda>n _ _ _ _. Ret (- 1, [], n)), WooFMsgGetLatestSeqno = (\<lambda>n _. Ret (- 1, n)),
     WooFMsgGetEarliestSeqno = (\<lambda>n _. Ret (- 1, n)), WooFMsgGetTail = (\<lambda>n _ _ _. Ret (- 1, [], n))\<rparr>"

lemma demo_process_ok: "process_ok (demo_process net)"
  by (simp add: process_ok_def demo_process_def demo_resolver_def local_ip_def WooFLocalIP_def copy_addr_def)

lemma demo_path: "path_of (demo_process net) name = ''/home/ns/'' @ name"
  by (simp add: path_of_def demo_process_def dir_prefix_def)

theorem api_put_get_witness:
  "\<exists>p1 ns p2. WooFCreate no_network [] (demo_process ()) ''temps'' 2 2 = Ret (1, p1)
    \<and> put_seq (\<lambda>p e. WooFPut no_network p ''temps'' None e) p1 [[1, 2], [3, 4], [5, 6]] = Ret (ns, p2)
    \<and> WooFGet no_network p2 ''temps'' (ns ! 2) = Ret (1, Some [5, 6], p2)
    \<and> WooFGet no_network p2 ''temps'' (ns ! 0) = Ret (- 1, None, p2)"
proof -
  have "\<not> WooFValidURI ''temps''" "woof_fits 2 2" by (simp_all add: WooFValidURI_def woof_fits_def)
  moreover have "pr_creatable (demo_process ()) path z" for path z by (simp add: demo_process_def)
  ultimately obtain p1 ns p2 where r: "WooFCreate no_network [] (demo_process ()) ''temps'' 2 2 = Ret (1, p1)"
    "put_seq (\<lambda>p e. WooFPut no_network p ''temps'' None e) p1 [[1, 2], [3, 4], [5, 6]] = Ret (ns, p2)"
    "\<forall>i. i < length [[1, 2], [3, 4], [5, 6 :: u8]] \<longrightarrow> WooFGet no_network p2 ''temps'' (ns ! i) =
        Ret (if length [[1, 2], [3, 4], [5, 6 :: u8]] - i \<le> unat (2 :: u64) then (1, Some ([[1, 2], [3, 4], [5, 6]] ! i), p2) else (- 1, None, p2))"
    using api_put_get[OF demo_process_ok[of "()"], where name = "''temps''" and es = 2 and hs = 2
      and els = "[[1, 2], [3, 4], [5, 6]]" and tr = no_network and fname = "[]"]
    by (auto simp: demo_path)
  show ?thesis using r(1,2) spec[OF r(3), of 2] spec[OF r(3), of 0] by (intro exI conjI) (assumption, assumption, simp_all)
qed

end
