(* ===== verification/Launch.thy ===== *)
theory Launch
  imports Dispatch Watermark Woof_Api
begin

text \<open>
  Starting a handler. The set-up of the container process (\<open>WooFContainerInit\<close>) and the rest of
  \<open>WooFForker\<close> after the claim of a trigger (\<^verbatim>\<open>src/src/woofc-container.cpp\<close>) send the context of the handler
  as a message of strings to a helper process (\<^verbatim>\<open>src/src/woofc-forker-helper.cpp\<close>), which starts the
  handler with that environment; its main program, the shepherd (\<^verbatim>\<open>src/src/woofc-shepherd.cpp\<close>), opens
  the WooF and calls the handler on the element.
\<close>

section \<open>The container process\<close>

text \<open>The globals of \<^verbatim>\<open>src/src/global.cpp\<close> that describe the namespace.\<close>

record globals =
  g_namespace :: string
  g_dir :: string
  g_host_ip :: string
  g_name_id :: u64
  g_namelog_dir :: string
  g_namelog_name :: string

type_synonym environment = "string list"

fun getenv :: "environment \<Rightarrow> string \<Rightarrow> string option" where
  "getenv [] name = None"
| "getenv (s # env) name = (if starts_with s (name @ ''='') then Some (drop (Suc (length name)) s) else getenv env name)"

text \<open>
  The directory: a relative one is put behind the working directory \<open>cwd\<close>, which \<open>getcwd\<close> has to fit
  into the buffer of 2048 bytes. A name that does not fit with its terminator overruns the buffer or is
  read past its end. The checks of the name (\<^verbatim>\<open>DEBUG_FATAL_IF\<close>) are empty macros in this configuration, so
  that \<^verbatim>\<open>.\<close> and \<^verbatim>\<open>/\<close> are accepted.
\<close>

definition container_dir :: "string \<Rightarrow> string \<Rightarrow> string run" where
  "container_dir cwd str =
     (let dir = (if c_at str 0 \<noteq> CHR ''/''
                 then cwd @ (if c_at str 0 = CHR ''.'' then tl str else ''/'' @ str) else str) in
        if 2048 \<le> length dir then Fault
        else if dir = [] then Fault
        else Ret (if last dir = CHR ''/'' then butlast dir else dir))"

text \<open>
  \<open>WooFContainerInit\<close> up to the start of the helpers and threads: the globals and the log of the
  namespace, or (\<open>Inl\<close>) the status it exits with. The checks that a variable is set and that the log
  was opened are empty macros: the null pointer is used. \<open>mkdir_ok\<close> says that the directory exists or
  was made.
\<close>

definition env_text :: "environment \<Rightarrow> string \<Rightarrow> string run" where
  "env_text env name = (case getenv env name of None \<Rightarrow> Fault | Some v \<Rightarrow> Ret v)"

definition WooFContainerInit ::
  "(string \<Rightarrow> LOG option) \<Rightarrow> (string \<Rightarrow> bool) \<Rightarrow> string \<Rightarrow> environment \<Rightarrow> (int + globals \<times> LOG) run" where
  "WooFContainerInit logs mkdir_ok cwd env =
     run_bind (env_text env ''WOOFC_NAMESPACE'') (\<lambda>ns.
     run_bind (env_text env ''WOOFC_DIR'') (\<lambda>str.
     run_bind (container_dir cwd str) (\<lambda>dir.
     run_bind (env_text env ''WOOF_HOST_IP'') (\<lambda>ip.
     run_bind (env_text env ''WOOF_NAME_ID'') (\<lambda>name_id.
     run_bind (env_text env ''WOOF_NAMELOG_NAME'') (\<lambda>namelog_name.
     if \<not> mkdir_ok dir then Ret (Inl 1)
     else run_bind (env_text env ''WOOF_NAMELOG_DIR'') (\<lambda>namelog_dir.
       case logs (take 2048 namelog_dir @ ''/'' @ take 2048 namelog_name) of
         None \<Rightarrow> Fault
       | Some log \<Rightarrow> Ret (Inr (\<lparr>g_namespace = take 2048 ns, g_dir = dir, g_host_ip = take 25 ip, g_name_id = strtoul name_id,
            g_namelog_dir = take 2048 namelog_dir, g_namelog_name = take 2048 namelog_name\<rparr>, log)))))))))"

text \<open>
  The directory of a container is absolute, so that the forker finds its last component, unless the
  variable names the root directory, of which nothing is left.
\<close>

lemma container_dir_absolute:
  assumes "container_dir cwd str = Ret dir" "c_at cwd 0 = CHR ''/''"
  shows "dir = [] \<or> (\<exists>rest. dir = CHR ''/'' # rest)"
proof -
  define d where "d = (if c_at str 0 \<noteq> CHR ''/'' then cwd @ (if c_at str 0 = CHR ''.'' then tl str else ''/'' @ str) else str)"
  have d: "dir = (if last d = CHR ''/'' then butlast d else d)"
    using assms(1) unfolding container_dir_def d_def[symmetric] by (auto simp: Let_def split: if_splits)
  have "\<exists>x. d = CHR ''/'' # x"
    using assms(2) unfolding d_def by (cases cwd; cases str) (auto simp: c_at_def NUL_def)
  then obtain x where "d = CHR ''/'' # x" by auto
  then show ?thesis using d by auto
qed

section \<open>The message of the forker\<close>

text \<open>\<^verbatim>\<open>sprintf\<close> into \<open>hbuff\<close>, and a \<^verbatim>\<open>%s\<close> of a character array of the event: both must be terminated inside.\<close>

definition hbuff :: "string \<Rightarrow> string run" where
  "hbuff s = (if length s < 255 then Ret s else Fault)"

definition array_text :: "nat \<Rightarrow> string \<Rightarrow> string run" where
  "array_text n s = (if length s < n then Ret s else Fault)"

text \<open>\<open>buf\<close> is the part of \<open>payload\<close> before the position \<open>end\<close>.\<close>

definition AddString :: "bytes \<Rightarrow> string \<Rightarrow> bytes run" where
  "AddString buf str = (if length buf + Suc (length str) \<le> 4096 then Ret (buf @ c_bytes str) else Fault)"

fun add_strings :: "bytes \<Rightarrow> string list \<Rightarrow> bytes run" where
  "add_strings buf [] = Ret buf"
| "add_strings buf (s # ss) = run_bind (hbuff s) (\<lambda>h. run_bind (AddString buf h) (\<lambda>buf'. add_strings buf' ss))"

definition launch_env :: "globals \<Rightarrow> string \<Rightarrow> EVENT \<Rightarrow> environment" where
  "launch_env g wf_name ev =
     [''WOOFC_NAMESPACE='' @ g_namespace g,
      ''WOOFC_DIR='' @ g_dir g,
      ''WOOF_HOST_IP='' @ g_host_ip g,
      ''WOOF_SHEPHERD_NAME='' @ wf_name,
      ''WOOF_SHEPHERD_NDX='' @ to_string (ev_woofc_ndx ev),
      ''WOOF_SHEPHERD_SEQNO='' @ to_string (ev_woofc_seq_no ev),
      ''WOOF_NAME_ID='' @ to_string (g_name_id g),
      ''WOOF_NAMELOG_DIR='' @ g_namelog_dir g,
      ''WOOF_NAMELOG_NAME='' @ g_namelog_name g,
      ''WOOF_NAMELOG_SEQNO='' @ to_string (ev_seq_no ev),
      ''LD_LIBRARY_PATH=/usr/local/lib'']"

definition forker_payload :: "globals \<Rightarrow> EVENT \<Rightarrow> bytes run" where
  "forker_payload g ev =
     (if CHR ''/'' \<notin> set (g_dir g) then Fault
      else run_bind (array_text 128 (ev_woofc_name ev)) (\<lambda>wf_name.
        run_bind (array_text 128 (ev_woofc_handler ev)) (\<lambda>hand_name.
        add_strings [] (launch_env g wf_name ev @ [g_dir g @ ''/'' @ hand_name]))))"

section \<open>The helper\<close>

text \<open>
  One string out of \<open>args\<close>: what is left behind its terminator. Without a terminator the search
  passes the end of the array.
\<close>

fun next_string :: "bytes \<Rightarrow> (string \<times> bytes) run" where
  "next_string [] = Fault"
| "next_string (b # bs) =
     (if b = 0 then Ret ([], bs) else run_bind (next_string bs) (\<lambda>(s, rest). Ret (char_of_byte b # s, rest)))"

fun next_strings :: "nat \<Rightarrow> bytes \<Rightarrow> (string list \<times> bytes) run" where
  "next_strings 0 bs = Ret ([], bs)"
| "next_strings (Suc n) bs = run_bind (next_string bs) (\<lambda>(s, rest).
     run_bind (next_strings n rest) (\<lambda>(ss, rest'). Ret (s # ss, rest')))"

text \<open>
  A round of the helper's loop. The pipe is in packet mode: a read returns one message, cut to the
  3060 bytes of \<open>args\<close>. The result is the environment and the program of the process to start, \<open>None\<close>
  when the program has no watermark; \<open>chk\<close> is the check.
\<close>

definition helper_round :: "(string \<Rightarrow> int run) \<Rightarrow> bytes \<Rightarrow> (environment \<times> string) option run" where
  "helper_round chk msg =
     (if msg = [] then Fault
      else let args = take 3060 msg @ replicate (3060 - length msg) 0 in
        run_bind (next_strings 11 args) (\<lambda>(menv, rest).
        run_bind (c_string rest) (\<lambda>prog.
        run_bind (chk prog) (\<lambda>ok. Ret (if ok \<le> 0 then None else Some (menv, prog))))))"

section \<open>The shepherd\<close>

text \<open>
  The shepherd ends without calling the handler, or calls it on the WooF, the sequence number and a
  copy of the element, in a process with the context of the container.
\<close>

datatype 'n shepherd_end = Exited int | Calls_Handler "string \<times> WOOF" u64 bytes "'n process"

definition need :: "environment \<Rightarrow> string \<Rightarrow> (string \<Rightarrow> 'n shepherd_end run) \<Rightarrow> 'n shepherd_end run" where
  "need env name k = (case getenv env name of None \<Rightarrow> Ret (Exited 1) | Some v \<Rightarrow> k v)"

text \<open>The sequence number behind the element in slot \<open>ndx\<close>.\<close>

definition slot_seq_no :: "WOOF_SHARED \<Rightarrow> u64 \<Rightarrow> u64 run" where
  "slot_seq_no w ndx = run_bind (memcpy_from (wfs_buf w) (unat (ndx * stride w + wfs_element_size w)) 8) (\<lambda>b. Ret (of_le64 b))"

text \<open>From the opening of the WooF on; \<open>p\<close> is the process with its globals set.\<close>

definition shepherd_call ::
  "(string \<Rightarrow> LOG option) \<Rightarrow> (nat \<Rightarrow> bool) \<Rightarrow> 'n process \<Rightarrow> string \<Rightarrow> string \<Rightarrow> u64 \<Rightarrow> u64 \<Rightarrow> 'n shepherd_end run" where
  "shepherd_call logs mem p log_name wf_name ndx seq_no =
     run_bind (WooFOpen p wf_name) (\<lambda>opened. case opened of
       None \<Rightarrow> Ret (Exited 1)
     | Some (path, wo) \<Rightarrow> let wfs = wf_shared wo in
         if 4096 \<le> length log_name then Fault
         else case logs log_name of None \<Rightarrow> Ret (Exited 1)
         | Some log \<Rightarrow>
           if \<not> mem (unat (wfs_element_size wfs)) then Ret (Exited 1)
           else run_bind (slot_read wfs ndx) (\<lambda>farg.
             run_bind (slot_seq_no wfs ndx) (\<lambda>el_seq_no.
             if el_seq_no \<noteq> seq_no then Ret (Exited 0)
             else Ret (Calls_Handler (path, wo) seq_no farg (p\<lparr>pr_ns := (pr_ns p)\<lparr>Name_log := Some log\<rparr>\<rparr>)))))"

definition shepherd ::
  "(string \<Rightarrow> LOG option) \<Rightarrow> (nat \<Rightarrow> bool) \<Rightarrow> 'n process \<Rightarrow> environment \<Rightarrow> 'n shepherd_end run" where
  "shepherd logs mem p env =
     need env ''WOOFC_NAMESPACE'' (\<lambda>wf_ns.
     need env ''WOOF_HOST_IP'' (\<lambda>wf_ip.
     need env ''WOOFC_DIR'' (\<lambda>wf_dir.
     need env ''WOOF_NAMELOG_DIR'' (\<lambda>wnld.
     need env ''WOOF_SHEPHERD_NAME'' (\<lambda>wf_name.
     need env ''WOOF_SHEPHERD_NDX'' (\<lambda>wf_ndx.
     need env ''WOOF_SHEPHERD_SEQNO'' (\<lambda>wf_seq_no.
     need env ''WOOF_NAMELOG_NAME'' (\<lambda>namelog_name.
     need env ''WOOF_NAMELOG_SEQNO'' (\<lambda>namelog_seq_no.
     need env ''WOOF_NAME_ID'' (\<lambda>name_id.
     if wf_dir = [] \<or> 2048 \<le> length wf_dir then Fault
     else shepherd_call logs mem
       (p\<lparr>pr_rs := (pr_rs p)\<lparr>rs_Host_ip := take 25 wf_ip\<rparr>, pr_dir := wf_dir, pr_namelog_seqno := Some namelog_seq_no,
          pr_ns := \<lparr>WooF_namespace = take 2048 wf_ns, Name_id = strtoul name_id, Name_log = None\<rparr>\<rparr>)
       (take 2048 wnld @ ''/'' @ namelog_name) wf_name (strtoul wf_ndx) (strtoul wf_seq_no)))))))))))"

text \<open>The whole way from a claimed trigger to the handler.\<close>

definition launch ::
  "(string \<Rightarrow> int run) \<Rightarrow> (string \<Rightarrow> LOG option) \<Rightarrow> (nat \<Rightarrow> bool) \<Rightarrow> 'n process \<Rightarrow> globals \<Rightarrow> EVENT \<Rightarrow> 'n shepherd_end option run" where
  "launch chk logs mem p g ev =
     run_bind (forker_payload g ev) (\<lambda>msg.
     run_bind (helper_round chk msg) (\<lambda>r. case r of
       None \<Rightarrow> Ret None
     | Some (menv, prog) \<Rightarrow> run_bind (shepherd logs mem p menv) (\<lambda>x. Ret (Some x))))"

section \<open>The message arrives\<close>

lemma next_string_c_bytes: "NUL \<notin> set s \<Longrightarrow> next_string (c_bytes s @ rest) = Ret (s, rest)"
  by (induction s) (auto simp: c_bytes_def)

lemma next_strings_concat:
  "\<forall>s\<in>set ss. NUL \<notin> set s \<Longrightarrow> next_strings (length ss) (concat (map c_bytes ss) @ rest) = Ret (ss, rest)"
  by (induction ss) (simp_all add: next_string_c_bytes)

lemma length_message: "\<forall>s\<in>set ss. length s < 255 \<Longrightarrow> length (concat (map c_bytes ss)) \<le> 255 * length ss"
  by (induction ss) auto

lemma add_strings_ok:
  "\<forall>s\<in>set ss. length s < 255 \<Longrightarrow> length buf + 255 * length ss \<le> 4096 \<Longrightarrow>
   add_strings buf ss = Ret (buf @ concat (map c_bytes ss))"
  by (induction ss arbitrary: buf) (simp_all add: hbuff_def AddString_def)

text \<open>The strings of a launch fit their buffers.\<close>

definition launch_strings :: "globals \<Rightarrow> EVENT \<Rightarrow> string list" where
  "launch_strings g ev = launch_env g (ev_woofc_name ev) ev @ [g_dir g @ ''/'' @ ev_woofc_handler ev]"

definition launchable :: "globals \<Rightarrow> EVENT \<Rightarrow> bool" where
  "launchable g ev \<longleftrightarrow> CHR ''/'' \<in> set (g_dir g) \<and> length (ev_woofc_name ev) < 128 \<and> length (ev_woofc_handler ev) < 128
     \<and> length (g_host_ip g) < 25
     \<and> (\<forall>s\<in>set (launch_strings g ev). length s < 255 \<and> NUL \<notin> set s)"

lemma length_launch_env [simp]: "length (launch_env g name ev) = 11"
  by (simp add: launch_env_def)

lemma helper_round_strings:
  assumes "length env = 11" "\<forall>s\<in>set (env @ [prog]). length s < 255" "\<forall>s\<in>set (env @ [prog]). NUL \<notin> set s"
  shows "helper_round chk (concat (map c_bytes (env @ [prog])))
    = run_bind (chk prog) (\<lambda>ok. Ret (if ok \<le> 0 then None else Some (env, prog)))"
proof -
  define msg where "msg = concat (map c_bytes (env @ [prog]))"
  let ?pad = "replicate (3060 - length msg) 0 :: bytes"
  have "length msg \<le> 3060" "msg \<noteq> []" using length_message[OF assms(2)] assms(1) by (simp_all add: msg_def)
  moreover have "take 3060 msg @ ?pad = concat (map c_bytes env) @ c_bytes prog @ ?pad" using calculation(1) by (simp add: msg_def)
  moreover have "next_strings 11 (concat (map c_bytes env) @ c_bytes prog @ ?pad) = Ret (env, c_bytes prog @ ?pad)"
    using next_strings_concat[of env "c_bytes prog @ ?pad"] assms(1,3) by simp
  moreover have "c_string (c_bytes prog @ ?pad) = Ret prog" using assms(3) by (intro c_string_c_bytes) simp
  ultimately show ?thesis unfolding msg_def[symmetric] by (simp add: helper_round_def Let_def)
qed

lemma helper_receives:
  assumes "launchable g ev"
  shows "\<exists>msg. forker_payload g ev = Ret msg \<and> helper_round chk msg =
    run_bind (chk (g_dir g @ ''/'' @ ev_woofc_handler ev)) (\<lambda>ok.
      Ret (if ok \<le> 0 then None else Some (launch_env g (ev_woofc_name ev) ev, g_dir g @ ''/'' @ ev_woofc_handler ev)))"
proof -
  let ?ss = "launch_env g (ev_woofc_name ev) ev @ [g_dir g @ ''/'' @ ev_woofc_handler ev]"
  have ss: "\<forall>s\<in>set ?ss. length s < 255" "\<forall>s\<in>set ?ss. NUL \<notin> set s"
    using assms unfolding launchable_def launch_strings_def by blast+
  have "forker_payload g ev = Ret (concat (map c_bytes ?ss))"
    using add_strings_ok[OF ss(1), of "[]"] assms by (simp add: forker_payload_def launchable_def array_text_def)
  then show ?thesis using helper_round_strings[OF _ ss, of chk] length_launch_env by blast
qed

lemma getenv_launch:
  "getenv (launch_env g name ev) ''WOOFC_NAMESPACE'' = Some (g_namespace g)"
  "getenv (launch_env g name ev) ''WOOFC_DIR'' = Some (g_dir g)"
  "getenv (launch_env g name ev) ''WOOF_HOST_IP'' = Some (g_host_ip g)"
  "getenv (launch_env g name ev) ''WOOF_SHEPHERD_NAME'' = Some name"
  "getenv (launch_env g name ev) ''WOOF_SHEPHERD_NDX'' = Some (to_string (ev_woofc_ndx ev))"
  "getenv (launch_env g name ev) ''WOOF_SHEPHERD_SEQNO'' = Some (to_string (ev_woofc_seq_no ev))"
  "getenv (launch_env g name ev) ''WOOF_NAME_ID'' = Some (to_string (g_name_id g))"
  "getenv (launch_env g name ev) ''WOOF_NAMELOG_DIR'' = Some (g_namelog_dir g)"
  "getenv (launch_env g name ev) ''WOOF_NAMELOG_NAME'' = Some (g_namelog_name g)"
  "getenv (launch_env g name ev) ''WOOF_NAMELOG_SEQNO'' = Some (to_string (ev_seq_no ev))"
  by (simp_all add: launch_env_def)

text \<open>The process of the handler: the container's context.\<close>

definition in_context :: "'n process \<Rightarrow> globals \<Rightarrow> 'n process" where
  "in_context p g = p\<lparr>pr_rs := (pr_rs p)\<lparr>rs_Host_ip := g_host_ip g\<rparr>, pr_dir := g_dir g\<rparr>"

definition handler_process :: "'n process \<Rightarrow> globals \<Rightarrow> EVENT \<Rightarrow> LOG option \<Rightarrow> 'n process" where
  "handler_process p g ev log = (in_context p g)\<lparr>pr_namelog_seqno := Some (to_string (ev_seq_no ev)),
     pr_ns := \<lparr>WooF_namespace = g_namespace g, Name_id = g_name_id g, Name_log = log\<rparr>\<rparr>"

lemma shepherd_launch:
  assumes "launchable g ev"
  shows "shepherd logs mem p (launch_env g (ev_woofc_name ev) ev) = shepherd_call logs mem (handler_process p g ev None)
    (g_namelog_dir g @ ''/'' @ g_namelog_name g) (ev_woofc_name ev) (ev_woofc_ndx ev) (ev_woofc_seq_no ev)"
proof -
  have l: "length (g_host_ip g) \<le> 25" "length (g_dir g) < 2048" "length (g_namespace g) \<le> 2048" "length (g_namelog_dir g) \<le> 2048" "g_dir g \<noteq> []"
    using assms by (auto simp: launchable_def launch_strings_def launch_env_def)
  then show ?thesis unfolding shepherd_def need_def getenv_launch by (simp add: handler_process_def in_context_def)
qed

lemma launch_eq:
  assumes "launchable g ev" "chk (g_dir g @ ''/'' @ ev_woofc_handler ev) = Ret 1"
  shows "launch chk logs mem p g ev = run_bind (shepherd_call logs mem (handler_process p g ev None)
    (g_namelog_dir g @ ''/'' @ g_namelog_name g) (ev_woofc_name ev) (ev_woofc_ndx ev) (ev_woofc_seq_no ev)) (\<lambda>x. Ret (Some x))"
proof -
  obtain msg where "forker_payload g ev = Ret msg" "helper_round chk msg
      = Ret (Some (launch_env g (ev_woofc_name ev) ev, g_dir g @ ''/'' @ ev_woofc_handler ev))"
    using helper_receives[OF assms(1), of chk] assms(2) by auto
  then show ?thesis using shepherd_launch[OF assms(1), of logs mem p] by (simp add: launch_def)
qed

section \<open>The slot of an element\<close>

text \<open>Elements with the numbers they get.\<close>

fun numbered_els :: "u64 \<Rightarrow> bytes list \<Rightarrow> (bytes \<times> u64) list" where
  "numbered_els s [] = []"
| "numbered_els s (e # es) = (e, s) # numbered_els (s + 1) es"

lemma length_numbered_els [simp]: "length (numbered_els s es) = length es"
  by (induction es arbitrary: s) simp_all

lemma nth_numbered_els: "i < length es \<Longrightarrow> numbered_els s es ! i = (es ! i, s + of_nat i)"
proof (induction es arbitrary: s i)
  case (Cons e es)
  then show ?case by (cases i) simp_all
qed simp

lemma append_all_slots:
  assumes "usable wo" "\<forall>e\<in>set es. length e = elsz (wf_shared wo)" "unat (wfs_seq_no (wf_shared wo)) + length es < 2 ^ 64"
  shows "\<exists>w'. append_all ns wo es = Ret (wo\<lparr>wf_shared := w'\<rparr>) \<and> usable (wo\<lparr>wf_shared := w'\<rparr>)
    \<and> woof_slots w' = take (hist (wf_shared wo)) (rev (numbered_els (wfs_seq_no (wf_shared wo)) es) @ woof_slots (wf_shared wo))
    \<and> unat (wfs_head w') = (unat (wfs_head (wf_shared wo)) + length es) mod hist (wf_shared wo)
    \<and> wfs_history_size w' = wfs_history_size (wf_shared wo) \<and> wfs_element_size w' = wfs_element_size (wf_shared wo)"
  using assms
proof (induction es arbitrary: wo)
  case Nil
  then have wf: "woof_wf (wf_shared wo)" by (simp add: usable_def)
  then have "unat (wfs_head (wf_shared wo)) < hist (wf_shared wo)" by (simp add: woof_wf_def)
  then show ?case using woof_count_le[OF wf] Nil(1) by (intro exI[of _ "wf_shared wo"]) simp
next
  case (Cons e es)
  let ?w = "wf_shared wo"
  have seq: "unat (wfs_seq_no ?w) < 2 ^ 64 - 1" using Cons.prems(3) by simp
  have wf: "woof_wf ?w" "woof_idle ?w" using Cons.prems(1) by (simp_all add: usable_def)
  obtain w1 where w1: "WooFAppendWithCause (0, 0) ns wo None e 0 0 = Ret (wfs_seq_no ?w, wo\<lparr>wf_shared := w1\<rparr>, ns)"
    "appended ?w e w1"
    using append_ok[OF wf _ seq, of e None ns "(0, 0)" 0 0] Cons.prems(2) by auto
  note a = appendedD[OF w1(2)] appended_latest[OF w1(2) seq wf(1)]
  have slots: "woof_slots w1 = take (hist ?w) ((e, wfs_seq_no ?w) # woof_slots ?w)"
    using w1(2) Cons.prems(2) by (simp add: appended_def)
  have head: "unat (wfs_head w1) = Suc (unat (wfs_head ?w)) mod hist ?w"
    using a(10) wf(1) unat64_next by (simp add: woof_wf_def)
  have "\<exists>w'. append_all ns (wo\<lparr>wf_shared := w1\<rparr>) es = Ret (wo\<lparr>wf_shared := w'\<rparr>) \<and> usable (wo\<lparr>wf_shared := w'\<rparr>)
    \<and> woof_slots w' = take (hist w1) (rev (numbered_els (wfs_seq_no w1) es) @ woof_slots w1)
    \<and> unat (wfs_head w') = (unat (wfs_head w1) + length es) mod hist w1
    \<and> wfs_history_size w' = wfs_history_size w1 \<and> wfs_element_size w' = wfs_element_size w1"
    using Cons.IH[of "wo\<lparr>wf_shared := w1\<rparr>"] Cons.prems a usable_appended[OF Cons.prems(1) w1(2)] by simp
  then obtain w' where w': "append_all ns (wo\<lparr>wf_shared := w1\<rparr>) es = Ret (wo\<lparr>wf_shared := w'\<rparr>)" "usable (wo\<lparr>wf_shared := w'\<rparr>)"
    "woof_slots w' = take (hist w1) (rev (numbered_els (wfs_seq_no w1) es) @ woof_slots w1)"
    "unat (wfs_head w') = (unat (wfs_head w1) + length es) mod hist w1"
    "wfs_history_size w' = wfs_history_size w1" "wfs_element_size w' = wfs_element_size w1"
    by blast
  have "woof_slots w' = take (hist ?w) (rev (numbered_els (wfs_seq_no ?w) (e # es)) @ woof_slots ?w)"
    using w'(3) a(3,4) unfolding slots by (simp only: take_append_take numbered_els.simps rev.simps append_assoc append_Cons append_Nil)
  moreover have "unat (wfs_head w') = (unat (wfs_head ?w) + length (e # es)) mod hist ?w"
    using w'(4) head a(4) by (simp add: mod_add_left_eq)
  ultimately show ?case using w1 a w' by auto
qed

text \<open>What the slot of an element holds after \<open>k\<close> more appends.\<close>

lemma slot_position: "j < n \<Longrightarrow> behind n ((j + k) mod n) (k mod n) = j"
proof -
  assume j: "j < n"
  have "behind n ((j + k) mod n) (k mod n) = ((j + k) mod n + (n - k mod n)) mod n"
    using j by (simp add: behind_def)
  also have "\<dots> = (j + k + (n - k mod n)) mod n" by (simp add: mod_add_left_eq)
  also have "\<dots> = (j + (k div n) * n + n) mod n"
  proof -
    have "k + (n - k mod n) = (k div n) * n + n" using j mod_less_divisor[of n k] div_mult_mod_eq[of k n] by linarith
    then show ?thesis by (simp add: add.assoc)
  qed
  finally show ?thesis using j by simp
qed

lemma slot_after_appends:
  assumes wf: "woof_wf w2" and j: "j < hist w2" and len: "length es < 2 ^ 64"
    and slots: "woof_slots w2 = take (hist w2) (rev (numbered_els (s + 1) es) @ take (hist w2) ((e, s) # old))"
    and head: "unat (wfs_head w2) = (j + length es) mod hist w2"
  shows "length es < hist w2 \<Longrightarrow> slot_rd (elsz w2) (wfs_buf w2) j = (e, s)"
    and "hist w2 \<le> length es \<Longrightarrow> snd (slot_rd (elsz w2) (wfs_buf w2) j) \<noteq> s"
proof -
  let ?k = "length es" and ?n = "hist w2"
  let ?i = "?k mod ?n"
  have i: "?i < ?n" "?i \<le> ?k" using j by auto
  have sl: "woof_slots w2 = take ?n (rev (numbered_els (s + 1) es) @ (e, s) # old)"
    unfolding slots by (rule take_append_take)
  have "?i < length (woof_slots w2)" using i unfolding sl by (auto simp: min_def)
  then have c: "?i < woof_count w2" by simp
  have "slot_rd (elsz w2) (wfs_buf w2) j = woof_slots w2 ! ?i"
    using c slot_position[OF j, of ?k] by (simp add: woof_slots_def head)
  also have "\<dots> = (rev (numbered_els (s + 1) es) @ (e, s) # old) ! ?i" unfolding sl using i by (simp only: nth_take)
  finally have rd: "slot_rd (elsz w2) (wfs_buf w2) j = (rev (numbered_els (s + 1) es) @ (e, s) # old) ! ?i" .
  show "slot_rd (elsz w2) (wfs_buf w2) j = (e, s)" if "?k < ?n" using rd that by (simp add: nth_append)
  show "snd (slot_rd (elsz w2) (wfs_buf w2) j) \<noteq> s" if "?n \<le> ?k"
  proof -
    have lt: "?i < ?k" using that i by simp
    then have "snd (slot_rd (elsz w2) (wfs_buf w2) j) = s + 1 + of_nat (?k - Suc ?i)"
      using rd by (simp add: nth_append rev_nth nth_numbered_els)
    also have "\<dots> = s + of_nat (?k - ?i)" using lt by (simp add: algebra_simps Suc_diff_Suc flip: of_nat_Suc)
    finally have "snd (slot_rd (elsz w2) (wfs_buf w2) j) = s + of_nat (?k - ?i)" .
    moreover have "(of_nat (?k - ?i) :: u64) \<noteq> 0"
      using lt len by (simp add: word_unat_eq_iff unat_of_nat take_bit_nat_eq_self del: of_nat_diff)
    ultimately show ?thesis by simp
  qed
qed

lemma slot_seq_no_eq:
  assumes "woof_wf w" "unat ndx \<le> hist w"
  shows "slot_seq_no w ndx = Ret (snd (slot_rd (elsz w) (wfs_buf w) (unat ndx)))"
  using slot_in_buf[OF assms] unat_slot_ptr(2)[OF assms] by (simp add: slot_seq_no_def memcpy_from_def slot_rd_def)

lemma shepherd_call_ok:
  assumes "holds p name wo" "length log_name < 4096" "logs log_name = Some log" "mem (elsz (wf_shared wo))"
    "unat ndx < hist (wf_shared wo)"
  shows "shepherd_call logs mem p log_name name ndx seq_no =
    (let (e, s) = slot_rd (elsz (wf_shared wo)) (wfs_buf (wf_shared wo)) (unat ndx) in
     Ret (if s \<noteq> seq_no then Exited 0
          else Calls_Handler (path_of p name, wo) seq_no e (p\<lparr>pr_ns := (pr_ns p)\<lparr>Name_log := Some log\<rparr>\<rparr>)))"
proof -
  have wf: "woof_wf (wf_shared wo)" using assms(1) by (simp add: holds_def usable_def)
  show ?thesis
    using WooFOpen_plain[OF assms(1)] assms slot_read_eq[OF wf, of ndx] slot_seq_no_eq[OF wf, of ndx]
    by (simp add: shepherd_call_def Let_def case_prod_beta)
qed

section \<open>From the put to the handler\<close>

text \<open>The names of a namespace that fit the buffers of the forker.\<close>

definition context_fits :: "globals \<Rightarrow> string \<Rightarrow> string \<Rightarrow> bool" where
  "context_fits g name h \<longleftrightarrow> CHR ''/'' \<in> set (g_dir g) \<and> length name < 128 \<and> length h < 128
     \<and> length (g_namespace g) < 239 \<and> length (g_dir g) + length h < 254 \<and> length (g_dir g) < 245 \<and> length (g_host_ip g) < 25
     \<and> length (g_namelog_dir g) < 238 \<and> length (g_namelog_name g) < 237
     \<and> NUL \<notin> set (g_namespace g @ g_dir g @ g_host_ip g @ g_namelog_dir g @ g_namelog_name g @ name @ h)"

lemma context_fits_launchable:
  assumes "context_fits g (ev_woofc_name ev) (ev_woofc_handler ev)"
  shows "launchable g ev"
proof -
  note n = length_to_string[of "ev_woofc_ndx ev"] length_to_string[of "ev_woofc_seq_no ev"]
    length_to_string[of "g_name_id g"] length_to_string[of "ev_seq_no ev"]
  show ?thesis
    using assms n unfolding launchable_def launch_strings_def launch_env_def context_fits_def
    by (simp add: NUL_to_string[unfolded NUL_def] NUL_def)
qed

lemma handler_process_holds:
  assumes "process_ok (in_context p g)" "\<not> WooFValidURI name" "length (path_of (in_context p g) name) < 4096"
    "usable wo" "pr_files p (path_of (in_context p g) name) = Some wo"
  shows "holds (handler_process p g ev log) name wo"
    "path_of (handler_process p g ev log) name = path_of (in_context p g) name"
  using assms by (simp_all add: holds_def handler_process_def in_context_def path_of_def process_ok_def)

text \<open>The slot of an element after more appends.\<close>

lemma put_slot_later:
  assumes "usable wo" "appended (wf_shared wo) e w1" "length e = elsz (wf_shared wo)" "\<forall>x\<in>set es. length x = elsz (wf_shared wo)"
    "unat (wfs_seq_no (wf_shared wo)) + Suc (length es) < 2 ^ 64"
  obtains w2 where "append_all ns (wo\<lparr>wf_shared := w1\<rparr>) es = Ret (wo\<lparr>wf_shared := w2\<rparr>)" "usable (wo\<lparr>wf_shared := w2\<rparr>)"
    "unat (wfs_head w1) < hist w2" "hist w2 = hist (wf_shared wo)" "elsz w2 = elsz (wf_shared wo)"
    "length es < hist (wf_shared wo) \<Longrightarrow> slot_rd (elsz w2) (wfs_buf w2) (unat (wfs_head w1)) = (e, wfs_seq_no (wf_shared wo))"
    "hist (wf_shared wo) \<le> length es \<Longrightarrow> snd (slot_rd (elsz w2) (wfs_buf w2) (unat (wfs_head w1))) \<noteq> wfs_seq_no (wf_shared wo)"
proof -
  let ?w = "wf_shared wo"
  have "woof_wf ?w" "unat (wfs_seq_no ?w) < 2 ^ 64 - 1" using assms(1,5) by (simp_all add: usable_def)
  note a = appendedD[OF assms(2)] appended_latest[OF assms(2) this(2,1)]
  obtain w2 where w2: "append_all ns (wo\<lparr>wf_shared := w1\<rparr>) es = Ret (wo\<lparr>wf_shared := w2\<rparr>)" "usable (wo\<lparr>wf_shared := w2\<rparr>)"
    "woof_slots w2 = take (hist ?w) (rev (numbered_els (wfs_seq_no ?w + 1) es) @ woof_slots w1)"
    "unat (wfs_head w2) = (unat (wfs_head w1) + length es) mod hist ?w"
    "wfs_history_size w2 = wfs_history_size ?w" "wfs_element_size w2 = wfs_element_size ?w"
    using append_all_slots[OF usable_appended[OF assms(1,2)], of es ns] a assms(4,5) by auto
  have wf2: "woof_wf w2" using w2(2) by (simp add: usable_def)
  have j: "unat (wfs_head w1) < hist w2" using a(1,4) w2(5) by (simp add: woof_wf_def)
  have slots: "woof_slots w2 = take (hist w2) (rev (numbered_els (wfs_seq_no ?w + 1) es)
      @ take (hist w2) ((e, wfs_seq_no ?w) # woof_slots ?w))"
    using w2(3,5) assms(2,3) by (simp add: appended_def)
  have len: "length es < 2 ^ 64" using assms(5) by simp
  show thesis
    using that[OF w2(1,2) j] slot_after_appends[OF wf2 j len slots] w2(4-6) by simp
qed

section \<open>Properties\<close>

text \<open>C5: a handler runs on the element that was put for it, or not at all. A put with a handler logs a
  trigger; whatever is appended before the handler starts, the dispatcher's launch of that trigger
  passes the context through the helper and calls the handler, with the namespace, directory, address,
  identity and log of the container (whose names fit the forker's buffers), with the sequence number and the bytes of the put as long as its slot was not overwritten; when the WooF
  has wrapped past the element the shepherd exits without calling it.\<close>

theorem handler_gets_put_element:
  fixes p :: "'n process"
  assumes "usable wo" "length e = elsz (wf_shared wo)" "\<forall>x\<in>set es. length x = elsz (wf_shared wo)"
    "unat (wfs_seq_no (wf_shared wo)) + Suc (length es) < 2 ^ 64"
    "Name_log ns = Some l" "log_wf l" "1 < unat (log_size l)" "0 < sem_val (log_mutex l)" "log_seq_no l \<noteq> 0"
    "context_fits g (wfs_filename (wf_shared wo)) h" "process_ok (in_context p g)"
    "\<not> WooFValidURI (wfs_filename (wf_shared wo))"
    "logs (g_namelog_dir g @ ''/'' @ g_namelog_name g) = Some nl" "mem (elsz (wf_shared wo))"
    "chk (g_dir g @ ''/'' @ h) = Ret 1"
  defines "path \<equiv> path_of (in_context p g) (wfs_filename (wf_shared wo))"
  shows "\<exists>wo1 l1 wo2 ev p'. WooFAppendWithCause ts ns wo (Some h) e ch cs
      = Ret (wfs_seq_no (wf_shared wo), wo1, ns\<lparr>Name_log := Some l1\<rparr>) \<and> ev = hd (log_view l1)
    \<and> append_all (ns\<lparr>Name_log := Some l1\<rparr>) wo1 es = Ret wo2 \<and> p' = p\<lparr>pr_files := (pr_files p)(path \<mapsto> wo2)\<rparr>
    \<and> launch chk logs mem p' g ev = Ret (Some (if length es < hist (wf_shared wo)
        then Calls_Handler (path, wo2) (wfs_seq_no (wf_shared wo)) e (handler_process p' g ev (Some nl)) else Exited 0))"
proof -
  let ?w = "wf_shared wo" and ?name = "wfs_filename (wf_shared wo)"
  have u: "woof_wf ?w" "woof_idle ?w" using assms(1) by (simp_all add: usable_def)
  have seq: "unat (wfs_seq_no ?w) < 2 ^ 64 - 1" using assms(4) by simp
  obtain w1 l1 ev where app: "WooFAppendWithCause ts ns wo (Some h) e ch cs
      = Ret (wfs_seq_no ?w, wo\<lparr>wf_shared := w1\<rparr>, ns\<lparr>Name_log := Some l1\<rparr>)" "appended ?w e w1"
      "log_view l1 = take (unat (log_size l) - 1) (ev # log_view l)"
    and ev: "ev = (trigger_event ns wo h ((EventCreate ts TRIGGER (Name_id ns))\<lparr>ev_cause_host := ch, ev_cause_seq_no := cs\<rparr>)
       ((wfs_head ?w + 1) mod wfs_history_size ?w) (wfs_seq_no ?w))\<lparr>ev_seq_no := log_seq_no l\<rparr>"
    using append_trigger[OF u _ seq assms(5,6,8,9), of e ts h ch cs] assms(2) by (metis order_refl)
  have hd: "hd (log_view l1) = ev" using app(3) assms(7) by (simp add: hd_take)
  have lens: "length ?name < 128" "length h < 128" using assms(10) by (auto simp: context_fits_def)
  have evf: "ev_woofc_name ev = ?name" "ev_woofc_handler ev = h" "ev_woofc_seq_no ev = wfs_seq_no ?w"
    "ev_woofc_ndx ev = wfs_head w1"
    using lens appendedD(10)[OF app(2)] by (simp_all add: ev trigger_event_def)
  obtain w2 where w2: "append_all (ns\<lparr>Name_log := Some l1\<rparr>) (wo\<lparr>wf_shared := w1\<rparr>) es = Ret (wo\<lparr>wf_shared := w2\<rparr>)"
    "usable (wo\<lparr>wf_shared := w2\<rparr>)" "unat (wfs_head w1) < hist w2" "hist w2 = hist ?w" "elsz w2 = elsz ?w"
    "length es < hist ?w \<Longrightarrow> slot_rd (elsz w2) (wfs_buf w2) (unat (wfs_head w1)) = (e, wfs_seq_no ?w)"
    "hist ?w \<le> length es \<Longrightarrow> snd (slot_rd (elsz w2) (wfs_buf w2) (unat (wfs_head w1))) \<noteq> wfs_seq_no ?w"
    using put_slot_later[OF assms(1) app(2) assms(2-4), of "ns\<lparr>Name_log := Some l1\<rparr>"] by blast
  let ?p = "p\<lparr>pr_files := (pr_files p)(path \<mapsto> wo\<lparr>wf_shared := w2\<rparr>)\<rparr>"
  have path: "length path < 4096" "path = path_of (in_context ?p g) ?name"
    using assms(10) by (auto simp: path_def path_of_def dir_prefix_def context_fits_def in_context_def)
  have holds: "holds (handler_process ?p g ev None) ?name (wo\<lparr>wf_shared := w2\<rparr>)" "path_of (handler_process ?p g ev None) ?name = path"
    using handler_process_holds[where p = ?p and g = g and name = ?name and wo = "wo\<lparr>wf_shared := w2\<rparr>" and ev = ev and log = None] assms(11,12) w2(2) path
    by (simp_all add: process_ok_def in_context_def)
  have ll: "length (g_namelog_dir g @ ''/'' @ g_namelog_name g) < 4096" using assms(10) by (simp add: context_fits_def)
  have "launch chk logs mem ?p g ev = run_bind (shepherd_call logs mem (handler_process ?p g ev None)
      (g_namelog_dir g @ ''/'' @ g_namelog_name g) ?name (wfs_head w1) (wfs_seq_no ?w)) (\<lambda>x. Ret (Some x))"
    using launch_eq[of g ev chk logs mem ?p] context_fits_launchable[of g ev] assms(10,15) evf by simp
  also have "\<dots> = Ret (Some (if length es < hist ?w
        then Calls_Handler (path, wo\<lparr>wf_shared := w2\<rparr>) (wfs_seq_no ?w) e (handler_process ?p g ev (Some nl)) else Exited 0))"
    using shepherd_call_ok[OF holds(1) ll, of logs nl mem "wfs_head w1" "wfs_seq_no ?w"] assms(13,14) w2(3-7) holds(2)
    by (auto simp: case_prod_beta handler_process_def not_less)
  finally show ?thesis using app(1) hd w2(1) by blast
qed

definition demo_globals :: globals where
  "demo_globals = \<lparr>g_namespace = ''/home/ns'', g_dir = ''/home/ns'', g_host_ip = ''10.0.0.1'', g_name_id = 7,
     g_namelog_dir = ''/home/log'', g_namelog_name = ''ns.log''\<rparr>"

lemma demo_globals_fit: "context_fits demo_globals ''w'' ''h''"
  by (simp add: context_fits_def demo_globals_def NUL_def)

theorem handler_gets_put_element_witness:
  "\<exists>wo1 l1 wo2 ev (p' :: unit process). WooFAppendWithCause (0, 0) idle_ns \<lparr>wf_shared = wrapped_woof, wf_ino = 5\<rparr> (Some ''h'') [40] 7 0
      = Ret (4, wo1, idle_ns\<lparr>Name_log := Some l1\<rparr>) \<and> append_all (idle_ns\<lparr>Name_log := Some l1\<rparr>) wo1 [[50]] = Ret wo2
    \<and> launch (\<lambda>prog. CheckHandlerWatermark (\<lambda>_. True) [''/home/ns/h'' \<mapsto> demo_handler] (Some prog))
        [''/home/log/ns.log'' \<mapsto> tail_example] (\<lambda>_. True) p' demo_globals ev
      = Ret (Some (Calls_Handler (''/home/ns/w'', wo2) 4 [40] (handler_process p' demo_globals ev (Some tail_example))))"
proof -
  let ?wo = "\<lparr>wf_shared = wrapped_woof, wf_ino = 5\<rparr>"
  have wo: "usable ?wo" "elsz wrapped_woof = 1" "hist wrapped_woof = 2" "wfs_seq_no wrapped_woof = 4" "wfs_filename wrapped_woof = ''w''"
    using wrapped_woof_wf by (simp_all add: usable_def) (simp_all add: wrapped_woof_def)
  have l: "Name_log idle_ns = Some tail_example" "log_wf tail_example" "1 < unat (log_size tail_example)"
    "0 < sem_val (log_mutex tail_example)" "log_seq_no tail_example \<noteq> 0"
    by (simp_all add: idle_ns_def tail_example_def log_wf_def log_fits_def)
  have g: "g_dir demo_globals = ''/home/ns''" "g_namelog_dir demo_globals = ''/home/log''" "g_namelog_name demo_globals = ''ns.log''"
    by (simp_all add: demo_globals_def)
  have p: "process_ok (in_context (demo_process ()) demo_globals)"
    "path_of (in_context (demo_process ()) demo_globals) ''w'' = ''/home/ns/w''"
    by (simp_all add: process_ok_def path_of_def dir_prefix_def in_context_def demo_globals_def local_ip_def WooFLocalIP_def copy_addr_def)
  let ?chk = "\<lambda>prog. CheckHandlerWatermark (\<lambda>_. True) [''/home/ns/h'' \<mapsto> demo_handler] (Some prog)"
  let ?logs = "[''/home/log/ns.log'' \<mapsto> tail_example]"
  have "\<exists>wo1 l1 wo2 ev p'. WooFAppendWithCause (0, 0) idle_ns ?wo (Some ''h'') [40] 7 0
      = Ret (wfs_seq_no (wf_shared ?wo), wo1, idle_ns\<lparr>Name_log := Some l1\<rparr>) \<and> ev = hd (log_view l1)
    \<and> append_all (idle_ns\<lparr>Name_log := Some l1\<rparr>) wo1 [[50]] = Ret wo2
    \<and> p' = (demo_process ())\<lparr>pr_files := (pr_files (demo_process ()))(path_of (in_context (demo_process ()) demo_globals) (wfs_filename (wf_shared ?wo)) \<mapsto> wo2)\<rparr>
    \<and> launch ?chk ?logs (\<lambda>_. True) p' demo_globals ev = Ret (Some (if length [[50 :: u8]] < hist (wf_shared ?wo)
        then Calls_Handler (path_of (in_context (demo_process ()) demo_globals) (wfs_filename (wf_shared ?wo)), wo2)
          (wfs_seq_no (wf_shared ?wo)) [40] (handler_process p' demo_globals ev (Some tail_example)) else Exited 0))"
    by (rule handler_gets_put_element[where l = tail_example])
      (simp_all add: wo l g p demo_globals_fit demo_handler_marked demo_process_ok WooFValidURI_def del: One_nat_def)
  then show ?thesis by (simp add: wo p del: append_all.simps) blast
qed

end
