(* ===== verification/Caplets.thy ===== *)
theory Caplets
  imports Cspot_Prelude
begin

text \<open>
  Capabilities (\<^verbatim>\<open>src/src/caplets/woofc-caplets.c\<close>). A capability carries a check value; the
  principal's check is the secret, and a weaker capability is derived by hashing the check down
  one permission level at a time. The keyed hash HMAC-SHA256 of the OpenSSL library is the
  parameter \<open>hmac\<close>, a function from a key and a message to the digest bytes.
\<close>

unbundle bit_operations_syntax

section \<open>Capabilities\<close>

record WCAP =
  permissions :: u32
  flags :: u16
  frame_size :: u16
  check :: u64

definition WCAP_READ :: u32 where "WCAP_READ = 0x1"
definition WCAP_WRITE :: u32 where "WCAP_WRITE = 0x2"
definition WCAP_EXEC :: u32 where "WCAP_EXEC = 0x4"
definition WCAP_INIT :: u32 where "WCAP_INIT = 0x8"
definition WCAP_DESTROY :: u32 where "WCAP_DESTROY = 0x10"
definition WCAP_POLICY_ATTACH :: u32 where "WCAP_POLICY_ATTACH = 0x20"

definition WCAP_MAX_PERM :: u32 where "WCAP_MAX_PERM = WCAP_POLICY_ATTACH"

definition WCAP_PRINCIPAL :: u32 where
  "WCAP_PRINCIPAL = WCAP_EXEC OR WCAP_WRITE OR WCAP_READ OR WCAP_INIT OR WCAP_DESTROY OR WCAP_POLICY_ATTACH"

type_synonym hmac = "bytes \<Rightarrow> bytes \<Rightarrow> bytes"

text \<open>The memory image of a capability: 16 bytes, without padding.\<close>

definition cap_bytes :: "WCAP \<Rightarrow> bytes" where
  "cap_bytes c = le_bytes 4 (unat (permissions c)) @ le_bytes 2 (unat (flags c))
     @ le_bytes 2 (unat (frame_size c)) @ le64 (check c)"

definition of_cap_bytes :: "bytes \<Rightarrow> WCAP" where
  "of_cap_bytes b = \<lparr>permissions = of_nat (of_le_bytes (take 4 b)), flags = of_nat (of_le_bytes (take 2 (drop 4 b))),
     frame_size = of_nat (of_le_bytes (take 2 (drop 6 b))), check = of_le64 (take 8 (drop 8 b))\<rparr>"

definition WooFCapSign :: "hmac \<Rightarrow> bytes \<Rightarrow> u64 \<Rightarrow> u64" where
  "WooFCapSign hmac udata key = of_le64 (take 8 (hmac (le64 key) udata))"

definition WooFCapCheck :: "hmac \<Rightarrow> WCAP \<Rightarrow> u64 \<Rightarrow> u64" where
  "WooFCapCheck hmac cap key = of_le64 (take 8 (hmac (le64 key) (cap_bytes cap)))"

text \<open>The principal capability that \<open>WooFCapInit\<close> stores, with the nonce it drew.\<close>

definition principal_cap :: "u64 \<Rightarrow> WCAP" where
  "principal_cap nonce = \<lparr>permissions = WCAP_PRINCIPAL, flags = 0, frame_size = 0, check = nonce\<rparr>"

section \<open>Attenuation\<close>

lemma div2_less: "perm < permitted \<Longrightarrow> unat (permitted div 2 :: u32) < unat permitted"
proof -
  assume "perm < permitted"
  then have "0 < unat permitted" by (simp add: word_less_nat_alt)
  moreover have "unat (permitted div 2) = unat permitted div 2" by (simp add: unat_div_distrib)
  ultimately show ?thesis by simp
qed

function lower_to :: "u32 \<Rightarrow> u32 \<Rightarrow> u32" where
  "lower_to perms permitted = (if perms < permitted then lower_to perms (permitted div 2) else permitted)"
  by pat_completeness auto
termination by (relation "measure (\<lambda>(perms, permitted). unat permitted)") (auto intro: div2_less)

declare lower_to.simps [simp del]

function attenuate_loop :: "hmac \<Rightarrow> WCAP \<Rightarrow> u32 \<Rightarrow> u32 \<Rightarrow> WCAP" where
  "attenuate_loop hmac new_cap permitted perm =
     (if perm < permitted then
        let c = new_cap\<lparr>permissions := permissions new_cap AND NOT permitted\<rparr> in
        attenuate_loop hmac (c\<lparr>check := WooFCapCheck hmac c (check c)\<rparr>) (permitted div 2) perm
      else new_cap)"
  by pat_completeness auto
termination by (relation "measure (\<lambda>(hmac, new_cap, permitted, perm). unat permitted)") (auto intro: div2_less)

declare attenuate_loop.simps [simp del]

definition WooFCapAttenuate :: "hmac \<Rightarrow> WCAP \<Rightarrow> u32 \<Rightarrow> WCAP option" where
  "WooFCapAttenuate hmac cap perm =
     (if permissions cap < perm then None
      else if perm = permissions cap then Some cap
      else Some (attenuate_loop hmac (cap\<lparr>permissions := permissions cap AND WCAP_PRINCIPAL\<rparr>)
                  (lower_to (permissions cap) WCAP_MAX_PERM) perm))"

section \<open>Authorization\<close>

function authorized_loop :: "hmac \<Rightarrow> WCAP \<Rightarrow> WCAP \<Rightarrow> u32 \<Rightarrow> u32 \<Rightarrow> u64" where
  "authorized_loop hmac cap local permitted perm =
     (if perm < permitted then
        let l = local\<lparr>permissions := permissions local div 2\<rparr>; l' = l\<lparr>check := WooFCapCheck hmac l (check l)\<rparr> in
        if check cap = check l' \<and> perm \<le> permissions l' then check l'
        else authorized_loop hmac cap l' (permitted div 2) perm
      else check local)"
  by pat_completeness auto
termination by (relation "measure (\<lambda>(hmac, cap, local, permitted, perm). unat permitted)") (auto intro: div2_less)

declare authorized_loop.simps [simp del]

definition WooFCapAuthorized :: "hmac \<Rightarrow> u64 \<Rightarrow> WCAP \<Rightarrow> u32 \<Rightarrow> int" where
  "WooFCapAuthorized hmac secret cap perm =
     (if WCAP_MAX_PERM < perm then 0
      else if authorized_loop hmac cap (principal_cap secret) WCAP_MAX_PERM perm = check cap then 1 else 0)"

section \<open>The ladder of levels\<close>

text \<open>
  Level \<open>i\<close> below the principal has the permission mask \<open>2 ^ (6 - i) - 1\<close> and the check obtained
  by \<open>i\<close> hashing steps from the secret.
\<close>

fun ladder :: "hmac \<Rightarrow> u64 \<Rightarrow> nat \<Rightarrow> WCAP" where
  "ladder hmac secret 0 = principal_cap secret"
| "ladder hmac secret (Suc i) =
     (let c = (ladder hmac secret i)\<lparr>permissions := permissions (ladder hmac secret i) div 2\<rparr> in
      c\<lparr>check := WooFCapCheck hmac c (check c)\<rparr>)"

text \<open>The number of steps from the principal down to the level of a permission.\<close>

definition level_of :: "u32 \<Rightarrow> nat" where
  "level_of perm = (if 0x20 \<le> perm then 0 else if 0x10 \<le> perm then 1 else if 0x8 \<le> perm then 2
     else if 0x4 \<le> perm then 3 else if 0x2 \<le> perm then 4 else if 0x1 \<le> perm then 5 else 6)"

lemma level_of_le: "level_of perm \<le> 6"
  by (simp add: level_of_def)

lemmas perm_defs = WCAP_READ_def WCAP_WRITE_def WCAP_EXEC_def WCAP_INIT_def WCAP_DESTROY_def
  WCAP_POLICY_ATTACH_def WCAP_MAX_PERM_def WCAP_PRINCIPAL_def

lemma WCAP_PRINCIPAL_value: "WCAP_PRINCIPAL = 0x3f"
  by (simp add: perm_defs)

lemma ladder_levels: "i \<le> 6 \<longleftrightarrow> i = 0 \<or> i = 1 \<or> i = 2 \<or> i = 3 \<or> i = 4 \<or> i = 5 \<or> i = (6 :: nat)"
  by auto

definition mask_of :: "nat \<Rightarrow> u32" where
  "mask_of i = (if i = 0 then 0x3f else if i = 1 then 0x1f else if i = 2 then 0xf else if i = 3 then 0x7
     else if i = 4 then 0x3 else if i = 5 then 0x1 else 0)"

definition top_of :: "nat \<Rightarrow> u32" where
  "top_of i = (if i = 0 then 0x20 else if i = 1 then 0x10 else if i = 2 then 0x8 else if i = 3 then 0x4
     else if i = 4 then 0x2 else if i = 5 then 0x1 else 0)"

lemmas level_defs = mask_of_def top_of_def level_of_def

lemma top_of_div2: "i < 6 \<Longrightarrow> top_of i div 2 = top_of (Suc i)"
  using ladder_levels[of i] by (auto simp: top_of_def)

lemma mask_of_div2: "i < 6 \<Longrightarrow> mask_of i div 2 = mask_of (Suc i)"
  using ladder_levels[of i] by (auto simp: mask_of_def)

lemma mask_of_clear: "i < 6 \<Longrightarrow> mask_of i AND NOT (top_of i) = mask_of (Suc i)"
  using ladder_levels[of i] by (auto simp: mask_of_def top_of_def)

lemma mask_of_principal: "i \<le> 6 \<Longrightarrow> mask_of i AND WCAP_PRINCIPAL = mask_of i"
  using ladder_levels[of i] by (auto simp: mask_of_def WCAP_PRINCIPAL_value)

lemma less_top_of: "i \<le> 6 \<Longrightarrow> perm < top_of i \<longleftrightarrow> i < level_of perm"
  using ladder_levels[of i] by (auto simp: top_of_def level_of_def word_le_nat_alt word_less_nat_alt)

lemma le_mask_of: "i \<le> 6 \<Longrightarrow> perm \<le> 0x3f \<Longrightarrow> perm \<le> mask_of i \<longleftrightarrow> i \<le> level_of perm"
  using ladder_levels[of i] by (auto simp: mask_of_def level_of_def word_le_nat_alt)

lemma mask_less_top: "i \<le> 6 \<Longrightarrow> j \<le> 6 \<Longrightarrow> mask_of i < top_of j \<longleftrightarrow> j < i"
  using ladder_levels[of i] ladder_levels[of j] by (auto simp: mask_of_def top_of_def)

lemma level_of_mask: "i \<le> 6 \<Longrightarrow> level_of (mask_of i) = i"
  using ladder_levels[of i] by (auto simp: mask_of_def level_of_def word_le_nat_alt)

lemma ladder_fields:
  "i \<le> 6 \<Longrightarrow> permissions (ladder hmac secret i) = mask_of i"
proof (induction i)
  case 0
  then show ?case by (simp add: principal_cap_def WCAP_PRINCIPAL_value mask_of_def)
next
  case (Suc i)
  then show ?case using mask_of_div2[of i] by (simp add: Let_def)
qed

text \<open>One attenuation step goes down one level.\<close>

lemma attenuate_step:
  assumes "i < 6"
  shows "(let c = (ladder hmac secret i)\<lparr>permissions := permissions (ladder hmac secret i) AND NOT (top_of i)\<rparr> in
          c\<lparr>check := WooFCapCheck hmac c (check c)\<rparr>) = ladder hmac secret (Suc i)"
  using assms ladder_fields[of i hmac secret] mask_of_clear[OF assms] mask_of_div2[OF assms]
  by (simp add: Let_def)

lemma lower_to_top: "j \<le> i \<Longrightarrow> i \<le> 6 \<Longrightarrow> lower_to (mask_of i) (top_of j) = top_of i"
proof (induction "i - j" arbitrary: j)
  case 0
  then show ?case using mask_less_top[of i j] by (subst lower_to.simps) simp
next
  case (Suc k)
  then show ?case using mask_less_top[of i j] top_of_div2[of j] by (subst lower_to.simps) simp
qed

lemma attenuate_loop_ladder:
  "i \<le> 6 \<Longrightarrow> attenuate_loop hmac (ladder hmac secret i) (top_of i) perm = ladder hmac secret (max i (level_of perm))"
proof (induction "level_of perm - i" arbitrary: i)
  case 0
  then show ?case using less_top_of[of i perm] by (subst attenuate_loop.simps) simp
next
  case (Suc k)
  then have i: "i < level_of perm" "i < 6" using level_of_le[of perm] by auto
  have "attenuate_loop hmac (ladder hmac secret i) (top_of i) perm
        = attenuate_loop hmac (ladder hmac secret (Suc i)) (top_of (Suc i)) perm"
    using attenuate_step[OF i(2), of hmac secret] less_top_of[of i perm] i top_of_div2[OF i(2)]
    by (subst attenuate_loop.simps) (simp add: Let_def)
  then show ?case using Suc.hyps(1)[of "Suc i"] Suc.hyps(2) i by simp
qed

lemma attenuate_ladder:
  assumes "i \<le> 6"
  shows "WooFCapAttenuate hmac (ladder hmac secret i) perm =
    (if mask_of i < perm then None else Some (ladder hmac secret (level_of perm)))"
proof (cases "mask_of i < perm")
  case True
  then show ?thesis using ladder_fields[OF assms] by (simp add: WooFCapAttenuate_def)
next
  case False
  have "mask_of i \<le> 0x3f" using ladder_levels[of i] assms by (auto simp: mask_of_def word_le_nat_alt)
  then have "perm \<le> 0x3f" "perm \<le> mask_of i" using False by auto
  then have lv: "i \<le> level_of perm" using le_mask_of[OF assms, of perm] by simp
  have top: "lower_to (mask_of i) WCAP_MAX_PERM = top_of i"
    using lower_to_top[of 0 i] assms by (simp add: top_of_def perm_defs)
  have eq: "(ladder hmac secret i)\<lparr>permissions := mask_of i\<rparr> = ladder hmac secret i"
    using ladder_fields[OF assms, of hmac secret] by simp
  have "attenuate_loop hmac ((ladder hmac secret i)\<lparr>permissions := mask_of i\<rparr>) (top_of i) perm = ladder hmac secret (level_of perm)"
    unfolding eq using attenuate_loop_ladder[OF assms, of hmac secret perm] lv by simp
  then show ?thesis
    using False top ladder_fields[OF assms, of hmac secret] mask_of_principal[OF assms] level_of_mask[OF assms]
    by (auto simp: WooFCapAttenuate_def)
qed

lemma ex_less_Suc: "(\<exists>j. i < j \<and> P j) \<longleftrightarrow> P (Suc i) \<or> (\<exists>j. Suc i < j \<and> P j)" for i :: nat
  by (metis Suc_lessI lessI less_trans)

lemma authorized_loop_ladder:
  "i \<le> 6 \<Longrightarrow> authorized_loop hmac cap (ladder hmac secret i) (top_of i) perm = check cap \<longleftrightarrow>
     (if i < level_of perm then \<exists>j. i < j \<and> j \<le> level_of perm \<and> check (ladder hmac secret j) = check cap
      else check (ladder hmac secret i) = check cap)"
proof (induction "level_of perm - i" arbitrary: i)
  case 0
  then show ?case using less_top_of[of i perm] by (subst authorized_loop.simps) simp
next
  case (Suc k)
  let ?l = "ladder hmac secret" and ?L = "level_of perm"
  have i: "i < ?L" "i < 6" using Suc level_of_le[of perm] by auto
  have "perm \<le> 0x3f" using less_top_of[of 0 perm] i by (auto simp: top_of_def word_less_nat_alt word_le_nat_alt)
  then have pm: "perm \<le> permissions (?l (Suc i))"
    using le_mask_of[of "Suc i" perm] ladder_fields[of "Suc i"] i by simp
  have "authorized_loop hmac cap (?l i) (top_of i) perm
     = (if check cap = check (?l (Suc i)) \<and> perm \<le> permissions (?l (Suc i)) then check (?l (Suc i))
        else authorized_loop hmac cap (?l (Suc i)) (top_of (Suc i)) perm)"
    using less_top_of[of i perm] i top_of_div2[OF i(2)] by (subst authorized_loop.simps) (simp add: Let_def)
  then have "authorized_loop hmac cap (?l i) (top_of i) perm = check cap \<longleftrightarrow> check (?l (Suc i)) = check cap
       \<or> authorized_loop hmac cap (?l (Suc i)) (top_of (Suc i)) perm = check cap"
    using pm by auto
  also have "\<dots> \<longleftrightarrow> (\<exists>j. i < j \<and> j \<le> ?L \<and> check (?l j) = check cap)"
  proof (cases "Suc i < ?L")
    case True
    then show ?thesis
      using Suc.hyps(1)[of "Suc i"] Suc.hyps(2) i ex_less_Suc[of i "\<lambda>j. j \<le> ?L \<and> check (?l j) = check cap"]
      by (simp del: ladder.simps)
  next
    case False
    then have "?L = Suc i" using i by simp
    then show ?thesis
      using Suc.hyps(1)[of "Suc i"] Suc.hyps(2) i ex_less_Suc[of i "\<lambda>j. j \<le> ?L \<and> check (?l j) = check cap"]
      by (auto simp del: ladder.simps)
  qed
  finally show ?case using i by simp
qed

lemma authorized_ladder:
  "WooFCapAuthorized hmac secret cap perm = 1 \<longleftrightarrow> perm \<le> 0x20 \<and>
     (if perm = 0x20 then check cap = secret
      else \<exists>j. 0 < j \<and> j \<le> level_of perm \<and> check (ladder hmac secret j) = check cap)"
proof -
  have top: "top_of 0 = WCAP_MAX_PERM" by (simp add: top_of_def perm_defs)
  have lv: "perm \<le> 0x20 \<Longrightarrow> 0 < level_of perm \<longleftrightarrow> perm \<noteq> 0x20"
    using less_top_of[of 0 perm] by (auto simp: top_of_def)
  show ?thesis
    using authorized_loop_ladder[of 0 hmac cap secret perm] lv
    by (auto simp: WooFCapAuthorized_def top perm_defs not_less principal_cap_def simp del: ladder.simps(2)
        split: if_splits)
qed

lemma principal_attenuate:
  assumes "WooFCapAttenuate hmac (principal_cap secret) p = Some c"
  shows "c = ladder hmac secret (level_of p)" "p \<le> 0x3f" "permissions c = mask_of (level_of p)"
proof -
  have "WooFCapAttenuate hmac (ladder hmac secret 0) p = Some c" using assms by simp
  then show "c = ladder hmac secret (level_of p)" "p \<le> 0x3f"
    by (auto simp: attenuate_ladder mask_of_def not_less split: if_splits simp del: ladder.simps)
  then show "permissions c = mask_of (level_of p)" using ladder_fields[OF level_of_le] by simp
qed

section \<open>Round trip of the memory image\<close>

lemma length_cap_bytes [simp]: "length (cap_bytes c) = 16"
  by (simp add: cap_bytes_def)

lemma of_cap_bytes_cap_bytes [simp]: "of_cap_bytes (cap_bytes c) = c"
proof -
  have "unat (permissions c) < 256 ^ 4" "unat (flags c) < 256 ^ 2" "unat (frame_size c) < 256 ^ 2"
    using unsigned_less[of "permissions c", where 'a = nat] unsigned_less[of "flags c", where 'a = nat]
      unsigned_less[of "frame_size c", where 'a = nat] by simp_all
  then show ?thesis by (simp add: of_cap_bytes_def cap_bytes_def of_le_bytes_le_bytes)
qed

section \<open>Properties\<close>

text \<open>C18: attenuation does not depend on the path. Attenuating an attenuated capability gives the
  same capability as attenuating the principal directly, and is refused exactly when it asks for
  more than the capability has. So a holder of a stronger capability and the owner of the secret
  derive the same check for a request, and a weaker holder derives nothing.\<close>

theorem attenuate_path_independent:
  assumes "WooFCapAttenuate hmac (principal_cap secret) p = Some c"
  shows "WooFCapAttenuate hmac c q =
    (if permissions c < q then None else WooFCapAttenuate hmac (principal_cap secret) q)"
proof -
  note c = principal_attenuate[OF assms]
  have "mask_of (level_of p) \<le> 0x3f"
    using ladder_levels[of "level_of p"] level_of_le[of p] by (auto simp: mask_of_def word_le_nat_alt)
  then have "\<not> mask_of (level_of p) < q \<Longrightarrow> \<not> mask_of 0 < q" by (auto simp: mask_of_def)
  moreover have "WooFCapAttenuate hmac (principal_cap secret) q =
      (if mask_of 0 < q then None else Some (ladder hmac secret (level_of q)))"
    using attenuate_ladder[of 0 hmac secret q] by simp
  ultimately show ?thesis using attenuate_ladder[OF level_of_le, of hmac secret p q] c by auto
qed

text \<open>A keyed function that adds one to the key, for concrete instances.\<close>

definition succ_hmac :: hmac where
  "succ_hmac key data = le64 (of_le64 key + 1)"

lemma succ_hmac_check [simp]: "WooFCapCheck succ_hmac c k = k + 1"
  by (simp add: WooFCapCheck_def succ_hmac_def)

lemma succ_ladder: "check (ladder succ_hmac secret i) = secret + of_nat i"
  by (induction i) (simp_all add: principal_cap_def Let_def)

theorem attenuate_path_independent_witness:
  "\<exists>c. WooFCapAttenuate succ_hmac (principal_cap 100) WCAP_EXEC = Some c
    \<and> WooFCapAttenuate succ_hmac c WCAP_READ = WooFCapAttenuate succ_hmac (principal_cap 100) WCAP_READ
    \<and> WooFCapAttenuate succ_hmac c WCAP_INIT = None"
proof -
  have "WooFCapAttenuate succ_hmac (ladder succ_hmac 100 0) WCAP_EXEC = Some (ladder succ_hmac 100 (level_of WCAP_EXEC))"
    by (simp add: attenuate_ladder mask_of_def perm_defs del: ladder.simps)
  then obtain c where c: "WooFCapAttenuate succ_hmac (principal_cap 100) WCAP_EXEC = Some c" by simp
  have "permissions c = 7" using principal_attenuate(3)[OF c] by (simp add: mask_of_def level_of_def perm_defs)
  then show ?thesis
    using c attenuate_path_independent[OF c, of WCAP_READ] attenuate_path_independent[OF c, of WCAP_INIT]
    by (simp add: perm_defs)
qed

text \<open>C19: a derived capability authorizes exactly the permissions up to its own. With a hash that
  does not collide along the ladder of the secret, a capability attenuated below the principal's
  own level is accepted for a permission \<open>q\<close> if and only if \<open>q\<close> is at most its permission mask.\<close>

theorem authorized_iff:
  assumes "inj_on (\<lambda>i. check (ladder hmac secret i)) {0..6}"
    "WooFCapAttenuate hmac (principal_cap secret) p = Some c" "p < WCAP_POLICY_ATTACH"
  shows "WooFCapAuthorized hmac secret c q = 1 \<longleftrightarrow> q \<le> permissions c"
proof -
  note c = principal_attenuate[OF assms(2)]
  have lv: "level_of p \<le> 6" "0 < level_of p"
    using level_of_le less_top_of[of 0 p] assms(3) by (auto simp: top_of_def perm_defs)
  have m: "mask_of (level_of p) < 0x20"
    using ladder_levels[of "level_of p"] lv by (auto simp: mask_of_def)
  have inj: "check (ladder hmac secret j) = check c \<longleftrightarrow> j = level_of p" if "j \<le> 6" for j
    using inj_onD[OF assms(1), of j "level_of p"] that lv c(1) by auto
  have s: "check c \<noteq> secret" using inj[of 0] lv by (auto simp: principal_cap_def)
  show ?thesis
  proof (cases "q \<le> 0x20 \<and> q \<noteq> 0x20")
    case True
    then have "q \<le> 0x3f" by (auto simp: word_le_nat_alt)
    then have "q \<le> permissions c \<longleftrightarrow> level_of p \<le> level_of q" using le_mask_of[OF lv(1)] c(3) by simp
    moreover have "(\<exists>j. 0 < j \<and> j \<le> level_of q \<and> check (ladder hmac secret j) = check c) \<longleftrightarrow> level_of p \<le> level_of q"
      using inj lv level_of_le[of q] le_trans by blast
    ultimately show ?thesis using True by (simp add: authorized_ladder)
  next
    case False
    then have "\<not> q \<le> permissions c" using m c(3) by auto
    then show ?thesis using False s by (auto simp: authorized_ladder)
  qed
qed

lemma succ_ladder_inj: "inj_on (\<lambda>i. check (ladder succ_hmac 100 i)) {0..6}"
proof (rule inj_onI)
  fix i j :: nat
  assume ij: "i \<in> {0..6}" "j \<in> {0..6}" "check (ladder succ_hmac 100 i) = check (ladder succ_hmac 100 j)"
  then have "unat (of_nat i :: u64) = unat (of_nat j :: u64)" by (simp add: succ_ladder)
  then show "i = j" using ij by (simp add: unat_of_nat)
qed

theorem authorized_iff_witness:
  "\<exists>c. WooFCapAttenuate succ_hmac (principal_cap 100) WCAP_WRITE = Some c
    \<and> WooFCapAuthorized succ_hmac 100 c WCAP_READ = 1 \<and> WooFCapAuthorized succ_hmac 100 c WCAP_EXEC \<noteq> 1"
proof -
  have "WooFCapAttenuate succ_hmac (ladder succ_hmac 100 0) WCAP_WRITE = Some (ladder succ_hmac 100 (level_of WCAP_WRITE))"
    by (simp add: attenuate_ladder mask_of_def perm_defs del: ladder.simps)
  then obtain c where c: "WooFCapAttenuate succ_hmac (principal_cap 100) WCAP_WRITE = Some c" by simp
  have "permissions c = 3" using principal_attenuate(3)[OF c] by (simp add: mask_of_def level_of_def perm_defs)
  moreover have "WCAP_WRITE < WCAP_POLICY_ATTACH" by (simp add: perm_defs)
  ultimately show ?thesis
    using c authorized_iff[OF succ_ladder_inj c, of WCAP_READ] authorized_iff[OF succ_ladder_inj c, of WCAP_EXEC]
    by (simp add: perm_defs)
qed

text \<open>The principal capability itself is accepted for the strongest permission only: the
  search for a matching level starts one step below it.\<close>

theorem principal_authorized_iff:
  assumes "inj_on (\<lambda>i. check (ladder hmac secret i)) {0..6}"
  shows "WooFCapAuthorized hmac secret (principal_cap secret) q = 1 \<longleftrightarrow> q = WCAP_POLICY_ATTACH"
proof -
  have "check (ladder hmac secret j) \<noteq> secret" if "0 < j" "j \<le> level_of q" for j
    using inj_onD[OF assms, of j 0] that level_of_le[of q] by (auto simp: principal_cap_def)
  then show ?thesis by (auto simp: authorized_ladder principal_cap_def perm_defs)
qed

theorem principal_authorized_iff_witness:
  "WooFCapAuthorized succ_hmac 100 (principal_cap 100) WCAP_POLICY_ATTACH = 1
   \<and> WooFCapAuthorized succ_hmac 100 (principal_cap 100) WCAP_READ \<noteq> 1"
  using principal_authorized_iff[OF succ_ladder_inj, of WCAP_POLICY_ATTACH]
    principal_authorized_iff[OF succ_ladder_inj, of WCAP_READ]
  by (simp add: perm_defs)

end
