(* ===== verification/Cap_Init.thy ===== *)
theory Cap_Init
  imports Woof_Api Caplets
begin

text \<open>
  The creation of a principal capability (\<open>WooFCapInit\<close> of \<^verbatim>\<open>src/src/caplets/woofc-caplets.c\<close>): a WooF
  with the ending \<^verbatim>\<open>.CAP\<close> beside the WooF it protects, whose newest element is the principal
  capability.
\<close>

definition WCAP_HISTORY :: u64 where "WCAP_HISTORY = 10"
definition sizeof_WCAP :: u64 where "sizeof_WCAP = 16"

text \<open>The nonce, drawn from \<^verbatim>\<open>drand48\<close>, is an argument; \<open>mem\<close> says whether the name can be allocated.\<close>

definition WooFCapInit ::
  "'n transport \<Rightarrow> string \<Rightarrow> (nat \<Rightarrow> bool) \<Rightarrow> u64 \<Rightarrow> 'n process \<Rightarrow> string \<Rightarrow> (int \<times> 'n process) run" where
  "WooFCapInit tr fname mem nonce p local_woof_name =
     (let cap_name = local_woof_name @ ''.CAP'' in
      if \<not> mem (Suc (length cap_name)) then Ret (- 1, p)
      else run_bind (WooFCreate tr fname p cap_name sizeof_WCAP WCAP_HISTORY) (\<lambda>(err, p1).
        if err < 0 then Ret (- 1, p1)
        else run_bind (WooFPut tr p1 cap_name None (cap_bytes (principal_cap nonce))) (\<lambda>(seq_no, p2).
          if seq_no = - 1 then Ret (- 1, p2) else Ret (0, p2))))"

text \<open>The WooF \<open>name\<close> holds a principal capability with \<open>secret\<close> as its newest element.\<close>

definition stores_cap :: "'n process \<Rightarrow> string \<Rightarrow> u64 \<Rightarrow> bool" where
  "stores_cap p name secret \<longleftrightarrow> (\<exists>wo. holds p name wo \<and> elsz (wf_shared wo) = 16
     \<and> woof_view (wf_shared wo) \<noteq> [] \<and> hd (woof_view (wf_shared wo)) = cap_bytes (principal_cap secret))"

text \<open>The mapping for a CAP can be made.\<close>

definition cap_creatable :: "'n process \<Rightarrow> string \<Rightarrow> bool" where
  "cap_creatable p name \<longleftrightarrow> process_ok p \<and> \<not> WooFValidURI name \<and> length (path_of p name) < 4096
     \<and> pr_creatable p (path_of p name) ((WCAP_HISTORY + 1) * (sizeof_WCAP + sizeof_ELID) + sizeof_WOOF_SHARED)"

lemma WooFCapInit_ok:
  assumes "cap_creatable p (name @ ''.CAP'')" "mem (Suc (length (name @ ''.CAP'')))"
  obtains wo where "WooFCapInit tr fname mem nonce p name = Ret (0, write_back p (path_of p (name @ ''.CAP'')) wo)"
    "stores_cap (write_back p (path_of p (name @ ''.CAP'')) wo) (name @ ''.CAP'') nonce"
proof -
  let ?n = "name @ ''.CAP''" and ?e = "cap_bytes (principal_cap nonce)"
  have c: "process_ok p" "\<not> WooFValidURI ?n" "length (path_of p ?n) < 4096" "woof_fits sizeof_WCAP WCAP_HISTORY" "unat WCAP_HISTORY < 2 ^ 31"
    "pr_creatable p (path_of p ?n) ((WCAP_HISTORY + 1) * (sizeof_WCAP + sizeof_ELID) + sizeof_WOOF_SHARED)"
    using assms(1) by (simp_all add: cap_creatable_def woof_fits_def sizeof_WCAP_def WCAP_HISTORY_def)
  obtain p1 wo1 where p1: "WooFCreate tr fname p ?n sizeof_WCAP WCAP_HISTORY = Ret (1, p1)"
    "local_ok ?n (unat WCAP_HISTORY) (unat sizeof_WCAP) p1" "latest (woof_at p1 ?n) = 0" "p1 = write_back p (path_of p ?n) wo1"
    by (rule WooFCreate_plain[OF c, of tr fname]) blast
  obtain w where h: "holds p1 ?n w" "elsz (wf_shared w) = 16" "hist (wf_shared w) = 10"
    using p1(2) woof_at_holds[of p1 ?n] by (fastforce simp: local_ok_def sizeof_WCAP_def WCAP_HISTORY_def)
  have wf: "woof_wf (wf_shared w)" using h(1) by (simp add: holds_def usable_def)
  have "latest (wf_shared w) = 0" using p1(3) woof_at_holds[OF h(1)] by simp
  then have q: "unat (wfs_seq_no (wf_shared w)) = 1" using wf by (simp add: woof_wf_def latest_def)
  then have q': "unat (wfs_seq_no (wf_shared w)) < 2 ^ 64 - 1" "wfs_seq_no (wf_shared w) \<noteq> - 1"
    by (auto simp: unsigned_minus_1_eq_mask mask_eq_exp_minus_1)
  have l: "elsz (wf_shared w) \<le> length ?e" using h(2) by simp
  let ?p2 = "\<lambda>w' ns'. (write_back p1 (path_of p1 ?n) (w\<lparr>wf_shared := w'\<rparr>))\<lparr>pr_ns := ns'\<rparr>"
  obtain w' ns' where a: "append_named p1 ?n None ?e (Name_id (pr_ns p1)) (namelog_seqno p1) = Ret (wfs_seq_no (wf_shared w), ?p2 w' ns')"
    "appended (wf_shared w) ?e w'" "holds (?p2 w' ns') ?n (w\<lparr>wf_shared := w'\<rparr>)" "ns' = pr_ns p1"
    by (rule append_named_ok[OF h(1) l q'(1), of None]) auto
  have p2: "?p2 w' ns' = write_back p (path_of p ?n) (w\<lparr>wf_shared := w'\<rparr>)"
    using p1(4) a(4) by (simp add: write_back_def path_of_def)
  have "IsRemoteWoof p1 ?n = Ret False" "pr_dir p1 \<noteq> []"
    using h(1) IsRemote_plain[of p1 ?n] by (auto simp: holds_def process_ok_def)
  then have "WooFPut tr p1 ?n None ?e = Ret (wfs_seq_no (wf_shared w), write_back p (path_of p ?n) (w\<lparr>wf_shared := w'\<rparr>))"
    using a(1) p2 by (simp add: WooFPut_def)
  then have "WooFCapInit tr fname mem nonce p name = Ret (0, write_back p (path_of p ?n) (w\<lparr>wf_shared := w'\<rparr>))"
    using p1(1) assms(2) q'(2) by (simp add: WooFCapInit_def Let_def)
  moreover have "woof_view w' = take 10 (?e # woof_view (wf_shared w))" using appendedD[OF a(2)] h(2,3) by simp
  then have "stores_cap (write_back p (path_of p ?n) (w\<lparr>wf_shared := w'\<rparr>)) ?n nonce"
    using a(3) appendedD(5)[OF a(2)] h(2) unfolding stores_cap_def p2 by auto
  ultimately show thesis by (rule that)
qed

end
