(* ===== verification/Cmq_Frame.thy ===== *)
theory Cmq_Frame
  imports Cspot_Prelude
begin

text \<open>
  Message frames and frame lists of the CMQ transport (\<^verbatim>\<open>src/src/net/cmq/cmq-frame.c\<close>): singly
  linked frames in an explicit store. The store also counts the allocations that still succeed, so
  that every failing \<open>malloc\<close> of the code is a branch of the model; a dereference of a null or
  freed pointer, a double free and a copy beyond the source are faults. A well-formed frame list is
  abstracted to the list of its frame addresses.
\<close>

section \<open>The store\<close>

type_synonym addr = nat

text \<open>Address 0 is the null pointer. A null payload is \<open>None\<close>.\<close>

record CMQFRAME =
  fr_size :: u32
  fr_payload :: "bytes option"
  fr_next :: addr

record CMQFRAMELIST =
  fl_head :: addr
  fl_tail :: addr
  fl_count :: u32
  fl_max_size :: u32

record heap =
  frames :: "addr \<Rightarrow> CMQFRAME option"
  brk :: addr
  avail :: nat

definition get_frame :: "heap \<Rightarrow> addr \<Rightarrow> CMQFRAME run" where
  "get_frame h p = (case frames h p of None \<Rightarrow> Fault | Some f \<Rightarrow> if p = 0 then Fault else Ret f)"

definition set_frame :: "heap \<Rightarrow> addr \<Rightarrow> CMQFRAME \<Rightarrow> heap" where
  "set_frame h p f = h\<lparr>frames := (frames h)(p := Some f)\<rparr>"

text \<open>Allocating a frame with all fields zero; \<open>None\<close> when \<open>malloc\<close> fails.\<close>

definition alloc_frame :: "heap \<Rightarrow> (addr \<times> heap) option" where
  "alloc_frame h = (if avail h = 0 then None
     else let p = Suc (brk h) in
       Some (p, h\<lparr>frames := (frames h)(p := Some \<lparr>fr_size = 0, fr_payload = None, fr_next = 0\<rparr>),
                  brk := p, avail := avail h - 1\<rparr>))"

definition alloc_bytes :: "heap \<Rightarrow> heap option" where
  "alloc_bytes h = (if avail h = 0 then None else Some (h\<lparr>avail := avail h - 1\<rparr>))"

section \<open>Frames\<close>

definition cmq_frame_destroy :: "heap \<Rightarrow> addr \<Rightarrow> heap run" where
  "cmq_frame_destroy h f =
     (if f = 0 then Ret h
      else run_bind (get_frame h f) (\<lambda>frame. Ret (h\<lparr>frames := (frames h)(f := None)\<rparr>)))"

text \<open>\<open>cmq_frame_create\<close>: the return value and the address of the frame (0 on failure).\<close>

definition cmq_frame_create :: "heap \<Rightarrow> bytes option \<Rightarrow> u32 \<Rightarrow> (int \<times> addr \<times> heap) run" where
  "cmq_frame_create h ptr len =
     (case alloc_frame h of
        None \<Rightarrow> Ret (- 1, 0, h)
      | Some (f, h1) \<Rightarrow>
          if ptr = None \<and> len = 0 then Ret (0, f, h1)
          else (case alloc_bytes h1 of
              None \<Rightarrow> run_bind (cmq_frame_destroy h1 f) (\<lambda>h2. Ret (- 1, 0, h2))
            | Some h2 \<Rightarrow>
                (case ptr of
                   None \<Rightarrow> Ret (0, f, set_frame h2 f
                       \<lparr>fr_size = len, fr_payload = Some (replicate (unat len) 0), fr_next = 0\<rparr>)
                 | Some data \<Rightarrow>
                     if length data < unat len then Fault
                     else Ret (0, f, set_frame h2 f
                       \<lparr>fr_size = len, fr_payload = Some (take (unat len) data), fr_next = 0\<rparr>))))"

definition cmq_frame_payload :: "heap \<Rightarrow> addr \<Rightarrow> bytes option run" where
  "cmq_frame_payload h f = (if f = 0 then Ret None else run_bind (get_frame h f) (\<lambda>frame. Ret (fr_payload frame)))"

definition cmq_frame_size :: "heap \<Rightarrow> addr \<Rightarrow> u32 run" where
  "cmq_frame_size h f = (if f = 0 then Ret 0 else run_bind (get_frame h f) (\<lambda>frame. Ret (fr_size frame)))"

definition cmq_frame_next :: "heap \<Rightarrow> addr \<Rightarrow> addr run" where
  "cmq_frame_next h f = run_bind (get_frame h f) (\<lambda>frame. Ret (fr_next frame))"

section \<open>Frame lists\<close>

definition cmq_frame_list_create :: "heap \<Rightarrow> int \<times> CMQFRAMELIST option \<times> heap" where
  "cmq_frame_list_create h = (case alloc_bytes h of
     None \<Rightarrow> (- 1, None, h)
   | Some h1 \<Rightarrow> (0, Some \<lparr>fl_head = 0, fl_tail = 0, fl_count = 0, fl_max_size = 0\<rparr>, h1))"

text \<open>\<open>cmq_frame_pop\<close>: the return value, the popped frame (0 on failure) and the list.\<close>

definition cmq_frame_pop :: "heap \<Rightarrow> CMQFRAMELIST option \<Rightarrow> (int \<times> addr \<times> CMQFRAMELIST option) run" where
  "cmq_frame_pop h fl = (case fl of
     None \<Rightarrow> Ret (- 1, 0, None)
   | Some l \<Rightarrow>
       if fl_count l = 0 then Ret (- 1, 0, fl)
       else if fl_head l = 0 then Ret (- 1, 0, fl)
       else run_bind (get_frame h (fl_head l)) (\<lambda>frame.
         let l1 = l\<lparr>fl_head := fr_next frame, fl_count := fl_count l - 1\<rparr>;
             l2 = (if fl_count l1 = 0 then l1\<lparr>fl_head := 0, fl_tail := 0\<rparr> else l1)
         in Ret (0, fl_head l, Some l2)))"

definition cmq_frame_append ::
  "heap \<Rightarrow> CMQFRAMELIST option \<Rightarrow> addr \<Rightarrow> (int \<times> CMQFRAMELIST option \<times> heap) run" where
  "cmq_frame_append h fl f = (case fl of
     None \<Rightarrow> Ret (- 1, None, h)
   | Some l \<Rightarrow>
       if f = 0 then Ret (- 1, fl, h)
       else run_bind
         (if fl_head l = 0 then Ret (l\<lparr>fl_head := f, fl_tail := f, fl_count := 1\<rparr>, h)
          else run_bind (get_frame h (fl_tail l)) (\<lambda>t.
            Ret (l\<lparr>fl_tail := f, fl_count := fl_count l + 1\<rparr>, set_frame h (fl_tail l) (t\<lparr>fr_next := f\<rparr>))))
         (\<lambda>(l1, h1). run_bind (get_frame h1 f) (\<lambda>frame.
            Ret (0, Some (if fl_max_size l1 < fr_size frame then l1\<lparr>fl_max_size := fr_size frame\<rparr> else l1), h1))))"

text \<open>The loop of \<open>cmq_frame_list_destroy\<close> pops and frees; the count decreases every time.\<close>

function list_destroy_loop :: "heap \<Rightarrow> CMQFRAMELIST \<Rightarrow> heap run" where
  "list_destroy_loop h l =
     (if fl_count l = 0 then Ret h
      else run_bind (cmq_frame_pop h (Some l)) (\<lambda>(err, f, l').
        if err < 0 then Ret h
        else run_bind (cmq_frame_destroy h f) (\<lambda>h'. list_destroy_loop h' (the l'))))"
  by pat_completeness auto
termination
proof (relation "measure (\<lambda>(h, l). unat (fl_count l))", goal_cases)
  case 1
  then show ?case by simp
next
  case (2 h l x err y f l' h')
  then have "l' \<noteq> None" "fl_count (the l') = fl_count l - 1"
    by (auto simp: cmq_frame_pop_def run_simps Let_def split: if_splits)
  then show ?case using 2(1) by (auto simp: unat_minus_one unat_gt_0 diff_less)
qed

declare list_destroy_loop.simps [simp del]

definition cmq_frame_list_destroy :: "heap \<Rightarrow> CMQFRAMELIST option \<Rightarrow> heap run" where
  "cmq_frame_list_destroy h fl = (case fl of None \<Rightarrow> Ret h | Some l \<Rightarrow> list_destroy_loop h l)"

definition cmq_frame_list_count :: "CMQFRAMELIST option \<Rightarrow> int" where
  "cmq_frame_list_count fl = (case fl of None \<Rightarrow> 0 | Some l \<Rightarrow> sint (fl_count l))"

definition cmq_frame_list_max_size :: "CMQFRAMELIST option \<Rightarrow> int" where
  "cmq_frame_list_max_size fl = (case fl of None \<Rightarrow> 0 | Some l \<Rightarrow> sint (fl_max_size l))"

definition cmq_frame_list_empty :: "CMQFRAMELIST option \<Rightarrow> int" where
  "cmq_frame_list_empty fl = (case fl of None \<Rightarrow> 1
     | Some l \<Rightarrow> if fl_count l = 0 then 1 else if fl_head l = 0 then 1 else 0)"

definition cmq_frame_list_head :: "CMQFRAMELIST option \<Rightarrow> addr" where
  "cmq_frame_list_head fl = (case fl of None \<Rightarrow> 0 | Some l \<Rightarrow> fl_head l)"

definition cmq_frame_list_tail :: "CMQFRAMELIST option \<Rightarrow> addr" where
  "cmq_frame_list_tail fl = (case fl of None \<Rightarrow> 0 | Some l \<Rightarrow> fl_tail l)"

section \<open>Well-formed frame lists\<close>

fun chain :: "heap \<Rightarrow> addr \<Rightarrow> addr list \<Rightarrow> bool" where
  "chain h p [] \<longleftrightarrow> p = 0"
| "chain h p (q # qs) \<longleftrightarrow> p = q \<and> q \<noteq> 0 \<and> (case frames h q of None \<Rightarrow> False | Some f \<Rightarrow> chain h (fr_next f) qs)"

definition fl_ok :: "heap \<Rightarrow> CMQFRAMELIST \<Rightarrow> addr list \<Rightarrow> bool" where
  "fl_ok h l ps \<longleftrightarrow> chain h (fl_head l) ps \<and> distinct ps \<and> unat (fl_count l) = length ps
     \<and> (ps \<noteq> [] \<longrightarrow> fl_tail l = last ps)"

definition heap_ok :: "heap \<Rightarrow> bool" where
  "heap_ok h \<longleftrightarrow> (\<forall>p f. frames h p = Some f \<longrightarrow> 0 < p \<and> p \<le> brk h)"

text \<open>Size and payload of a frame, which the list operations never change.\<close>

definition content :: "heap \<Rightarrow> addr \<Rightarrow> (u32 \<times> bytes option) option" where
  "content h p = map_option (\<lambda>f. (fr_size f, fr_payload f)) (frames h p)"

lemma get_frame_Some: "frames h p = Some f \<Longrightarrow> p \<noteq> 0 \<Longrightarrow> get_frame h p = Ret f"
  by (simp add: get_frame_def)

lemma chain_frames: "chain h p ps \<Longrightarrow> q \<in> set ps \<Longrightarrow> q \<noteq> 0 \<and> (\<exists>f. frames h q = Some f)"
  by (induction ps arbitrary: p) (auto split: option.splits)

lemma chain_head: "chain h p ps \<Longrightarrow> p = 0 \<longleftrightarrow> ps = []"
  by (cases ps) auto

lemma chain_cong: "(\<And>q. q \<in> set ps \<Longrightarrow> frames h' q = frames h q) \<Longrightarrow> chain h' p ps = chain h p ps"
  by (induction ps arbitrary: p) (auto split: option.splits)

text \<open>Linking a new last frame behind the old one.\<close>

lemma chain_link:
  assumes "chain h p ps" "ps \<noteq> []" "distinct ps" "q \<notin> set ps" "q \<noteq> 0"
    "frames h (last ps) = Some t" "frames h q = Some f" "fr_next f = 0"
  shows "chain (set_frame h (last ps) (t\<lparr>fr_next := q\<rparr>)) p (ps @ [q])"
  using assms
proof (induction ps arbitrary: p)
  case (Cons x xs)
  show ?case
  proof (cases xs)
    case Nil
    then show ?thesis using Cons.prems by (auto simp: set_frame_def)
  next
    case (Cons y ys)
    obtain fx where fx: "frames h x = Some fx" "chain h (fr_next fx) xs" "p = x" "x \<noteq> 0"
      using Cons.prems(1) by (auto split: option.splits)
    have "chain (set_frame h (last xs) (t\<lparr>fr_next := q\<rparr>)) (fr_next fx) (xs @ [q])"
      using Cons.IH[OF fx(2)] Cons.prems Cons by simp
    moreover have "last xs \<noteq> x" using Cons.prems(3) Cons by (metis distinct.simps(2) last_in_set list.distinct(1))
    ultimately show ?thesis using fx Cons by (simp add: set_frame_def)
  qed
qed simp

lemma frame_append_ok:
  assumes "fl_ok h l ps" "q \<notin> set ps" "q \<noteq> 0" "frames h q = Some f" "fr_next f = 0" "length ps < 2 ^ 32 - 1"
  obtains l' h' where "cmq_frame_append h (Some l) q = Ret (0, Some l', h')" "fl_ok h' l' (ps @ [q])"
    "content h' = content h" "brk h' = brk h" "avail h' = avail h" "fl_max_size l' = max (fl_max_size l) (fr_size f)"
    "\<And>p. p \<notin> set ps \<Longrightarrow> frames h' p = frames h p"
proof (cases "ps = []")
  case True
  then have hd: "fl_head l = 0" "unat (fl_count l) = 0" using assms(1) by (simp_all add: fl_ok_def)
  define l1 where "l1 = l\<lparr>fl_head := q, fl_tail := q, fl_count := 1\<rparr>"
  define l' where "l' = (if fl_max_size l1 < fr_size f then l1\<lparr>fl_max_size := fr_size f\<rparr> else l1)"
  have "cmq_frame_append h (Some l) q = Ret (0, Some l', h)"
    using hd assms(3,4) by (simp add: cmq_frame_append_def get_frame_Some l'_def l1_def)
  moreover have "fl_ok h l' (ps @ [q])" using True hd assms(3-5) by (simp add: fl_ok_def l'_def l1_def unat_eq_0)
  moreover have "fl_max_size l' = max (fl_max_size l) (fr_size f)" by (auto simp: l'_def l1_def max_def not_less)
  ultimately show ?thesis using that by blast
next
  case False
  let ?t = "last ps"
  have ch: "chain h (fl_head l) ps" "distinct ps" "fl_tail l = ?t" "unat (fl_count l) = length ps"
    using assms(1) False by (auto simp: fl_ok_def)
  have lt: "?t \<in> set ps" using False by simp
  obtain t where t: "frames h ?t = Some t" "?t \<noteq> 0" using chain_frames[OF ch(1) lt] by blast
  have hd: "fl_head l \<noteq> 0" using chain_head[OF ch(1)] False by simp
  define h' where "h' = set_frame h ?t (t\<lparr>fr_next := q\<rparr>)"
  have link: "chain h' (fl_head l) (ps @ [q])"
    unfolding h'_def using chain_link[OF ch(1) False ch(2) assms(2,3) t(1) assms(4,5)] .
  have q: "frames h' q = Some f" using assms(2,4) False by (auto simp: h'_def set_frame_def)
  have cnt: "unat (fl_count l + 1) = Suc (length ps)" using ch(4) assms(6) by (simp add: unat_word_ariths)
  have con: "content h' = content h" using t by (auto simp: content_def h'_def set_frame_def fun_eq_iff)
  define l1 where "l1 = l\<lparr>fl_tail := q, fl_count := fl_count l + 1\<rparr>"
  define l' where "l' = (if fl_max_size l1 < fr_size f then l1\<lparr>fl_max_size := fr_size f\<rparr> else l1)"
  have "cmq_frame_append h (Some l) q = Ret (0, Some l', h')"
    using hd t ch(3) assms(3) q by (simp add: cmq_frame_append_def get_frame_Some l'_def l1_def flip: h'_def)
  moreover have "fl_ok h' l' (ps @ [q])" using link ch(2) assms(2) cnt by (simp add: fl_ok_def l'_def l1_def)
  moreover have "brk h' = brk h" "avail h' = avail h" by (simp_all add: h'_def set_frame_def)
  moreover have "frames h' p = frames h p" if "p \<notin> set ps" for p using that lt by (auto simp: h'_def set_frame_def)
  moreover have "fl_max_size l' = max (fl_max_size l) (fr_size f)" by (auto simp: l'_def l1_def max_def not_less)
  ultimately show ?thesis using that con by blast
qed

lemma pop_ok:
  assumes "fl_ok h l (p # ps)"
  obtains l' where "cmq_frame_pop h (Some l) = Ret (0, p, Some l')" "fl_ok h l' ps"
    "fl_count l' = fl_count l - 1"
proof -
  obtain f where f: "frames h p = Some f" "p \<noteq> 0" "fl_head l = p" "chain h (fr_next f) ps"
    using assms by (auto simp: fl_ok_def split: option.splits)
  have cnt: "unat (fl_count l) = Suc (length ps)" using assms by (simp add: fl_ok_def)
  then have c: "fl_count l \<noteq> 0" by auto
  then have cl: "unat (fl_count l - 1) = length ps" using cnt by (simp add: unat_minus_one)
  then have z: "fl_count l - 1 = 0 \<longleftrightarrow> ps = []" using cl by (metis length_0_conv unat_eq_0)
  define l1 where "l1 = l\<lparr>fl_head := fr_next f, fl_count := fl_count l - 1\<rparr>"
  define l' where "l' = (if fl_count l1 = 0 then l1\<lparr>fl_head := 0, fl_tail := 0\<rparr> else l1)"
  have "cmq_frame_pop h (Some l) = Ret (0, p, Some l')"
    using f c by (simp add: cmq_frame_pop_def get_frame_Some l'_def l1_def)
  moreover have "fl_ok h l' ps"
    using assms f c cl z by (auto simp: fl_ok_def l'_def l1_def)
  ultimately show ?thesis using that by (simp add: l'_def l1_def)
qed

lemma pop_empty: "fl_ok h l [] \<Longrightarrow> cmq_frame_pop h (Some l) = Ret (- 1, 0, Some l)"
  by (simp add: fl_ok_def cmq_frame_pop_def unat_eq_0)

lemma empty_iff: "fl_ok h l ps \<Longrightarrow> cmq_frame_list_empty (Some l) = (if ps = [] then 1 else 0)"
  using chain_head[of h "fl_head l" ps] by (auto simp: fl_ok_def cmq_frame_list_empty_def unat_eq_0)

lemma destroy_frame_ok: "frames h p = Some f \<Longrightarrow> p \<noteq> 0 \<Longrightarrow> cmq_frame_destroy h p = Ret (h\<lparr>frames := (frames h)(p := None)\<rparr>)"
  by (simp add: cmq_frame_destroy_def get_frame_Some)

lemma fl_ok_free:
  assumes "fl_ok h l ps" "p \<notin> set ps"
  shows "fl_ok (h\<lparr>frames := (frames h)(p := None)\<rparr>) l ps"
proof -
  have "chain (h\<lparr>frames := (frames h)(p := None)\<rparr>) (fl_head l) ps = chain h (fl_head l) ps"
    by (rule chain_cong) (use assms(2) in auto)
  then show ?thesis using assms(1) by (simp add: fl_ok_def)
qed

lemma list_destroy_loop_ok:
  "fl_ok h l ps \<Longrightarrow> list_destroy_loop h l = Ret (h\<lparr>frames := (frames h) |` (- set ps)\<rparr>)"
proof (induction ps arbitrary: h l)
  case Nil
  then have "fl_count l = 0" by (simp add: fl_ok_def unat_eq_0)
  then show ?case by (simp add: list_destroy_loop.simps[of h l] restrict_map_def)
next
  case (Cons p ps)
  obtain l' where l': "cmq_frame_pop h (Some l) = Ret (0, p, Some l')" "fl_ok h l' ps"
    using pop_ok[OF Cons.prems] .
  obtain f where f: "frames h p = Some f" "p \<noteq> 0" using Cons.prems by (auto simp: fl_ok_def split: option.splits)
  have c: "fl_count l \<noteq> 0" using Cons.prems by (auto simp: fl_ok_def)
  have "p \<notin> set ps" using Cons.prems by (simp add: fl_ok_def)
  note ih = Cons.IH[OF fl_ok_free[OF l'(2) this]]
  have e: "((frames h)(p := None)) |` (- set ps) = frames h |` (- set (p # ps))"
    by (auto simp: restrict_map_def fun_eq_iff)
  have "list_destroy_loop h l = list_destroy_loop (h\<lparr>frames := (frames h)(p := None)\<rparr>) l'"
    using l'(1) c f by (simp add: list_destroy_loop.simps[of h l] destroy_frame_ok)
  also have "\<dots> = Ret (h\<lparr>frames := ((frames h)(p := None)) |` (- set ps)\<rparr>)" unfolding ih by simp
  finally show ?case unfolding e .
qed

lemma create_ok:
  assumes "heap_ok h" "2 \<le> avail h" "\<forall>d. x = Some d \<longrightarrow> length d < 2 ^ 32"
    and n: "n = (case x of None \<Rightarrow> 0 | Some d \<Rightarrow> of_nat (length d))"
  obtains q h' where "cmq_frame_create h x n = Ret (0, q, h')" "heap_ok h'" "q \<noteq> 0" "frames h q = None"
    "frames h' = (frames h)(q \<mapsto> \<lparr>fr_size = n, fr_payload = x, fr_next = 0\<rparr>)" "avail h - 2 \<le> avail h'"
proof -
  let ?q = "Suc (brk h)"
  have fresh: "frames h ?q = None" using assms(1) by (cases "frames h ?q") (auto simp: heap_ok_def)
  have av: "avail h \<noteq> 0" "avail h - 1 \<noteq> 0" using assms(2) by auto
  show ?thesis
  proof (cases x)
    case None
    define h' where "h' = h\<lparr>frames := (frames h)(?q \<mapsto> \<lparr>fr_size = n, fr_payload = x, fr_next = 0\<rparr>), brk := ?q, avail := avail h - 1\<rparr>"
    have "cmq_frame_create h x n = Ret (0, ?q, h')"
      using None n av by (simp add: cmq_frame_create_def alloc_frame_def h'_def)
    moreover have "heap_ok h'" using assms(1) by (auto simp: heap_ok_def h'_def intro: le_SucI)
    ultimately show ?thesis using that fresh by (simp add: h'_def)
  next
    case (Some d)
    have u: "unat n = length d" using assms(3) Some n by (simp add: unat_of_nat take_bit_nat_eq_self)
    define h' where "h' = h\<lparr>frames := (frames h)(?q \<mapsto> \<lparr>fr_size = n, fr_payload = x, fr_next = 0\<rparr>), brk := ?q, avail := avail h - 2\<rparr>"
    have "cmq_frame_create h x n = Ret (0, ?q, h')"
      using Some u av by (simp add: cmq_frame_create_def alloc_frame_def alloc_bytes_def set_frame_def h'_def numeral_2_eq_2)
    moreover have "heap_ok h'" using assms(1) by (auto simp: heap_ok_def h'_def intro: le_SucI)
    ultimately show ?thesis using that fresh by (simp add: h'_def)
  qed
qed

section \<open>Messages as queues of frames\<close>

text \<open>Every message of the protocol is built by creating frames and appending them, and is
  consumed by popping a frame, reading its payload and destroying it; \<open>put_frame\<close> and
  \<open>take_frame\<close> are these two pieces of client code.\<close>

definition put_frame :: "heap \<Rightarrow> CMQFRAMELIST \<Rightarrow> bytes option \<Rightarrow> (int \<times> CMQFRAMELIST \<times> heap) run" where
  "put_frame h l x =
     run_bind (cmq_frame_create h x (case x of None \<Rightarrow> 0 | Some d \<Rightarrow> of_nat (length d))) (\<lambda>(err, f, h1).
       if err < 0 then Ret (- 1, l, h1)
       else run_bind (cmq_frame_append h1 (Some l) f) (\<lambda>(err, l', h2). Ret (err, the l', h2)))"

definition take_frame :: "heap \<Rightarrow> CMQFRAMELIST \<Rightarrow> (bytes option option \<times> CMQFRAMELIST \<times> heap) run" where
  "take_frame h l = run_bind (cmq_frame_pop h (Some l)) (\<lambda>(err, f, l').
     if err < 0 then Ret (None, l, h)
     else run_bind (cmq_frame_payload h f) (\<lambda>x.
       run_bind (cmq_frame_destroy h f) (\<lambda>h'. Ret (Some x, the l', h'))))"

fun put_all :: "('h \<Rightarrow> 'l \<Rightarrow> 'a \<Rightarrow> (int \<times> 'l \<times> 'h) run) \<Rightarrow> 'h \<Rightarrow> 'l \<Rightarrow> 'a list \<Rightarrow> (int \<times> 'l \<times> 'h) run" where
  "put_all put h l [] = Ret (0, l, h)"
| "put_all put h l (x # xs) = run_bind (put h l x) (\<lambda>(err, l', h'). if err < 0 then Ret (err, l', h') else put_all put h' l' xs)"

fun take_n :: "('h \<Rightarrow> 'l \<Rightarrow> ('a option \<times> 'l \<times> 'h) run) \<Rightarrow> 'h \<Rightarrow> 'l \<Rightarrow> nat \<Rightarrow> ('a list \<times> 'l \<times> 'h) run" where
  "take_n get h l 0 = Ret ([], l, h)"
| "take_n get h l (Suc n) = run_bind (get h l) (\<lambda>(x, l', h'). case x of
     None \<Rightarrow> Ret ([], l', h')
   | Some y \<Rightarrow> run_bind (take_n get h' l' n) (\<lambda>(ys, l'', h''). Ret (y # ys, l'', h'')))"

text \<open>What a client relies on: \<open>q n h l xs\<close> says that in state \<open>h\<close> the queue \<open>l\<close> holds \<open>xs\<close> and
  has room for \<open>n\<close> more items.\<close>

locale message_queue =
  fixes q :: "nat \<Rightarrow> 'h \<Rightarrow> 'l \<Rightarrow> 'a list \<Rightarrow> bool"
    and item :: "'a \<Rightarrow> bool"
    and put :: "'h \<Rightarrow> 'l \<Rightarrow> 'a \<Rightarrow> (int \<times> 'l \<times> 'h) run"
    and get :: "'h \<Rightarrow> 'l \<Rightarrow> ('a option \<times> 'l \<times> 'h) run"
  assumes put_ok: "q (Suc n) h l xs \<Longrightarrow> item x \<Longrightarrow> \<exists>l' h'. put h l x = Ret (0, l', h') \<and> q n h' l' (xs @ [x])"
    and get_ok: "q n h l (x # xs) \<Longrightarrow> \<exists>l' h'. get h l = Ret (Some x, l', h') \<and> q n h' l' xs"
    and get_empty: "q n h l [] \<Longrightarrow> get h l = Ret (None, l, h)"
begin

lemma put_all_ok:
  "q (n + length ys) h l xs \<Longrightarrow> \<forall>y\<in>set ys. item y \<Longrightarrow>
     \<exists>l' h'. put_all put h l ys = Ret (0, l', h') \<and> q n h' l' (xs @ ys)"
proof (induction ys arbitrary: h l xs)
  case (Cons y ys)
  obtain l1 h1 where "put h l y = Ret (0, l1, h1)" "q (n + length ys) h1 l1 (xs @ [y])"
    using put_ok[of "n + length ys" h l xs y] Cons.prems by auto
  then show ?case using Cons.IH[of h1 l1 "xs @ [y]"] Cons.prems by auto
qed auto

lemma take_n_ok:
  "q n h l (xs @ zs) \<Longrightarrow> \<exists>l' h'. take_n get h l (length xs) = Ret (xs, l', h') \<and> q n h' l' zs"
proof (induction xs arbitrary: h l)
  case (Cons x xs)
  obtain l1 h1 where "get h l = Ret (Some x, l1, h1)" "q n h1 l1 (xs @ zs)" using get_ok Cons.prems by fastforce
  then show ?case using Cons.IH[of h1 l1] by auto
qed auto

lemma put_take:
  assumes "q (n + length ys) h l []" "\<forall>y\<in>set ys. item y"
  shows "\<exists>l1 h1 l2 h2. put_all put h l ys = Ret (0, l1, h1) \<and> take_n get h1 l1 (length ys) = Ret (ys, l2, h2)
           \<and> q n h2 l2 [] \<and> get h2 l2 = Ret (None, l2, h2)"
proof -
  obtain l1 h1 where 1: "put_all put h l ys = Ret (0, l1, h1)" "q n h1 l1 ys"
    using put_all_ok[OF assms] by auto
  then show ?thesis using take_n_ok[of n h1 l1 ys "[]"] get_empty by fastforce
qed

end

text \<open>The frame list as such a queue. \<open>base\<close> is the part of the heap that belongs to others: the
  operations leave it alone, and the heap is \<open>base\<close> again once the queue is empty.\<close>

definition frame_item :: "bytes option \<Rightarrow> bool" where
  "frame_item x \<longleftrightarrow> (\<forall>d. x = Some d \<longrightarrow> length d < 2 ^ 32)"

definition item_size :: "bytes option \<Rightarrow> u32" where
  "item_size x = (case x of None \<Rightarrow> 0 | Some d \<Rightarrow> of_nat (length d))"

definition frame_queue :: "(addr \<Rightarrow> CMQFRAME option) \<Rightarrow> nat \<Rightarrow> heap \<Rightarrow> CMQFRAMELIST \<Rightarrow> bytes option list \<Rightarrow> bool" where
  "frame_queue base n h l xs \<longleftrightarrow> heap_ok h \<and> 2 * n \<le> avail h \<and> length xs + n < 2 ^ 32
     \<and> (\<exists>ps. fl_ok h l ps \<and> map (content h) ps = map (\<lambda>x. Some (item_size x, x)) xs
           \<and> frames h |` (- set ps) = base)"

lemma heap_ok_cong:
  assumes "content h' = content h" "brk h' = brk h"
  shows "heap_ok h' = heap_ok h"
proof -
  have "heap_ok g \<longleftrightarrow> (\<forall>p. content g p \<noteq> None \<longrightarrow> 0 < p \<and> p \<le> brk g)" for g
    by (auto simp: heap_ok_def content_def)
  then show ?thesis using assms by simp
qed

lemma frame_queue_append:
  assumes "frame_queue base (Suc n) h l xs" "frame_item x"
  obtains f h1 l' h' where "cmq_frame_create h x (item_size x) = Ret (0, f, h1)"
    "cmq_frame_append h1 (Some l) f = Ret (0, Some l', h')" "frame_queue base n h' l' (xs @ [x])"
proof -
  obtain ps where ps: "fl_ok h l ps" "map (content h) ps = map (\<lambda>x. Some (item_size x, x)) xs"
    "frames h |` (- set ps) = base" "heap_ok h" "2 * Suc n \<le> avail h" "length xs + Suc n < 2 ^ 32"
    using assms(1) unfolding frame_queue_def by auto
  have len: "length ps = length xs" using arg_cong[OF ps(2), of length] by simp
  have av: "2 \<le> avail h" using ps(5) by simp
  obtain q h1 where q: "cmq_frame_create h x (item_size x) = Ret (0, q, h1)" "heap_ok h1" "q \<noteq> 0" "frames h q = None"
    "frames h1 = (frames h)(q \<mapsto> \<lparr>fr_size = item_size x, fr_payload = x, fr_next = 0\<rparr>)" "avail h - 2 \<le> avail h1"
    using create_ok[OF ps(4) av assms(2)[unfolded frame_item_def] item_size_def] by blast
  have qn: "q \<notin> set ps" using chain_frames[of h "fl_head l" ps q] ps(1) q(4) by (auto simp: fl_ok_def)
  have same: "frames h1 p = frames h p" if "p \<in> set ps" for p using qn q(5) that by auto
  have ok1: "fl_ok h1 l ps" using ps(1) chain_cong[of ps h1 h, OF same] by (simp add: fl_ok_def)
  have q1: "frames h1 q = Some \<lparr>fr_size = item_size x, fr_payload = x, fr_next = 0\<rparr>" using q(5) by simp
  have b: "length ps < 2 ^ 32 - 1" using ps(6) len by simp
  have fz: "fr_next \<lparr>fr_size = item_size x, fr_payload = x, fr_next = 0\<rparr> = 0" by simp
  obtain l' h' where a: "cmq_frame_append h1 (Some l) q = Ret (0, Some l', h')" "fl_ok h' l' (ps @ [q])"
    "content h' = content h1" "brk h' = brk h1" "avail h' = avail h1"
    "fl_max_size l' = max (fl_max_size l) (fr_size \<lparr>fr_size = item_size x, fr_payload = x, fr_next = 0\<rparr>)"
    "\<And>p. p \<notin> set ps \<Longrightarrow> frames h' p = frames h1 p"
    by (rule frame_append_ok[OF ok1 qn q(3) q1 fz b]) (rule that)
  have "heap_ok h'" using q(2) heap_ok_cong[OF a(3,4)] by simp
  moreover have "map (content h') (ps @ [q]) = map (\<lambda>x. Some (item_size x, x)) (xs @ [x])"
    using map_cong[OF refl, of ps "content h1" "content h"] ps(2) same q1 unfolding a(3) by (simp add: content_def)
  moreover have "frames h' |` (- set (ps @ [q])) = base"
    unfolding ps(3)[symmetric] using q(4,5) a(7) by (auto simp: restrict_map_def)
  moreover have "2 * n \<le> avail h'" "length (xs @ [x]) + n < 2 ^ 32" using a(5) q(6) ps(5,6) by simp_all
  ultimately have "frame_queue base n h' l' (xs @ [x])" using a(2) unfolding frame_queue_def by blast
  then show ?thesis using that q(1) a(1) by blast
qed

lemma frame_queue_put:
  assumes "frame_queue base (Suc n) h l xs" "frame_item x"
  shows "\<exists>l' h'. put_frame h l x = Ret (0, l', h') \<and> frame_queue base n h' l' (xs @ [x])"
proof -
  obtain f h1 l' h' where "cmq_frame_create h x (item_size x) = Ret (0, f, h1)"
    "cmq_frame_append h1 (Some l) f = Ret (0, Some l', h')" "frame_queue base n h' l' (xs @ [x])"
    using frame_queue_append[OF assms] .
  then show ?thesis by (simp add: put_frame_def flip: item_size_def)
qed

lemma frame_queue_weaken: "frame_queue base (m + n) h l xs \<Longrightarrow> frame_queue base n h l xs"
  by (auto simp: frame_queue_def)

lemma frame_queue_malloc:
  assumes "frame_queue base (Suc n) h l xs"
  obtains h' where "alloc_bytes h = Some h'" "frame_queue base n h' l xs"
proof -
  obtain ps where ps: "fl_ok h l ps" "map (content h) ps = map (\<lambda>x. Some (item_size x, x)) xs"
    "frames h |` (- set ps) = base" "heap_ok h" "2 * Suc n \<le> avail h" "length xs + Suc n < 2 ^ 32"
    using assms unfolding frame_queue_def by auto
  define h' where "h' = h\<lparr>avail := avail h - 1\<rparr>"
  have f: "frames h' = frames h" "brk h' = brk h" "2 * n \<le> avail h'" using ps(5) by (simp_all add: h'_def)
  have c: "content h' = content h" by (simp add: content_def f fun_eq_iff)
  have "chain h' p ps = chain h p ps" for p by (rule chain_cong) (simp add: f)
  then have "frame_queue base n h' l xs"
    using ps f heap_ok_cong[OF c] unfolding frame_queue_def by (auto simp: fl_ok_def c intro!: exI[of _ ps])
  moreover have "alloc_bytes h = Some h'" using ps(5) by (simp add: alloc_bytes_def h'_def)
  ultimately show ?thesis using that by blast
qed

lemma content_other: "q \<noteq> p \<Longrightarrow> content (h\<lparr>frames := (frames h)(p := x)\<rparr>) q = content h q"
  by (simp add: content_def)

lemma frame_queue_take:
  assumes "frame_queue base n h l (x # xs)"
  shows "\<exists>l' h'. take_frame h l = Ret (Some x, l', h') \<and> frame_queue base n h' l' xs"
proof -
  obtain p ps where ps: "fl_ok h l (p # ps)" "content h p = Some (item_size x, x)"
    "map (content h) ps = map (\<lambda>x. Some (item_size x, x)) xs"
    "frames h |` (- set (p # ps)) = base" "heap_ok h" "2 * n \<le> avail h" "length xs + n < 2 ^ 32"
    using assms unfolding frame_queue_def by (auto simp: map_eq_Cons_conv)
  obtain l' where l': "cmq_frame_pop h (Some l) = Ret (0, p, Some l')" "fl_ok h l' ps" using pop_ok[OF ps(1)] .
  obtain f where f: "frames h p = Some f" "p \<noteq> 0" "fr_payload f = x"
    using ps(1,2) by (auto simp: fl_ok_def content_def split: option.splits)
  have np: "p \<notin> set ps" using ps(1) by (simp add: fl_ok_def)
  define h' where "h' = h\<lparr>frames := (frames h)(p := None)\<rparr>"
  have "take_frame h l = Ret (Some x, l', h')"
    using l'(1) f by (simp add: take_frame_def cmq_frame_payload_def get_frame_Some destroy_frame_ok h'_def)
  moreover have "fl_ok h' l' ps" unfolding h'_def using fl_ok_free[OF l'(2) np] .
  moreover have "map (content h') ps = map (\<lambda>x. Some (item_size x, x)) xs"
    unfolding ps(3)[symmetric] h'_def using np by (intro map_cong refl content_other) auto
  moreover have "frames h' |` (- set ps) = base" unfolding ps(4)[symmetric] by (auto simp: h'_def restrict_map_def)
  moreover have "heap_ok h'" using ps(5) by (auto simp: heap_ok_def h'_def)
  moreover have "2 * n \<le> avail h'" "length xs + n < 2 ^ 32" using ps(6,7) by (simp_all add: h'_def)
  ultimately show ?thesis unfolding frame_queue_def by blast
qed

lemma frame_queue_none:
  assumes "frame_queue base n h l []"
  shows "take_frame h l = Ret (None, l, h)"
proof -
  have "fl_ok h l []" using assms by (auto simp: frame_queue_def)
  then show ?thesis by (simp add: take_frame_def pop_empty)
qed

interpretation frames_fifo: message_queue "frame_queue base" frame_item put_frame take_frame for base
  by (rule message_queue.intro) (erule (1) frame_queue_put, erule frame_queue_take, erule frame_queue_none)

lemma list_create_queue:
  assumes "heap_ok h" "2 * n < avail h" "n < 2 ^ 32"
  obtains l h1 where "cmq_frame_list_create h = (0, Some l, h1)" "frame_queue (frames h) n h1 l []"
proof -
  let ?l = "\<lparr>fl_head = 0, fl_tail = 0, fl_count = 0, fl_max_size = 0\<rparr>"
  let ?h = "h\<lparr>avail := avail h - 1\<rparr>"
  have "cmq_frame_list_create h = (0, Some ?l, ?h)"
    using assms(2) by (simp add: cmq_frame_list_create_def alloc_bytes_def)
  moreover have "frame_queue (frames h) n ?h ?l []"
    using assms by (auto simp: frame_queue_def heap_ok_def fl_ok_def restrict_map_def)
  ultimately show ?thesis by (rule that)
qed

lemma frame_queue_empty: "frame_queue base n h l [] \<Longrightarrow> frames h = base"
  by (auto simp: frame_queue_def restrict_map_def)

lemma build_ok:
  assumes "heap_ok h" "2 * (n + length ys) < avail h" "n + length ys < 2 ^ 32" "\<forall>y\<in>set ys. frame_item y"
  obtains l h1 l1 h2 where "cmq_frame_list_create h = (0, Some l, h1)" "frame_queue (frames h) (n + length ys) h1 l []"
    "put_all put_frame h1 l ys = Ret (0, l1, h2)" "frame_queue (frames h) n h2 l1 ys"
proof -
  obtain l h1 where 1: "cmq_frame_list_create h = (0, Some l, h1)" "frame_queue (frames h) (n + length ys) h1 l []"
    using list_create_queue[OF assms(1-3)] .
  obtain l1 h2 where "put_all put_frame h1 l ys = Ret (0, l1, h2)" "frame_queue (frames h) n h2 l1 ys"
    using frames_fifo.put_all_ok[OF 1(2) assms(4)] by auto
  then show ?thesis using that 1 by blast
qed

lemma list_destroy_queue:
  assumes "frame_queue base n h l xs"
  obtains h' where "cmq_frame_list_destroy h (Some l) = Ret h'" "frames h' = base"
proof -
  obtain ps where "fl_ok h l ps" "frames h |` (- set ps) = base" using assms by (auto simp: frame_queue_def)
  then show ?thesis using that by (simp add: cmq_frame_list_destroy_def list_destroy_loop_ok)
qed

section \<open>Properties\<close>

definition heap0 :: heap where
  "heap0 = \<lparr>frames = Map.empty, brk = 0, avail = 16\<rparr>"

text \<open>C21: a message is a queue of frames. With memory for it, any list of items put into a fresh list
  as frames comes out in the same order and unchanged, the list is then empty, and the heap holds
  exactly the frames it held before, so nothing leaks and no other frame is touched.\<close>

theorem frame_list_fifo:
  assumes "heap_ok h" "2 * length ys < avail h" "length ys < 2 ^ 32" "\<forall>y\<in>set ys. frame_item y"
  shows "\<exists>l h1 l1 h2 l2 h3. cmq_frame_list_create h = (0, Some l, h1)
    \<and> put_all put_frame h1 l ys = Ret (0, l1, h2)
    \<and> take_n take_frame h2 l1 (length ys) = Ret (ys, l2, h3)
    \<and> take_frame h3 l2 = Ret (None, l2, h3) \<and> frames h3 = frames h"
proof -
  obtain l h1 where 1: "cmq_frame_list_create h = (0, Some l, h1)" "frame_queue (frames h) (0 + length ys) h1 l []"
    using list_create_queue[of h "length ys"] assms by auto
  show ?thesis using frames_fifo.put_take[OF 1(2) assms(4)] 1(1) frame_queue_empty by blast
qed

theorem frame_list_fifo_witness:
  "\<exists>l h1 l1 h2 l2 h3. cmq_frame_list_create heap0 = (0, Some l, h1)
    \<and> put_all put_frame h1 l [Some [1, 2], None, Some [3]] = Ret (0, l1, h2)
    \<and> take_n take_frame h2 l1 (length [Some [1, 2], None, Some [3 :: u8]]) = Ret ([Some [1, 2], None, Some [3]], l2, h3)
    \<and> take_frame h3 l2 = Ret (None, l2, h3) \<and> frames h3 = frames heap0"
  by (rule frame_list_fifo) (simp_all add: heap0_def heap_ok_def frame_item_def)

text \<open>C22: \<open>cmq_frame_list_destroy\<close> frees every frame of a list once, and no other: destroying the list
  built from any items never faults and gives back the heap from before the first of them.\<close>

theorem list_destroy_frees_all:
  assumes "heap_ok h" "2 * length ys < avail h" "length ys < 2 ^ 32" "\<forall>y\<in>set ys. frame_item y"
  shows "\<exists>l h1 l1 h2 h3. cmq_frame_list_create h = (0, Some l, h1) \<and> put_all put_frame h1 l ys = Ret (0, l1, h2)
    \<and> cmq_frame_list_destroy h2 (Some l1) = Ret h3 \<and> frames h3 = frames h"
proof -
  have n: "2 * (0 + length ys) < avail h" "0 + length ys < 2 ^ 32" using assms by simp_all
  obtain l h1 l1 h2 where b: "cmq_frame_list_create h = (0, Some l, h1)" "frame_queue (frames h) (0 + length ys) h1 l []"
    "put_all put_frame h1 l ys = Ret (0, l1, h2)" "frame_queue (frames h) 0 h2 l1 ys"
    using build_ok[OF assms(1) n assms(4)] .
  obtain h3 where "cmq_frame_list_destroy h2 (Some l1) = Ret h3" "frames h3 = frames h"
    using list_destroy_queue[OF b(4)] .
  then show ?thesis using b by blast
qed

theorem list_destroy_frees_all_witness:
  "\<exists>l h1 l1 h2 h3. cmq_frame_list_create heap0 = (0, Some l, h1) \<and> put_all put_frame h1 l [Some [7], Some []] = Ret (0, l1, h2)
    \<and> cmq_frame_list_destroy h2 (Some l1) = Ret h3 \<and> frames h3 = frames heap0"
  by (rule list_destroy_frees_all) (simp_all add: heap0_def heap_ok_def frame_item_def)

text \<open>\<open>cmq_frame_create\<close> is all or nothing under memory pressure: it either returns a fresh frame
  with the given contents, or fails with -1 and leaves no frame behind, also when the second of its
  two allocations is the one that fails.\<close>

theorem frame_create_all_or_nothing:
  assumes "heap_ok h" "frame_item x"
  shows "\<exists>q h'. frames h (Suc (brk h)) = None \<and>
    (cmq_frame_create h x (item_size x) = Ret (- 1, 0, h') \<and> avail h \<le> 1 \<and> frames h' = frames h
     \<or> cmq_frame_create h x (item_size x) = Ret (0, q, h') \<and> q \<noteq> 0 \<and> frames h q = None
       \<and> frames h' = (frames h)(q \<mapsto> \<lparr>fr_size = item_size x, fr_payload = x, fr_next = 0\<rparr>))"
proof -
  have fresh: "frames h (Suc (brk h)) = None" using assms(1) by (cases "frames h (Suc (brk h))") (auto simp: heap_ok_def)
  consider "avail h = 0" | "avail h = 1" | "2 \<le> avail h" by linarith
  then show ?thesis
  proof cases
    case 3
    then show ?thesis
      using create_ok[OF assms(1) 3 assms(2)[unfolded frame_item_def] item_size_def] fresh by metis
  next
    case 2
    then show ?thesis using fresh
      by (cases x) (auto simp: cmq_frame_create_def alloc_frame_def alloc_bytes_def destroy_frame_ok item_size_def)
  qed (simp add: cmq_frame_create_def alloc_frame_def fresh)
qed

theorem frame_create_all_or_nothing_witness:
  "\<exists>q h'. frames heap0 (Suc (brk heap0)) = None \<and>
    (cmq_frame_create heap0 (Some [5]) (item_size (Some [5])) = Ret (- 1, 0, h') \<and> avail heap0 \<le> 1 \<and> frames h' = frames heap0
     \<or> cmq_frame_create heap0 (Some [5]) (item_size (Some [5])) = Ret (0, q, h') \<and> q \<noteq> 0 \<and> frames heap0 q = None
       \<and> frames h' = (frames heap0)(q \<mapsto> \<lparr>fr_size = item_size (Some [5]), fr_payload = Some [5], fr_next = 0\<rparr>))"
  by (rule frame_create_all_or_nothing) (simp_all add: heap0_def heap_ok_def frame_item_def)

end
