(* ===== verification/Cmq_Pkt.thy ===== *)
theory Cmq_Pkt
  imports Cmq_Frame
begin

text \<open>Messages on a connection: \<open>src/src/net/cmq/cmq-pkt.c\<close> over a stream socket (\<open>CMQ_use_mqtt\<close> is 0).
  A message is a header of three \<open>unsigned long\<close> words (version, number of frames, size hint) and, for
  every frame, its size in one \<open>unsigned long\<close> followed by its payload. The words hold the \<open>htonl\<close> of a
  32-bit value. An endpoint is the bytes that wait to be received, the bytes written, how many more
  bytes the connection takes before it fails, and whether the peer has closed it. \<open>write\<close> and \<open>recv\<close>
  (with \<open>MSG_WAITALL\<close>) return a short count or -1 as POSIX says; a receive that finds nothing returns 0
  on a closed connection and -1 when the timeout set by \<open>cmq_pkt_accept\<close> expires. Variables the code
  reads before a failed \<open>recv\<close> has filled them have the value of a parameter: \<open>stk\<close> for the header on
  the stack, \<open>sz0\<close> for the size word and \<open>mem\<close> for memory that comes from \<open>malloc\<close>.\<close>

section \<open>The socket\<close>

record endpoint =
  inbox :: bytes
  outbox :: bytes
  wroom :: nat
  eof :: bool

text \<open>No call of \<open>write\<close> or \<open>recv\<close> transfers more than this number of bytes on Linux.\<close>

definition MAX_RW_COUNT :: nat where "MAX_RW_COUNT = 0x7ffff000"

definition sock_write :: "endpoint \<Rightarrow> bytes \<Rightarrow> int \<times> endpoint" where
  "sock_write e bs = (let n = min (min (length bs) (wroom e)) MAX_RW_COUNT in
     if n = 0 \<and> bs \<noteq> [] then (- 1, e)
     else (int n, e\<lparr>outbox := outbox e @ take n bs, wroom := wroom e - n\<rparr>))"

text \<open>\<open>sock_recv\<close>: the result of \<open>recv\<close>, the bytes stored in the buffer and the endpoint.\<close>

definition sock_recv :: "endpoint \<Rightarrow> nat \<Rightarrow> int \<times> bytes \<times> endpoint" where
  "sock_recv e len = (let n = min len MAX_RW_COUNT in
     if n \<le> length (inbox e) then (int n, take n (inbox e), e\<lparr>inbox := drop n (inbox e)\<rparr>)
     else if inbox e = [] then (if eof e then 0 else - 1, [], e)
     else (int (length (inbox e)), inbox e, e\<lparr>inbox := []\<rparr>))"

text \<open>A \<open>ssize_t\<close> stored in an \<open>int\<close>, then compared as \<open>unsigned long\<close> or as \<open>unsigned int\<close>.\<close>

definition as_int :: "int \<Rightarrow> int" where
  "as_int r = sint (of_int r :: 32 word)"

definition lt_ulong :: "int \<Rightarrow> u64 \<Rightarrow> bool" where
  "lt_ulong err n \<longleftrightarrow> (of_int (as_int err) :: u64) < n"

definition lt_uint :: "int \<Rightarrow> u32 \<Rightarrow> bool" where
  "lt_uint err n \<longleftrightarrow> (of_int (as_int err) :: u32) < n"

section \<open>Byte order\<close>

definition htonl :: "u32 \<Rightarrow> u32" where
  "htonl x = of_nat (of_le_bytes (rev (le_bytes 4 (unat x))))"

definition ntohl :: "u32 \<Rightarrow> u32" where
  "ntohl x = htonl x"

definition CMQ_PKT_VERSION :: u32 where
  "CMQ_PKT_VERSION = 1"

record CMQPKTHEADER =
  ph_version :: u64
  ph_frame_count :: u64
  ph_max_size :: u64

definition header_bytes :: "CMQPKTHEADER \<Rightarrow> bytes" where
  "header_bytes p = le64 (ph_version p) @ le64 (ph_frame_count p) @ le64 (ph_max_size p)"

definition of_header_bytes :: "bytes \<Rightarrow> CMQPKTHEADER" where
  "of_header_bytes bs = \<lparr>ph_version = of_le64 (take 8 bs), ph_frame_count = of_le64 (take 8 (drop 8 bs)),
     ph_max_size = of_le64 (take 8 (drop 16 bs))\<rparr>"

section \<open>Sending\<close>

text \<open>The loop over the \<open>next\<close> pointers; \<open>None\<close> would be a walk that never ends.\<close>

partial_function (option) send_frames :: "heap \<Rightarrow> endpoint \<Rightarrow> addr \<Rightarrow> (int \<times> endpoint) run option" where
  "send_frames h e f =
     (if f = 0 then Some (Ret (0, e))
      else case frames h f of
        None \<Rightarrow> Some Fault
      | Some frame \<Rightarrow>
          let (err, e1) = sock_write e (le64 (ucast (htonl (fr_size frame))))
          in if lt_ulong err 8 then Some (Ret (- 1, e1))
             else if fr_size frame = 0 then send_frames h e1 (fr_next frame)
             else case fr_payload frame of
               None \<Rightarrow> Some Fault
             | Some d \<Rightarrow>
                 if length d < unat (fr_size frame) then Some Fault
                 else let (err, e2) = sock_write e1 (take (unat (fr_size frame)) d)
                      in if lt_ulong err (ucast (fr_size frame)) then Some (Ret (- 1, e2))
                         else send_frames h e2 (fr_next frame))"

definition cmq_pkt_send_msg :: "heap \<Rightarrow> endpoint \<Rightarrow> CMQFRAMELIST \<Rightarrow> (int \<times> endpoint) run option" where
  "cmq_pkt_send_msg h e l =
     (let (err, e1) = sock_write e (header_bytes \<lparr>ph_version = ucast (htonl CMQ_PKT_VERSION),
            ph_frame_count = ucast (htonl (fl_count l)), ph_max_size = ucast (htonl (fl_max_size l))\<rparr>)
      in if lt_ulong err 24 then Some (Ret (- 1, e1)) else send_frames h e1 (fl_head l))"

section \<open>Receiving\<close>

definition malloc_buf :: "(nat \<Rightarrow> u8) \<Rightarrow> heap \<Rightarrow> u64 \<Rightarrow> (bytes \<times> heap) option" where
  "malloc_buf mem h n = map_option (\<lambda>h'. (map mem [0..<unat n], h')) (alloc_bytes h)"

definition recv_fail :: "heap \<Rightarrow> CMQFRAMELIST \<Rightarrow> endpoint \<Rightarrow> (int \<times> CMQFRAMELIST option \<times> heap \<times> endpoint) run" where
  "recv_fail h l e = run_bind (cmq_frame_list_destroy h (Some l)) (\<lambda>h'. Ret (- 1, None, h', e))"

definition recv_into :: "endpoint \<Rightarrow> bytes \<Rightarrow> nat \<Rightarrow> int \<times> bytes \<times> endpoint" where
  "recv_into e buf n = (let (err, got, e') = sock_recv e n in (err, overwrite buf 0 got, e'))"

text \<open>The loop of \<open>cmq_pkt_recv_msg\<close> for the \<open>k\<close> frames still expected. \<open>sz\<close> is the variable \<open>size\<close> as it
  came off the wire, \<open>mx\<close> the size of the buffer \<open>payload\<close>.\<close>

fun recv_frames :: "(nat \<Rightarrow> u8) \<Rightarrow> nat \<Rightarrow> heap \<Rightarrow> endpoint \<Rightarrow> CMQFRAMELIST \<Rightarrow> u64 \<Rightarrow> u64 \<Rightarrow> bytes option
    \<Rightarrow> (int \<times> CMQFRAMELIST option \<times> heap \<times> endpoint) run" where
  "recv_frames mem 0 h e l sz mx payload = Ret (0, Some l, h, e)"
| "recv_frames mem (Suc k) h e l sz mx payload =
     (let (err, szb, e1) = recv_into e (le64 sz) 8; sz1 = of_le64 szb; n = ntohl (ucast sz1)
      in if lt_ulong err 8 then recv_fail h l e1
         else case (if mx < ucast n then map_option (\<lambda>(b, h'). (ucast n, Some b, h')) (malloc_buf mem h (ucast n))
                    else Some (mx, payload, h)) of
           None \<Rightarrow> recv_fail h l e1
         | Some (mx1, payload1, h1) \<Rightarrow>
             if n = 0 then
               run_bind (cmq_frame_create h1 None 0) (\<lambda>(err, f, h2).
                 if err < 0 then recv_fail h2 l e1
                 else run_bind (cmq_frame_append h2 (Some l) f) (\<lambda>(err, l', h3).
                   if err < 0 then run_bind (recv_fail h3 l e1) (\<lambda>(r, _, h4, e2).
                     run_bind (cmq_frame_destroy h4 f) (\<lambda>h5. Ret (r, None, h5, e2)))
                   else recv_frames mem k h3 e1 (the l') sz1 mx1 payload1))
             else (case payload1 of
               None \<Rightarrow> Fault
             | Some buf \<Rightarrow>
                 let (err, buf', e2) = recv_into e1 buf (unat n)
                 in if lt_uint err n then recv_fail h1 l e2
                    else run_bind (cmq_frame_create h1 (Some buf') n) (\<lambda>(err, f, h2).
                      if err < 0 then recv_fail h2 l e2
                      else run_bind (cmq_frame_append h2 (Some l) f) (\<lambda>(err, l', h3).
                        if err < 0 then run_bind (recv_fail h3 l e2) (\<lambda>(r, _, h4, e3).
                          run_bind (cmq_frame_destroy h4 f) (\<lambda>h5. Ret (r, None, h5, e3)))
                        else recv_frames mem k h3 e2 (the l') sz1 mx1 (Some buf')))))"

definition cmq_pkt_recv_msg :: "(nat \<Rightarrow> u8) \<Rightarrow> bytes \<Rightarrow> u64 \<Rightarrow> heap \<Rightarrow> endpoint
    \<Rightarrow> (int \<times> CMQFRAMELIST option \<times> heap \<times> endpoint) run" where
  "cmq_pkt_recv_msg mem stk sz0 h e =
     (let (err, hb, e1) = recv_into e stk 24; header = of_header_bytes hb
      in if lt_ulong err 24 then Ret (- 1, None, h, e1)
         else if ntohl (ucast (ph_version header)) \<noteq> CMQ_PKT_VERSION then Ret (- 1, None, h, e1)
         else let count = ntohl (ucast (ph_frame_count header)); mx = ucast (ntohl (ucast (ph_max_size header)))
         in case cmq_frame_list_create h of
           (err, None, h1) \<Rightarrow> Ret (- 1, None, h1, e1)
         | (err, Some l, h1) \<Rightarrow>
             if 0 < mx then
               (case malloc_buf mem h1 mx of
                  None \<Rightarrow> recv_fail h1 l e1
                | Some (b, h2) \<Rightarrow> recv_frames mem (nat (sint count)) h2 e1 l sz0 mx (Some b))
             else recv_frames mem (nat (sint count)) h1 e1 l sz0 mx None)"

section \<open>Comparisons and byte order\<close>

lemma lt_uint_iff: "lt_uint r n \<longleftrightarrow> (of_int r :: u32) < n"
  by (simp add: lt_uint_def as_int_def)

lemma lt_uint_nat: "r \<le> unat n \<Longrightarrow> lt_uint (int r) n \<longleftrightarrow> r < unat n"
proof -
  assume "r \<le> unat n"
  then have "r < 2 ^ 32" using unsigned_less[of n, where 'a = nat] by simp
  then have "unat (of_nat r :: u32) = r" by (simp add: unat_of_nat take_bit_nat_eq_self)
  then show ?thesis by (simp add: lt_uint_iff word_less_nat_alt)
qed

lemma lt_uint_error: "\<not> lt_uint (- 1) n"
  by (simp add: lt_uint_iff word_less_nat_alt not_less) (metis word_le_nat_alt word_order.extremum)

lemma as_int_nat: "r < 2 ^ 31 \<Longrightarrow> as_int (int r) = int r"
  unfolding as_int_def sint_sbintrunc' by (simp add: signed_take_bit_int_eq_self)

lemma lt_ulong_nat: "r < 2 ^ 31 \<Longrightarrow> lt_ulong (int r) n \<longleftrightarrow> r < unat n"
  by (simp add: lt_ulong_def as_int_nat word_less_nat_alt unat_of_nat take_bit_nat_eq_self)

lemma lt_ulong_error: "\<not> lt_ulong (- 1) n"
  by (simp add: lt_ulong_def as_int_def not_less)

lemma unat_ucast_u32 [simp]: "unat (ucast (s :: u32) :: u64) = unat s"
  using unsigned_less[of s, where 'a = nat] by (simp add: unsigned_ucast_eq take_bit_nat_eq_self)

lemma ucast_ucast_u32 [simp]: "ucast (ucast (x :: u32) :: u64) = x"
  by (rule bit_word_eqI) (auto simp: bit_simps dest: bit_imp_le_length)

lemma uint_ucast_u32: "uint (ucast (s :: u32) :: u64) = int (unat s)"
  by (metis unat_ucast_u32 uint_nat)

lemma lt_ulong_full: "\<not> lt_ulong (int (unat s)) (ucast (s :: u32))"
proof (cases "unat s < 2 ^ 31")
  case True
  then show ?thesis using lt_ulong_nat[of "unat s" "ucast s"] by simp
next
  case False
  define u where "u = unat s"
  have less: "u < 2 ^ 32" "\<not> u < 2 ^ 31" using unsigned_less[of s, where 'a = nat] False by (simp_all add: u_def)
  have "(of_int (int u) :: u32) = of_int (int u - 2 ^ 32)" by simp
  then have "as_int (int u) = signed_take_bit 31 (int u - 2 ^ 32)"
    unfolding as_int_def by (simp only: sint_sbintrunc') simp
  also have "\<dots> = int u - 2 ^ 32" using less by (intro signed_take_bit_int_eq_self) simp_all
  finally have a: "as_int (int u) = int u - 2 ^ 32" .
  have "uint (of_int (int u - 2 ^ 32) :: u64) = (int u - 2 ^ 32) mod 2 ^ 64"
    by (simp only: uint_word_of_int_eq take_bit_eq_mod) simp
  also have "\<dots> = (int u - 2 ^ 32 + 2 ^ 64) mod 2 ^ 64" by (rule mod_add_self2[symmetric])
  also have "\<dots> = int u - 2 ^ 32 + 2 ^ 64" using less by (intro mod_pos_pos_trivial) simp_all
  finally have "uint (ucast s :: u64) \<le> uint (of_int (int u - 2 ^ 32) :: u64)"
    using uint_ucast_u32[of s] by (simp add: u_def)
  then show ?thesis by (simp only: lt_ulong_def a not_less word_le_def flip: u_def)
qed

lemma ntohl_htonl [simp]: "ntohl (htonl x) = x"
proof -
  let ?bs = "rev (le_bytes 4 (unat x))"
  have "of_le_bytes ?bs < 2 ^ 32" using of_le_bytes_less[of ?bs] by simp
  then have "unat (htonl x) = of_le_bytes ?bs" by (simp add: htonl_def unat_of_nat take_bit_nat_eq_self)
  moreover have "of_le_bytes (le_bytes 4 (unat x)) = unat x"
    using unsigned_less[of x, where 'a = nat] by (simp add: of_le_bytes_le_bytes)
  ultimately show ?thesis by (simp add: ntohl_def htonl_def[of "htonl x"] le_bytes_of_le_bytes)
qed

lemma of_header_bytes_inverse [simp]: "of_header_bytes (header_bytes p @ bs) = p"
  by (simp add: of_header_bytes_def header_bytes_def)

section \<open>The wire format\<close>

definition word_wire :: "u32 \<Rightarrow> bytes" where
  "word_wire x = le64 (ucast (htonl x))"

definition frame_wire :: "bytes option \<Rightarrow> bytes" where
  "frame_wire x = word_wire (item_size x) @ (case x of None \<Rightarrow> [] | Some d \<Rightarrow> d)"

definition wire :: "u32 \<Rightarrow> u32 \<Rightarrow> bytes option list \<Rightarrow> bytes" where
  "wire c m xs = word_wire CMQ_PKT_VERSION @ word_wire c @ word_wire m @ concat (map frame_wire xs)"

text \<open>An empty payload arrives as a zero frame.\<close>

definition arrives_as :: "bytes option \<Rightarrow> bytes option" where
  "arrives_as x = (if x = Some [] then None else x)"

lemma length_word_wire [simp]: "length (word_wire x) = 8"
  by (simp add: word_wire_def)

lemma unat_item_size: "frame_item x \<Longrightarrow> unat (item_size x) = (case x of None \<Rightarrow> 0 | Some d \<Rightarrow> length d)"
  by (auto simp: frame_item_def item_size_def unat_of_nat take_bit_nat_eq_self split: option.splits)

text \<open>A frame that one call transfers.\<close>

definition wire_item :: "bytes option \<Rightarrow> bool" where
  "wire_item x \<longleftrightarrow> (\<forall>d. x = Some d \<longrightarrow> length d \<le> MAX_RW_COUNT)"

lemma wire_item_frame: "wire_item x \<Longrightarrow> frame_item x"
  by (auto simp: wire_item_def frame_item_def MAX_RW_COUNT_def)

lemma sock_write_ok:
  "length bs \<le> wroom e \<Longrightarrow> length bs \<le> MAX_RW_COUNT \<Longrightarrow> sock_write e bs = (int (length bs), e\<lparr>outbox := outbox e @ bs, wroom := wroom e - length bs\<rparr>)"
  by (auto simp: sock_write_def Let_def min_def)

lemma send_frames_ok:
  "chain h p ps \<Longrightarrow> map (content h) ps = map (\<lambda>x. Some (item_size x, x)) xs \<Longrightarrow> \<forall>x\<in>set xs. wire_item x
     \<Longrightarrow> length (concat (map frame_wire xs)) \<le> wroom e
     \<Longrightarrow> \<exists>e'. send_frames h e p = Some (Ret (0, e')) \<and> outbox e' = outbox e @ concat (map frame_wire xs)
          \<and> inbox e' = inbox e \<and> eof e' = eof e \<and> wroom e' = wroom e - length (concat (map frame_wire xs))"
proof (induction ps arbitrary: p xs e)
  case Nil
  then show ?case by (simp add: send_frames.simps)
next
  case (Cons q ps)
  obtain x ys where xs: "xs = x # ys" "content h q = Some (item_size x, x)"
    "map (content h) ps = map (\<lambda>x. Some (item_size x, x)) ys" using Cons.prems(2) by (auto simp: Cons_eq_map_conv)
  obtain f where f: "frames h q = Some f" "p = q" "q \<noteq> 0" "chain h (fr_next f) ps" "fr_size f = item_size x" "fr_payload f = x"
    using Cons.prems(1) xs(2) by (auto simp: content_def split: option.splits)
  have wi: "wire_item x" using Cons.prems(3) xs(1) by simp
  then have it: "frame_item x" by (rule wire_item_frame)
  have room: "8 + length (case x of None \<Rightarrow> [] | Some d \<Rightarrow> d) + length (concat (map frame_wire ys)) \<le> wroom e"
    using Cons.prems(4) xs(1) by (simp add: frame_wire_def[of x])
  define e1 where "e1 = e\<lparr>outbox := outbox e @ word_wire (item_size x), wroom := wroom e - 8\<rparr>"
  have w1: "sock_write e (word_wire (item_size x)) = (8, e1)" using room by (simp add: sock_write_ok e1_def MAX_RW_COUNT_def)
  have n8: "\<not> lt_ulong 8 8" using lt_ulong_nat[of 8 8] by simp
  define e2 where "e2 = e\<lparr>outbox := outbox e @ frame_wire x, wroom := wroom e - length (frame_wire x)\<rparr>"
  have step: "send_frames h e p = send_frames h e2 (fr_next f)"
  proof (cases "item_size x = 0")
    case True
    then have "frame_wire x = word_wire (item_size x)"
      using unat_item_size[OF it] by (simp add: frame_wire_def split: option.splits)
    then show ?thesis using f True w1 n8
      by (simp add: send_frames.simps[of h e q] e2_def e1_def flip: word_wire_def)
  next
    case False
    then obtain d where d: "x = Some d" by (auto simp: item_size_def split: option.splits)
    have u: "unat (item_size x) = length d" using unat_item_size[OF it] d by simp
    have "sock_write e1 d = (int (length d), e2)" using room d wi by (simp add: sock_write_ok e1_def e2_def frame_wire_def wire_item_def)
    then show ?thesis using f False w1 n8 d u lt_ulong_full[of "item_size x"]
      by (simp add: send_frames.simps[of h e q] flip: word_wire_def)
  qed
  have "length (concat (map frame_wire ys)) \<le> wroom e2" using Cons.prems(4) xs(1) by (simp add: e2_def)
  then show ?case using Cons.IH[OF f(4) xs(3), of e2] Cons.prems(3) xs(1) step by (auto simp: e2_def)
qed

lemma cmq_pkt_send_msg_ok:
  assumes "frame_queue base n h l xs" "\<forall>x\<in>set xs. wire_item x" "length (wire (fl_count l) (fl_max_size l) xs) \<le> wroom e"
  shows "\<exists>e'. cmq_pkt_send_msg h e l = Some (Ret (0, e')) \<and> outbox e' = outbox e @ wire (fl_count l) (fl_max_size l) xs
    \<and> unat (fl_count l) = length xs"
proof -
  obtain ps where ps: "fl_ok h l ps" "map (content h) ps = map (\<lambda>x. Some (item_size x, x)) xs"
    using assms(1) by (auto simp: frame_queue_def)
  have len: "unat (fl_count l) = length xs" using arg_cong[OF ps(2), of length] ps(1) by (simp add: fl_ok_def)
  let ?hdr = "word_wire CMQ_PKT_VERSION @ word_wire (fl_count l) @ word_wire (fl_max_size l)"
  define e1 where "e1 = e\<lparr>outbox := outbox e @ ?hdr, wroom := wroom e - 24\<rparr>"
  have w: "sock_write e ?hdr = (24, e1)" using assms(3) by (simp add: sock_write_ok e1_def wire_def MAX_RW_COUNT_def)
  have "\<not> lt_ulong 24 24" using lt_ulong_nat[of 24 24] by simp
  then have "cmq_pkt_send_msg h e l = send_frames h e1 (fl_head l)"
    using w by (simp add: cmq_pkt_send_msg_def header_bytes_def flip: word_wire_def)
  moreover have "length (concat (map frame_wire xs)) \<le> wroom e1" using assms(3) by (simp add: e1_def wire_def)
  ultimately show ?thesis
    using send_frames_ok[of h "fl_head l" ps xs e1] ps assms(2) len by (auto simp: fl_ok_def e1_def wire_def)
qed

section \<open>Receiving what was sent\<close>

lemma recv_into_ok:
  "inbox e = bs @ rest \<Longrightarrow> length bs = n \<Longrightarrow> n \<le> MAX_RW_COUNT \<Longrightarrow> recv_into e buf n = (int n, bs @ drop n buf, e\<lparr>inbox := rest\<rparr>)"
  by (auto simp: recv_into_def sock_recv_def overwrite_def Let_def)

lemma recv_word:
  assumes "inbox e = word_wire x @ rest"
  obtains szb where "recv_into e (le64 sz) 8 = (8, szb, e\<lparr>inbox := rest\<rparr>)" "of_le64 szb = ucast (htonl x)"
  using recv_into_ok[OF assms, of 8 "le64 sz"] that by (simp add: word_wire_def MAX_RW_COUNT_def)

definition buf_ok :: "u64 \<Rightarrow> bytes option \<Rightarrow> bool" where
  "buf_ok mx payload \<longleftrightarrow> (case payload of None \<Rightarrow> mx = 0 | Some b \<Rightarrow> length b = unat mx)"

definition grow :: "(nat \<Rightarrow> u8) \<Rightarrow> heap \<Rightarrow> u64 \<Rightarrow> bytes option \<Rightarrow> u32 \<Rightarrow> (u64 \<times> bytes option \<times> heap) option" where
  "grow mem h mx payload n = (if mx < ucast n then map_option (\<lambda>(b, h'). (ucast n, Some b, h')) (malloc_buf mem h (ucast n))
     else Some (mx, payload, h))"

lemma grow_ok:
  assumes "frame_queue base (Suc m) h l ys" "buf_ok mx payload"
  obtains mx1 payload1 h1 where "grow mem h mx payload n = Some (mx1, payload1, h1)" "buf_ok mx1 payload1"
    "ucast n \<le> mx1" "frame_queue base m h1 l ys"
proof (cases "mx < ucast n")
  case True
  obtain h' where "alloc_bytes h = Some h'" "frame_queue base m h' l ys" using frame_queue_malloc[OF assms(1)] .
  then show ?thesis using True that[of "ucast n" "Some (map mem [0..<unat n])" h']
    by (simp add: grow_def malloc_buf_def buf_ok_def)
next
  case False
  then show ?thesis using that[of mx payload h] assms frame_queue_weaken[of base 1 m h l ys]
    by (simp add: grow_def)
qed

lemma create_prefix:
  "n \<noteq> 0 \<Longrightarrow> unat n \<le> length d \<Longrightarrow> cmq_frame_create h (Some d) n = cmq_frame_create h (Some (take (unat n) d)) n"
  by (auto simp: cmq_frame_create_def split: option.split)

lemma n8: "\<not> lt_ulong 8 8"
  using lt_ulong_nat[of 8 8] by simp

lemma recv_step:
  assumes q: "frame_queue base (Suc (Suc m)) h l ys" and wi: "wire_item x" and b: "buf_ok mx payload"
    and inb: "inbox e = frame_wire x @ rest"
  obtains l' h' sz' mx' payload' where
    "\<And>k. recv_frames mem (Suc k) h e l sz mx payload = recv_frames mem k h' (e\<lparr>inbox := rest\<rparr>) l' sz' mx' payload'"
    "frame_queue base m h' l' (ys @ [arrives_as x])" "buf_ok mx' payload'"
proof -
  have it: "frame_item x" using wi by (rule wire_item_frame)
  let ?n = "item_size x" and ?d = "case x of None \<Rightarrow> [] | Some d \<Rightarrow> d"
  have inb': "inbox e = word_wire ?n @ ?d @ rest" using inb by (simp add: frame_wire_def)
  define e1 where "e1 = e\<lparr>inbox := ?d @ rest\<rparr>"
  obtain szb where szb: "recv_into e (le64 sz) 8 = (8, szb, e1)" "of_le64 szb = ucast (htonl ?n)"
    using recv_word[OF inb'] unfolding e1_def by metis
  obtain mx1 payload1 h1 where g: "grow mem h mx payload ?n = Some (mx1, payload1, h1)" "buf_ok mx1 payload1"
    "ucast ?n \<le> mx1" "frame_queue base (Suc m) h1 l ys" using grow_ok[OF q b] .
  have len: "length ?d = unat ?n" using unat_item_size[OF it] by (simp split: option.splits)
  have it': "frame_item (arrives_as x)" "item_size (arrives_as x) = ?n"
    using it by (auto simp: arrives_as_def frame_item_def item_size_def)
  obtain f h2 l' h' where fa: "cmq_frame_create h1 (arrives_as x) ?n = Ret (0, f, h2)"
    "cmq_frame_append h2 (Some l) f = Ret (0, Some l', h')" "frame_queue base m h' l' (ys @ [arrives_as x])"
    using frame_queue_append[OF g(4) it'(1)] it'(2) by metis
  show ?thesis
  proof (cases "?n = 0")
    case True
    then have "arrives_as x = None" "e1 = e\<lparr>inbox := rest\<rparr>"
      using len by (auto simp: arrives_as_def item_size_def e1_def split: option.splits)
    then show ?thesis using that[of h' l' "of_le64 szb" mx1 payload1] szb g(1,2) fa True n8
      by (simp add: grow_def)
  next
    case False
    then obtain d where "x = Some d" by (auto simp: item_size_def split: option.splits)
    then have d: "x = Some d" "d \<noteq> []" using False by (auto simp: item_size_def)
    have le: "unat ?n \<le> unat mx1" using g(3) by (simp add: word_le_nat_alt)
    obtain buf where buf: "payload1 = Some buf" "length buf = unat mx1"
      using g(2) le False by (cases payload1) (auto simp: buf_ok_def unat_eq_0)
    have r: "recv_into e1 buf (unat ?n) = (int (unat ?n), d @ drop (unat ?n) buf, e\<lparr>inbox := rest\<rparr>)"
      using recv_into_ok[of e1 d rest "unat ?n" buf] d len wi by (simp add: e1_def wire_item_def)
    have c: "cmq_frame_create h1 (Some (d @ drop (unat ?n) buf)) ?n = Ret (0, f, h2)"
      using create_prefix[OF False, of "d @ drop (unat ?n) buf" h1] fa(1) d len by (simp add: arrives_as_def)
    have s: "\<not> lt_uint (int (unat ?n)) ?n" using lt_uint_nat[of "unat ?n" ?n] by simp
    show ?thesis
    proof (rule that)
      show "recv_frames mem (Suc k) h e l sz mx payload =
        recv_frames mem k h' (e\<lparr>inbox := rest\<rparr>) l' (of_le64 szb) mx1 (Some (d @ drop (unat ?n) buf))" for k
        using szb g(1) n8 False buf(1) r c s fa(2) by (simp add: grow_def) (simp add: Let_def)
    qed (use fa(3) buf d len le in \<open>auto simp: buf_ok_def\<close>)
  qed
qed

lemma recv_frames_prefix:
  "frame_queue base (2 * length xs + n) h l ys \<Longrightarrow> \<forall>x\<in>set xs. wire_item x \<Longrightarrow> buf_ok mx payload
     \<Longrightarrow> inbox e = concat (map frame_wire xs) @ rest
     \<Longrightarrow> \<exists>l' h' sz' mx' payload'. (\<forall>k. recv_frames mem (length xs + k) h e l sz mx payload
            = recv_frames mem k h' (e\<lparr>inbox := rest\<rparr>) l' sz' mx' payload')
          \<and> frame_queue base n h' l' (ys @ map arrives_as xs) \<and> buf_ok mx' payload'"
proof (induction xs arbitrary: h l ys e sz mx payload)
  case Nil
  then have "e\<lparr>inbox := rest\<rparr> = e" by simp
  with Nil show ?case by (intro exI) (auto simp del: recv_frames.simps)
next
  case (Cons x xs)
  have q: "frame_queue base (Suc (Suc (2 * length xs + n))) h l ys" "wire_item x"
    "inbox e = frame_wire x @ (concat (map frame_wire xs) @ rest)" using Cons.prems by simp_all
  obtain l' h' sz' mx' payload' where s:
    "\<And>k. recv_frames mem (Suc k) h e l sz mx payload
        = recv_frames mem k h' (e\<lparr>inbox := concat (map frame_wire xs) @ rest\<rparr>) l' sz' mx' payload'"
    "frame_queue base (2 * length xs + n) h' l' (ys @ [arrives_as x])" "buf_ok mx' payload'"
    by (rule recv_step[OF q(1,2) Cons.prems(3) q(3), of mem sz]) (rule that)
  then show ?case using Cons.IH[OF s(2) _ s(3), of "e\<lparr>inbox := concat (map frame_wire xs) @ rest\<rparr>" sz'] Cons.prems(2)
    by (simp del: recv_frames.simps)
qed

lemma recv_frames_ok:
  assumes "frame_queue base (2 * length xs + n) h l ys" "\<forall>x\<in>set xs. wire_item x" "buf_ok mx payload"
    "inbox e = concat (map frame_wire xs) @ rest"
  shows "\<exists>l' h'. recv_frames mem (length xs) h e l sz mx payload = Ret (0, Some l', h', e\<lparr>inbox := rest\<rparr>)
    \<and> frame_queue base n h' l' (ys @ map arrives_as xs)"
proof -
  obtain l' h' sz' mx' payload' where "\<forall>k. recv_frames mem (length xs + k) h e l sz mx payload
      = recv_frames mem k h' (e\<lparr>inbox := rest\<rparr>) l' sz' mx' payload'" "frame_queue base n h' l' (ys @ map arrives_as xs)"
    using recv_frames_prefix[OF assms] by blast
  then show ?thesis using recv_frames.simps(1) by (metis add_0_right)
qed

lemma n24: "\<not> lt_ulong 24 24"
  using lt_ulong_nat[of 24 24] by simp

definition hint_buf :: "(nat \<Rightarrow> u8) \<Rightarrow> u32 \<Rightarrow> bytes option" where
  "hint_buf mem m = (if m = 0 then None else Some (map mem [0..<unat m]))"

lemma buf_ok_hint: "buf_ok (ucast m) (hint_buf mem m)"
  by (simp add: buf_ok_def hint_buf_def)

lemma recv_header:
  assumes "inbox e = word_wire CMQ_PKT_VERSION @ word_wire c @ word_wire m @ rest"
    and "frame_queue base n h1 l []" "cmq_frame_list_create h = (0, Some l, h1)" "0 < n"
  obtains h2 where "cmq_pkt_recv_msg mem stk sz0 h e
      = recv_frames mem (nat (sint c)) h2 (e\<lparr>inbox := rest\<rparr>) l sz0 (ucast m) (hint_buf mem m)"
    "frame_queue base (n - 1) h2 l []"
proof -
  let ?p = "\<lparr>ph_version = ucast (htonl CMQ_PKT_VERSION), ph_frame_count = ucast (htonl c), ph_max_size = ucast (htonl m)\<rparr>"
  have "inbox e = header_bytes ?p @ rest" using assms(1) by (simp add: header_bytes_def word_wire_def)
  then have r: "recv_into e stk 24 = (24, header_bytes ?p @ drop 24 stk, e\<lparr>inbox := rest\<rparr>)"
    using recv_into_ok[of e "header_bytes ?p" rest 24 stk] by (simp add: header_bytes_def MAX_RW_COUNT_def)
  obtain h' where a: "alloc_bytes h1 = Some h'" "frame_queue base (n - 1) h' l []"
    using frame_queue_malloc[of base "n - 1" h1 l "[]"] assms(2,4) by auto
  have z: "0 < (ucast m :: u64) \<longleftrightarrow> m \<noteq> 0" by (simp add: word_less_nat_alt unat_gt_0)
  have w: "frame_queue base (n - 1) h1 l []" using frame_queue_weaken[of base 1 "n - 1" h1 l "[]"] assms(2,4) by simp
  show ?thesis
  proof (cases "m = 0")
    case True
    show ?thesis by (rule that[of h1])
      (use r z True assms(3) n24 w in \<open>simp_all add: cmq_pkt_recv_msg_def hint_buf_def\<close>)
  next
    case False
    show ?thesis by (rule that[of h'])
      (use r z False assms(3) n24 a in \<open>simp_all add: cmq_pkt_recv_msg_def hint_buf_def malloc_buf_def\<close>)
  qed
qed

lemma sint_count:
  assumes "unat (c :: u32) = k" "k < 2 ^ 31"
  shows "nat (sint c) = k"
proof -
  have "sint c = as_int (int k)" using assms(1) by (auto simp: as_int_def)
  then show ?thesis using as_int_nat[OF assms(2)] by simp
qed

lemma cmq_pkt_recv_msg_ok:
  assumes "heap_ok h" "4 * length xs + 2 * n + 2 < avail h" "2 * length xs + n < 2 ^ 32 - 1" "unat c = length xs"
    "length xs < 2 ^ 31" "\<forall>x\<in>set xs. wire_item x" "inbox e = wire c m xs @ rest"
  shows "\<exists>l' h'. cmq_pkt_recv_msg mem stk sz0 h e = Ret (0, Some l', h', e\<lparr>inbox := rest\<rparr>)
    \<and> frame_queue (frames h) n h' l' (map arrives_as xs)"
proof -
  have r: "2 * (2 * length xs + n + 1) < avail h" "2 * length xs + n + 1 < 2 ^ 32" using assms(2,3) by simp_all
  obtain l h1 where l: "cmq_frame_list_create h = (0, Some l, h1)" "frame_queue (frames h) (2 * length xs + n + 1) h1 l []"
    using list_create_queue[OF assms(1) r] .
  have inb: "inbox e = word_wire CMQ_PKT_VERSION @ word_wire c @ word_wire m @ (concat (map frame_wire xs) @ rest)"
    using assms(7) by (simp add: wire_def)
  obtain h2 where h: "cmq_pkt_recv_msg mem stk sz0 h e
      = recv_frames mem (nat (sint c)) h2 (e\<lparr>inbox := concat (map frame_wire xs) @ rest\<rparr>) l sz0 (ucast m) (hint_buf mem m)"
    "frame_queue (frames h) (2 * length xs + n) h2 l []"
    using recv_header[OF inb l(2,1), of mem stk sz0] by auto
  show ?thesis
    using recv_frames_ok[OF h(2) assms(6) buf_ok_hint, of "e\<lparr>inbox := concat (map frame_wire xs) @ rest\<rparr>" rest mem sz0] h(1)
      sint_count[OF assms(4,5)] by simp
qed

declare recv_frames.simps(2) [simp del]

text \<open>The size of a frame arrives and then nothing more.\<close>

lemma recv_stale:
  assumes "frame_queue base (Suc (Suc n)) h l ys" "buf_ok mx payload" "inbox e = word_wire s" "\<not> eof e" "s \<noteq> 0"
  shows "\<exists>l' h' d. recv_frames mem 1 h e l sz mx payload = Ret (0, Some l', h', e\<lparr>inbox := []\<rparr>)
    \<and> frame_queue base n h' l' (ys @ [Some d]) \<and> length d = unat s
    \<and> (mx = ucast m \<longrightarrow> payload = hint_buf mem m \<longrightarrow> d = map mem [0..<unat s])"
proof -
  let ?e = "e\<lparr>inbox := []\<rparr>"
  obtain szb where szb: "recv_into e (le64 sz) 8 = (8, szb, ?e)" "of_le64 szb = ucast (htonl s)"
    using recv_word[of e s "[]" sz] assms(3) by auto
  obtain mx1 payload1 h1 where g: "grow mem h mx payload s = Some (mx1, payload1, h1)" "buf_ok mx1 payload1"
    "ucast s \<le> mx1" "frame_queue base (Suc n) h1 l ys" using grow_ok[OF assms(1,2)] .
  have le: "unat s \<le> unat mx1" using g(3) by (simp add: word_le_nat_alt)
  obtain buf where buf: "payload1 = Some buf" "length buf = unat mx1"
    using g(2) le assms(5) by (cases payload1) (auto simp: buf_ok_def unat_eq_0)
  define d where "d = take (unat s) buf"
  have len: "length d = unat s" using buf le by (simp add: d_def)
  have it: "frame_item (Some d)" "item_size (Some d) = s"
    using len unsigned_less[of s, where 'a = nat] by (simp_all add: frame_item_def item_size_def)
  obtain f h3 l' h' where fa: "cmq_frame_create h1 (Some d) s = Ret (0, f, h3)"
    "cmq_frame_append h3 (Some l) f = Ret (0, Some l', h')" "frame_queue base n h' l' (ys @ [Some d])"
    using frame_queue_append[OF g(4) it(1)] unfolding it(2) by blast
  have r: "recv_into ?e buf (unat s) = (- 1, buf, ?e)"
    using assms(4,5) unat_gt_0[of s] by (simp add: recv_into_def sock_recv_def overwrite_def unat_eq_0 MAX_RW_COUNT_def Let_def)
  have c: "cmq_frame_create h1 (Some buf) s = Ret (0, f, h3)"
    using create_prefix[OF assms(5), of buf h1] buf le fa(1) by (simp add: d_def)
  have "recv_frames mem 1 h e l sz mx payload = Ret (0, Some l', h', ?e)"
    using szb g(1) n8 assms(5) lt_uint_error[of s] buf(1) r c fa(2) by (simp add: recv_frames.simps(2) grow_def)
  moreover have "d = map mem [0..<unat s]" if "mx = ucast m" "payload = hint_buf mem m"
  proof -
    have "buf = map mem [0..<unat mx1]"
      using that g(1,3) buf(1) by (auto simp: grow_def malloc_buf_def hint_buf_def split: if_splits option.splits)
    then show ?thesis using le by (simp add: d_def take_map take_upt)
  qed
  ultimately show ?thesis using fa(3) len by blast
qed

section \<open>Truncated messages\<close>

lemma recv_into_short:
  assumes "length (inbox e) < n \<or> MAX_RW_COUNT < n" "eof e"
  obtains r buf' e' where "recv_into e buf n = (int r, buf', e')" "r < n"
proof (cases "min n MAX_RW_COUNT \<le> length (inbox e)")
  case True
  then obtain buf' e' where "recv_into e buf n = (int (min n MAX_RW_COUNT), buf', e')" by (simp add: recv_into_def sock_recv_def Let_def)
  moreover have "min n MAX_RW_COUNT < n" using True assms(1) by linarith
  ultimately show ?thesis by (rule that)
next
  case False
  then have "length (inbox e) < n" by simp
  moreover obtain buf' e' where "recv_into e buf n = (int (length (inbox e)), buf', e')"
    using False assms(2) by (cases "inbox e = []") (simp_all add: recv_into_def sock_recv_def Let_def del: min_le_iff_disj)
  ultimately show ?thesis using that by blast
qed

lemma recv_fail_ok:
  assumes "frame_queue base n h l xs"
  shows "\<exists>h'. recv_fail h l e = Ret (- 1, None, h', e) \<and> frames h' = base"
proof -
  obtain h' where "cmq_frame_list_destroy h (Some l) = Ret h'" "frames h' = base" using list_destroy_queue[OF assms] .
  then show ?thesis by (simp add: recv_fail_def)
qed

lemma recv_size_short:
  assumes "frame_queue base m h l ys" "eof e" "length (inbox e) < 8"
  shows "\<exists>h' e'. recv_frames mem (Suc k) h e l sz mx payload = Ret (- 1, None, h', e') \<and> frames h' = base"
proof -
  obtain r buf' e' where "recv_into e (le64 sz) 8 = (int r, buf', e')" "r < 8"
    using recv_into_short[OF disjI1[OF assms(3)] assms(2)] .
  moreover have "lt_ulong (int r) 8" using lt_ulong_nat[of r 8] calculation(2) by simp
  ultimately have "recv_frames mem (Suc k) h e l sz mx payload = recv_fail h l e'"
    by (simp add: recv_frames.simps(2))
  then show ?thesis using recv_fail_ok[OF assms(1), of e'] by auto
qed

lemma recv_payload_short:
  assumes "frame_queue base (Suc m) h l ys" "frame_item (Some d)" "buf_ok mx payload" "eof e"
    "inbox e = word_wire (item_size (Some d)) @ bs" "length bs < length d \<or> MAX_RW_COUNT < length d"
  shows "\<exists>h' e'. recv_frames mem (Suc k) h e l sz mx payload = Ret (- 1, None, h', e') \<and> frames h' = base"
proof -
  let ?n = "item_size (Some d)"
  define e1 where "e1 = e\<lparr>inbox := bs\<rparr>"
  obtain szb where szb: "recv_into e (le64 sz) 8 = (8, szb, e1)" "of_le64 szb = ucast (htonl ?n)"
    using recv_word[OF assms(5)] unfolding e1_def by metis
  obtain mx1 payload1 h1 where g: "grow mem h mx payload ?n = Some (mx1, payload1, h1)" "buf_ok mx1 payload1"
    "ucast ?n \<le> mx1" "frame_queue base m h1 l ys" using grow_ok[OF assms(1,3)] .
  have u: "unat ?n = length d" using unat_item_size[OF assms(2)] by simp
  then have n0: "?n \<noteq> 0" using assms(6) by auto
  have le: "unat ?n \<le> unat mx1" using g(3) by (simp add: word_le_nat_alt)
  obtain buf where buf: "payload1 = Some buf" using g(2) le n0 by (cases payload1) (auto simp: buf_ok_def unat_eq_0)
  have "length (inbox e1) < unat ?n \<or> MAX_RW_COUNT < unat ?n" "eof e1" using assms(4,6) u by (simp_all add: e1_def)
  then obtain r buf' e' where r: "recv_into e1 buf (unat ?n) = (int r, buf', e')" "r < unat ?n" by (rule recv_into_short)
  have s: "lt_uint (int r) ?n" using lt_uint_nat[of r ?n] r(2) by simp
  have "recv_frames mem (Suc k) h e l sz mx payload = recv_fail h1 l e'"
    using szb g(1) n8 n0 buf r(1) s by (simp add: recv_frames.simps(2) grow_def)
  then show ?thesis using recv_fail_ok[OF g(4), of e'] by auto
qed

lemma recv_frame_cut:
  assumes "frame_queue base (Suc m) h l ys" "frame_item x" "buf_ok mx payload" "eof e"
    "inbox e @ suf = frame_wire x" "suf \<noteq> []"
  shows "\<exists>h' e'. recv_frames mem (Suc k) h e l sz mx payload = Ret (- 1, None, h', e') \<and> frames h' = base"
proof (cases "length (inbox e) < 8")
  case True
  then show ?thesis using recv_size_short[OF assms(1,4)] by blast
next
  case False
  let ?d = "case x of None \<Rightarrow> [] | Some d \<Rightarrow> d"
  have "take 8 (inbox e) @ drop 8 (inbox e) @ suf = word_wire (item_size x) @ ?d"
    using assms(5) by (simp add: frame_wire_def flip: append_assoc)
  then have t: "take 8 (inbox e) = word_wire (item_size x)" "drop 8 (inbox e) @ suf = ?d"
    using False by (simp_all add: append_eq_append_conv)
  then obtain d where d: "x = Some d" "length (drop 8 (inbox e)) < length d"
    using assms(6) by (cases x) (auto simp flip: length_greater_0_conv)
  have inb: "inbox e = word_wire (item_size (Some d)) @ drop 8 (inbox e)"
    using t(1) d(1) append_take_drop_id[of 8 "inbox e"] by simp
  show ?thesis using recv_payload_short[OF assms(1) assms(2)[unfolded d(1)] assms(3,4) inb disjI1[OF d(2)]] .
qed

lemma recv_frames_cut:
  "frame_queue base (2 * length xs) h l ys \<Longrightarrow> \<forall>x\<in>set xs. frame_item x \<Longrightarrow> buf_ok mx payload \<Longrightarrow> eof e
     \<Longrightarrow> inbox e @ suf = concat (map frame_wire xs) \<Longrightarrow> suf \<noteq> []
     \<Longrightarrow> \<exists>h' e'. recv_frames mem (length xs) h e l sz mx payload = Ret (- 1, None, h', e') \<and> frames h' = base"
proof (induction xs arbitrary: h l ys e sz mx payload)
  case (Cons x xs)
  have q: "frame_queue base (Suc (Suc (2 * length xs))) h l ys" "frame_item x" using Cons.prems by simp_all
  have app: "inbox e @ suf = frame_wire x @ concat (map frame_wire xs)" using Cons.prems(5) by simp
  then obtain vs where "inbox e = frame_wire x @ vs \<and> vs @ suf = concat (map frame_wire xs)
      \<or> inbox e @ vs = frame_wire x \<and> suf = vs @ concat (map frame_wire xs)"
    by (auto simp: append_eq_append_conv2)
  then consider us where "inbox e = frame_wire x @ us" "us @ suf = concat (map frame_wire xs)"
    | us where "inbox e @ us = frame_wire x" "us \<noteq> []"
    by (cases "vs = []") auto
  then show ?case
  proof cases
    case (1 us)
    show ?thesis
    proof (cases "wire_item x")
      case True
      obtain l' h' sz' mx' payload' where s:
        "\<And>k. recv_frames mem (Suc k) h e l sz mx payload = recv_frames mem k h' (e\<lparr>inbox := us\<rparr>) l' sz' mx' payload'"
        "frame_queue base (2 * length xs) h' l' (ys @ [arrives_as x])" "buf_ok mx' payload'"
        by (rule recv_step[OF q(1) True Cons.prems(3) 1(1), of mem sz]) (rule that)
      then show ?thesis using Cons.IH[OF s(2) _ s(3), of "e\<lparr>inbox := us\<rparr>" sz'] Cons.prems 1(2)
        by (simp del: recv_frames.simps)
    next
      case False
      then obtain d where d: "x = Some d" "MAX_RW_COUNT < length d" by (auto simp: wire_item_def)
      then have "inbox e = word_wire (item_size (Some d)) @ (d @ us)" using 1(1) by (simp add: frame_wire_def)
      then show ?thesis
        using recv_payload_short[OF q(1) q(2)[unfolded d(1)] Cons.prems(3,4) _ disjI2[OF d(2)]] by (simp del: recv_frames.simps)
    qed
  next
    case (2 us)
    then show ?thesis using recv_frame_cut[OF q Cons.prems(3,4)] by (simp del: recv_frames.simps)
  qed
qed simp

section \<open>Properties\<close>

definition conn0 :: endpoint where
  "conn0 = \<lparr>inbox = [], outbox = [], wroom = 4096, eof = False\<rparr>"

text \<open>C13: what is sent is what arrives. A message of any frames, written to a connection that takes it,
  puts a byte string on the wire from which \<open>cmq_pkt_recv_msg\<close> rebuilds the frames in order, whatever
  follows it in the stream and whatever the size hint says; a frame with an empty payload arrives as a
  zero frame. The receive returns 0, consumes exactly the message and touches no other frame.\<close>

theorem pkt_roundtrip:
  assumes "frame_queue base n hs l xs" "\<forall>x\<in>set xs. wire_item x" "length xs < 2 ^ 31 - 1"
    "24 + (\<Sum>x\<leftarrow>xs. length (frame_wire x)) \<le> wroom e"
    "heap_ok hr" "4 * length xs + 2 < avail hr"
  shows "\<exists>bs e'. cmq_pkt_send_msg hs e l = Some (Ret (0, e')) \<and> outbox e' = outbox e @ bs
    \<and> (\<forall>rest d. \<exists>l' h'. cmq_pkt_recv_msg mem stk sz0 hr (d\<lparr>inbox := bs @ rest\<rparr>) = Ret (0, Some l', h', d\<lparr>inbox := rest\<rparr>)
        \<and> frame_queue (frames hr) 0 h' l' (map arrives_as xs))"
proof -
  let ?bs = "wire (fl_count l) (fl_max_size l) xs"
  have "length ?bs \<le> wroom e" using assms(4) by (simp add: wire_def length_concat o_def)
  then obtain e' where e': "cmq_pkt_send_msg hs e l = Some (Ret (0, e'))" "outbox e' = outbox e @ ?bs"
    "unat (fl_count l) = length xs" using cmq_pkt_send_msg_ok[OF assms(1,2)] by auto
  have "\<exists>l' h'. cmq_pkt_recv_msg mem stk sz0 hr (d\<lparr>inbox := ?bs @ rest\<rparr>) = Ret (0, Some l', h', d\<lparr>inbox := rest\<rparr>)
        \<and> frame_queue (frames hr) 0 h' l' (map arrives_as xs)" for rest d
    using cmq_pkt_recv_msg_ok[OF assms(5) _ _ e'(3) _ assms(2), of 0 "d\<lparr>inbox := ?bs @ rest\<rparr>"] assms(3,6) by simp
  then show ?thesis using e' by blast
qed

definition list1 :: CMQFRAMELIST where
  "list1 = \<lparr>fl_head = 1, fl_tail = 1, fl_count = 1, fl_max_size = 2\<rparr>"

definition heap1 :: heap where
  "heap1 = \<lparr>frames = [1 \<mapsto> \<lparr>fr_size = 2, fr_payload = Some [8, 9], fr_next = 0\<rparr>], brk = 1, avail = 0\<rparr>"

lemma list1_queue: "frame_queue Map.empty 0 heap1 list1 [Some [8, 9]]"
  by (auto simp: frame_queue_def heap1_def list1_def heap_ok_def fl_ok_def content_def item_size_def restrict_map_def
      intro!: exI[of _ "[1]"])

theorem pkt_roundtrip_witness:
  "\<exists>bs e'. cmq_pkt_send_msg heap1 conn0 list1 = Some (Ret (0, e')) \<and> outbox e' = outbox conn0 @ bs
    \<and> (\<forall>rest d. \<exists>l' h'. cmq_pkt_recv_msg (\<lambda>_. 0) [] 0 heap0 (d\<lparr>inbox := bs @ rest\<rparr>) = Ret (0, Some l', h', d\<lparr>inbox := rest\<rparr>)
        \<and> frame_queue (frames heap0) 0 h' l' (map arrives_as [Some [8, 9]]))"
  by (rule pkt_roundtrip[OF list1_queue])
    (simp_all add: wire_item_def MAX_RW_COUNT_def conn0_def heap0_def heap_ok_def frame_wire_def)

text \<open>C20: a message cut short by the peer closing the connection is reported. When only a proper prefix
  of a message ever arrives, \<open>cmq_pkt_recv_msg\<close> returns -1 without a list, and every frame it had
  built is freed again.\<close>

theorem recv_truncated_detected:
  assumes "eof e" "inbox e @ suf = wire c m xs" "suf \<noteq> []" "unat c = length xs" "length xs < 2 ^ 31 - 1"
    "\<forall>x\<in>set xs. frame_item x" "heap_ok h" "4 * length xs + 2 < avail h"
  shows "\<exists>h' e'. cmq_pkt_recv_msg mem stk sz0 h e = Ret (- 1, None, h', e') \<and> frames h' = frames h"
proof (cases "length (inbox e) < 24")
  case True
  obtain r buf' e' where "recv_into e stk 24 = (int r, buf', e')" "r < 24"
    using recv_into_short[OF disjI1[OF True] assms(1)] .
  moreover have "lt_ulong (int r) 24" using lt_ulong_nat[of r 24] calculation(2) by simp
  ultimately show ?thesis by (simp add: cmq_pkt_recv_msg_def)
next
  case False
  let ?hdr = "word_wire CMQ_PKT_VERSION @ word_wire c @ word_wire m"
  have "take 24 (inbox e) @ drop 24 (inbox e) @ suf = ?hdr @ concat (map frame_wire xs)"
    using assms(2) by (simp add: wire_def flip: append_assoc)
  moreover have "length (take 24 (inbox e)) = length ?hdr" using False by simp
  ultimately have t: "take 24 (inbox e) = ?hdr" "drop 24 (inbox e) @ suf = concat (map frame_wire xs)"
    using append_eq_append_conv[of "take 24 (inbox e)" ?hdr "drop 24 (inbox e) @ suf" "concat (map frame_wire xs)"] by blast+
  have inb: "inbox e = word_wire CMQ_PKT_VERSION @ word_wire c @ word_wire m @ drop 24 (inbox e)"
    using t(1) append_take_drop_id[of 24 "inbox e"] by simp
  have r: "2 * (2 * length xs + 1) < avail h" "2 * length xs + 1 < 2 ^ 32" using assms(5,8) by simp_all
  obtain l h1 where l: "cmq_frame_list_create h = (0, Some l, h1)" "frame_queue (frames h) (2 * length xs + 1) h1 l []"
    using list_create_queue[OF assms(7) r] .
  obtain h2 where h2: "cmq_pkt_recv_msg mem stk sz0 h e
      = recv_frames mem (nat (sint c)) h2 (e\<lparr>inbox := drop 24 (inbox e)\<rparr>) l sz0 (ucast m) (hint_buf mem m)"
    "frame_queue (frames h) (2 * length xs) h2 l []"
    using recv_header[OF inb l(2,1), of mem stk sz0] by auto
  have "nat (sint c) = length xs" using sint_count[OF assms(4)] assms(5) by simp
  then show ?thesis
    using recv_frames_cut[OF h2(2) assms(6) buf_ok_hint, of "e\<lparr>inbox := drop 24 (inbox e)\<rparr>" suf] h2(1) assms(1,3) t(2) by simp
qed

theorem recv_truncated_detected_witness:
  "\<exists>h' e'. cmq_pkt_recv_msg (\<lambda>_. 0) [] 0 heap0 \<lparr>inbox = word_wire 1 @ word_wire 1 @ word_wire 2 @ word_wire 2 @ [7],
      outbox = [], wroom = 0, eof = True\<rparr> = Ret (- 1, None, h', e') \<and> frames h' = frames heap0"
  by (rule recv_truncated_detected[where suf = "[8]" and c = 1 and m = 2 and xs = "[Some [7, 8]]"])
    (simp_all add: wire_def frame_wire_def item_size_def CMQ_PKT_VERSION_def frame_item_def heap0_def heap_ok_def)

lemma inbox_set: "inbox (e\<lparr>inbox := x\<rparr>) = x"
  by simp

text \<open>C31: a receive timeout is not reported when it strikes at the start of a payload. The result of
  \<open>recv\<close> is compared as an unsigned number, which -1 never falls below. When the header, any frames before
  the last one and the size of the last frame have arrived, and not one byte of its payload has by the
  time the timeout expires, \<open>cmq_pkt_recv_msg\<close> returns 0 and a list that ends in a frame of the announced
  size which was never received; for a message of one frame it is what the freshly allocated buffer
  contained. (A payload of which some bytes have arrived is reported.)\<close>

theorem recv_timeout_delivers_stale:
  assumes "\<not> eof e" "unat c = Suc (length xs)" "Suc (length xs) < 2 ^ 30" "\<forall>x\<in>set xs. wire_item x" "s \<noteq> 0"
    "inbox e = wire c m xs @ word_wire s" "heap_ok h" "4 * length xs + 6 < avail h"
  shows "\<exists>l' h' d. cmq_pkt_recv_msg mem stk sz0 h e = Ret (0, Some l', h', e\<lparr>inbox := []\<rparr>)
    \<and> frame_queue (frames h) 0 h' l' (map arrives_as xs @ [Some d]) \<and> length d = unat s
    \<and> (xs = [] \<longrightarrow> d = map mem [0..<unat s])"
proof -
  have r: "2 * (2 * length xs + 3) < avail h" "2 * length xs + 3 < 2 ^ 32" using assms(3,8) by simp_all
  obtain l h1 where l: "cmq_frame_list_create h = (0, Some l, h1)" "frame_queue (frames h) (2 * length xs + 3) h1 l []"
    using list_create_queue[OF assms(7) r] .
  have inb: "inbox e = word_wire CMQ_PKT_VERSION @ word_wire c @ word_wire m @ (concat (map frame_wire xs) @ word_wire s)"
    using assms(6) by (simp add: wire_def)
  let ?e = "e\<lparr>inbox := concat (map frame_wire xs) @ word_wire s\<rparr>"
  obtain h2 where h2: "cmq_pkt_recv_msg mem stk sz0 h e = recv_frames mem (nat (sint c)) h2 ?e l sz0 (ucast m) (hint_buf mem m)"
    "frame_queue (frames h) (2 * length xs + Suc (Suc 0)) h2 l []"
    using recv_header[OF inb l(2,1), of mem stk sz0] by (auto simp: numeral_eq_Suc)
  have n: "nat (sint c) = length xs + 1" using sint_count[OF assms(2)] assms(3) by simp
  show ?thesis
  proof (cases "xs = []")
    case True
    then have q: "frame_queue (frames h) (Suc (Suc 0)) h2 l []" using h2(2) by simp
    show ?thesis
      using recv_stale[where m = m and mem = mem and sz = sz0 and e = ?e, OF q buf_ok_hint[of m mem] _ _ assms(5)]
        h2(1) n assms(1) True by auto
  next
    case False
    obtain l' h' sz' mx' payload' where p: "\<forall>k. recv_frames mem (length xs + k) h2 ?e l sz0 (ucast m) (hint_buf mem m)
        = recv_frames mem k h' (?e\<lparr>inbox := word_wire s\<rparr>) l' sz' mx' payload'"
      "frame_queue (frames h) (Suc (Suc 0)) h' l' ([] @ map arrives_as xs)" "buf_ok mx' payload'"
      using recv_frames_prefix[OF h2(2) assms(4) buf_ok_hint[of m mem], of ?e "word_wire s" mem sz0, unfolded inbox_set, OF refl] by blast
    have "cmq_pkt_recv_msg mem stk sz0 h e = recv_frames mem 1 h' (?e\<lparr>inbox := word_wire s\<rparr>) l' sz' mx' payload'"
      using p(1) h2(1) n by metis
    then show ?thesis
      using recv_stale[OF p(2,3), of "?e\<lparr>inbox := word_wire s\<rparr>" s mem sz' 0] assms(1,5) False by auto
  qed
qed

theorem recv_timeout_delivers_stale_witness:
  "\<exists>l' h'. cmq_pkt_recv_msg (\<lambda>i. 222) [] 0 heap0 (conn0\<lparr>inbox := wire 1 3 [] @ word_wire 3\<rparr>)
      = Ret (0, Some l', h', conn0\<lparr>inbox := []\<rparr>)
    \<and> frame_queue (frames heap0) 0 h' l' [Some [222, 222, 222]]"
proof -
  have "map (\<lambda>i. 222) [0..<unat (3 :: u32)] = [222, 222, 222 :: u8]" by (simp add: upt_rec)
  then show ?thesis
    using recv_timeout_delivers_stale[of "conn0\<lparr>inbox := wire 1 3 [] @ word_wire 3\<rparr>" 1 "[]" 3 3 heap0 "\<lambda>i. 222" "[]" 0]
    by (auto simp: conn0_def heap0_def heap_ok_def)
qed

text \<open>C32: a failed write is not reported either. On a connection where every \<open>write\<close> fails with -1, for
  instance because the peer has reset it, \<open>cmq_pkt_send_msg\<close> returns 0 for a message of any frames
  although not one byte was written.\<close>

theorem send_error_unreported:
  assumes "frame_queue base n h l xs" "\<forall>x\<in>set xs. frame_item x" "wroom e = 0"
  shows "cmq_pkt_send_msg h e l = Some (Ret (0, e))"
proof -
  obtain ps where ps: "fl_ok h l ps" "map (content h) ps = map (\<lambda>x. Some (item_size x, x)) xs"
    using assms(1) by (auto simp: frame_queue_def)
  have w: "sock_write e bs = (- 1, e)" if "bs \<noteq> []" for bs using that assms(3) by (simp add: sock_write_def)
  have wd: "sock_write e d = (- 1, e)" if "item_size (Some d) \<noteq> 0" for d
    using w[of d] that by (cases d) (auto simp: item_size_def)
  have le: "le64 v \<noteq> []" for v by (metis length_le64 list.size(3) zero_neq_numeral)
  have "send_frames h e p = Some (Ret (0, e))" if "chain h p ps" for p
    using that ps(2) assms(2)
  proof (induction ps arbitrary: p xs)
    case Nil
    then show ?case by (simp add: send_frames.simps)
  next
    case (Cons q ps)
    obtain x ys where xs: "xs = x # ys" "content h q = Some (item_size x, x)"
      "map (content h) ps = map (\<lambda>x. Some (item_size x, x)) ys" using Cons.prems(2) by (auto simp: Cons_eq_map_conv)
    obtain f where f: "frames h q = Some f" "p = q" "q \<noteq> 0" "chain h (fr_next f) ps" "fr_size f = item_size x" "fr_payload f = x"
      using Cons.prems(1) xs(2) by (auto simp: content_def split: option.splits)
    have u: "unat (item_size x) = (case x of None \<Rightarrow> 0 | Some d \<Rightarrow> length d)" using unat_item_size Cons.prems(3) xs(1) by simp
    have "send_frames h e (fr_next f) = Some (Ret (0, e))" using Cons.IH[OF f(4) xs(3)] Cons.prems(3) xs(1) by simp
    moreover have "send_frames h e p = send_frames h e (fr_next f)"
      using f u w[OF le] wd lt_ulong_error by (cases x) (auto simp: send_frames.simps[of h e q] unat_eq_0)
    ultimately show ?case by simp
  qed
  then show ?thesis using ps(1) w lt_ulong_error le
    by (simp add: cmq_pkt_send_msg_def header_bytes_def fl_ok_def)
qed

theorem send_error_unreported_witness:
  "cmq_pkt_send_msg heap1 (conn0\<lparr>wroom := 0\<rparr>) list1 = Some (Ret (0, conn0\<lparr>wroom := 0\<rparr>))"
  by (rule send_error_unreported[OF list1_queue]) (simp_all add: frame_item_def)

lemma send_frames_total:
  assumes "chain h p ps" "map (content h) ps = map (\<lambda>x. Some (item_size x, x)) xs" "\<forall>x\<in>set xs. frame_item x"
  shows "\<exists>err e'. send_frames h e p = Some (Ret (err, e')) \<and> (err = 0 \<or> err = - 1)"
  using assms
proof (induction ps arbitrary: p xs e)
  case Nil
  then show ?case by (simp add: send_frames.simps)
next
  case (Cons q ps)
  obtain x ys where xs: "xs = x # ys" "content h q = Some (item_size x, x)"
    "map (content h) ps = map (\<lambda>x. Some (item_size x, x)) ys" using Cons.prems(2) by (auto simp: Cons_eq_map_conv)
  obtain f where f: "frames h q = Some f" "p = q" "q \<noteq> 0" "chain h (fr_next f) ps" "fr_size f = item_size x" "fr_payload f = x"
    using Cons.prems(1) xs(2) by (auto simp: content_def split: option.splits)
  have u: "unat (item_size x) = (case x of None \<Rightarrow> 0 | Some d \<Rightarrow> length d)" using unat_item_size Cons.prems(3) xs(1) by simp
  have IH: "\<exists>err e'. send_frames h e2 (fr_next f) = Some (Ret (err, e')) \<and> (err = 0 \<or> err = - 1)" for e2
    using Cons.IH[OF f(4) xs(3)] Cons.prems(3) xs(1) by simp
  show ?case
    using f u IH by (cases x) (auto simp: send_frames.simps[of h e q] unat_eq_0 split: prod.split)
qed

text \<open>C39: sending always ends. For every message that the frame functions can build and every state of
  the connection, also one that accepts only part of the bytes or none, the walk along the frames
  ends and \<open>cmq_pkt_send_msg\<close> returns 0 or -1 without a fault.\<close>

theorem send_terminates:
  assumes "frame_queue base n h l xs" "\<forall>x\<in>set xs. frame_item x"
  shows "\<exists>err e'. cmq_pkt_send_msg h e l = Some (Ret (err, e')) \<and> (err = 0 \<or> err = - 1)"
proof -
  obtain ps where "chain h (fl_head l) ps" "map (content h) ps = map (\<lambda>x. Some (item_size x, x)) xs"
    using assms(1) by (auto simp: frame_queue_def fl_ok_def)
  from send_frames_total[OF this assms(2)] show ?thesis by (simp add: cmq_pkt_send_msg_def split: prod.split)
qed

theorem send_terminates_witness:
  "\<exists>err e'. cmq_pkt_send_msg heap1 (conn0\<lparr>wroom := 30\<rparr>) list1 = Some (Ret (err, e')) \<and> (err = 0 \<or> err = - 1)"
  by (rule send_terminates[OF list1_queue]) (simp add: frame_item_def)

end
