(* ===== verification/Cmq_Server.thy ===== *)
theory Cmq_Server
  imports Cap_Init
begin

text \<open>
  The request handlers of the CMQ server (\<^verbatim>\<open>src/src/net/cmq/cmq-backend.cpp\<close>) and their dispatch
  (\<^verbatim>\<open>server.cpp\<close>). A message is the list of the contents of its frames, which is what the frame
  list theory shows a frame list to be: popping takes the head, and a zero frame is \<open>None\<close>. A
  handler maps the process and the request to the reply, if it sends one, and the process.
  Allocation and the sending of the reply succeed. A fault is an access outside a buffer, a use of
  a null pointer or a second release of the same object.
\<close>

type_synonym msg = "bytes option list"

section \<open>Replies\<close>

text \<open>The text of a number is read after it was destroyed.\<close>

definition number_reply :: "(string \<Rightarrow> string) \<Rightarrow> u64 \<Rightarrow> msg" where
  "number_reply dead n = [Some (c_bytes (dead (to_string n)))]"

definition SendErr :: "'n process \<Rightarrow> u64 \<Rightarrow> msg option" where
  "SendErr p i_err = Some (number_reply (pr_dead p) i_err)"

definition SendNull :: "msg option" where
  "SendNull = Some [None]"

section \<open>What the handlers share\<close>

text \<open>The name in the first frame, as a C string; a missing payload is a null pointer.\<close>

definition frame_string :: "bytes option \<Rightarrow> string run" where
  "frame_string f = (case f of None \<Rightarrow> Fault | Some payload \<Rightarrow> c_string payload)"

text \<open>
  Some error paths hand the frame of the name to \<open>cmq_frame_list_destroy\<close>. Read as a list, the
  frame has its \<open>next\<close> pointer in the place of the count and its size in the place of the head: with
  another frame behind it in the request the destroy follows the size as a pointer.
\<close>

definition destroy_frame_as_list :: "msg \<Rightarrow> 'a run \<Rightarrow> 'a run" where
  "destroy_frame_as_list rest r = (if rest = [] then r else Fault)"

text \<open>Whether a request that carries no capability meets a WooF or a namespace that has one.\<close>

definition cap_present :: "'n process \<Rightarrow> string \<Rightarrow> bool run" where
  "cap_present p local_name =
     run_bind (WooFOpen p (local_name @ ''.CAP'')) (\<lambda>wfc.
     if wfc \<noteq> None then Ret True
     else run_bind (WooFOpen p ''CSPOT.CAP'') (\<lambda>wfc. Ret (wfc \<noteq> None)))"

definition bytes_of :: "string \<Rightarrow> bytes" where
  "bytes_of s = map byte_of_char s"

text \<open>Text of \<^verbatim>\<open>snprintf\<close> into the 2048 bytes of \<open>payload\<close>.\<close>

definition sig_text :: "string \<Rightarrow> bytes" where
  "sig_text s = bytes_of (take 2047 s)"

section \<open>Requests without a capability\<close>

definition WooFProcessGetElSize :: "'n process \<Rightarrow> msg \<Rightarrow> bool \<Rightarrow> (msg option \<times> 'n process) run" where
  "WooFProcessGetElSize p fl no_cap = (case fl of
     [] \<Rightarrow> Ret (SendErr p (- 1), p)
   | None # _ \<Rightarrow> Ret (SendErr p (- 1), p)
   | Some payload # rest \<Rightarrow>
       run_bind (c_string payload) (\<lambda>wname.
       run_bind (WooFIsCAPName (pr_rs p) wname) (\<lambda>err.
       if err = 1 \<or> err < 0 then destroy_frame_as_list rest (Ret (SendErr p (- 1), p))
       else run_bind (WooFLocalName (pr_rs p) wname 1024) (\<lambda>(err, local_name).
       run_bind (if no_cap then cap_present p local_name else Ret False) (\<lambda>refused.
       if refused then destroy_frame_as_list rest (Ret (SendErr p (- 1), p))
       else run_bind (WooFOpen p (if err < 0 then local_name else wname)) (\<lambda>opened.
         let el_size = (case opened of None \<Rightarrow> - 1 | Some (path, wo) \<Rightarrow> wfs_element_size (wf_shared wo))
         in Ret (Some (number_reply (pr_dead p) el_size), p)))))))"

definition WooFProcessGetEarliestSeqno ::
  "'n transport \<Rightarrow> 'n process \<Rightarrow> msg \<Rightarrow> bool \<Rightarrow> (msg option \<times> 'n process) run" where
  "WooFProcessGetEarliestSeqno tr p fl no_cap = (case fl of
     [] \<Rightarrow> Ret (SendErr p (- 1), p)
   | None # _ \<Rightarrow> Ret (SendErr p (- 1), p)
   | Some payload # rest \<Rightarrow>
       run_bind (c_string payload) (\<lambda>wname.
       run_bind (WooFIsCAPName (pr_rs p) wname) (\<lambda>err.
       if err = 1 \<or> err < 0 then destroy_frame_as_list rest (Ret (SendErr p (- 1), p))
       else run_bind (WooFLocalName (pr_rs p) wname 1024) (\<lambda>(err, local_name).
       run_bind (if no_cap then cap_present p local_name else Ret False) (\<lambda>refused.
       if refused then destroy_frame_as_list rest (Ret (SendErr p (- 1), p))
       else run_bind (WooFGetEarliestSeqno tr p local_name) (\<lambda>(earliest_seqno, p1).
         if earliest_seqno = - 1 then Ret (SendErr p (- 1), p1)
         else Ret (Some (number_reply (pr_dead p) earliest_seqno), p1)))))))"

text \<open>The handler frame of a put: \<^verbatim>\<open>NULL\<close> at its start stands for no handler.\<close>

definition handler_frame :: "bytes option \<Rightarrow> string option run" where
  "handler_frame f = (case f of
     None \<Rightarrow> Fault
   | Some payload \<Rightarrow> if take 4 payload = bytes_of ''NULL'' then Ret None
       else run_bind (c_string payload) (\<lambda>h. Ret (Some h)))"

definition frame_data :: "bytes option \<Rightarrow> bytes" where
  "frame_data f = (case f of None \<Rightarrow> [] | Some d \<Rightarrow> d)"

definition WooFProcessPut :: "'n transport \<Rightarrow> 'n process \<Rightarrow> msg \<Rightarrow> bool \<Rightarrow> (msg option \<times> 'n process) run" where
  "WooFProcessPut tr p fl no_cap = (case fl of
     [] \<Rightarrow> Ret (SendErr p (- 1), p)
   | None # _ \<Rightarrow> Ret (SendErr p (- 1), p)
   | Some payload # fl1 \<Rightarrow>
       run_bind (c_string payload) (\<lambda>wname.
       run_bind (WooFIsCAPName (pr_rs p) wname) (\<lambda>err.
       if err = 1 \<or> err < 0 then Ret (SendErr p (- 1), p)
       else case fl1 of
         [] \<Rightarrow> Ret (SendErr p (- 1), p)
       | hframe # fl2 \<Rightarrow>
           run_bind (handler_frame hframe) (\<lambda>hand_name.
           case fl2 of
             [] \<Rightarrow> Ret (SendErr p (- 1), p)
           | elem # _ \<Rightarrow>
               run_bind (WooFLocalName (pr_rs p) wname 1024) (\<lambda>(err, local_name).
               run_bind (if no_cap then cap_present p local_name else Ret False) (\<lambda>refused.
               if refused then Ret (SendErr p (- 1), p)
               else run_bind (WooFPutWithCause tr p local_name hand_name (frame_data elem) 0 0) (\<lambda>(seq_no, p1).
                 Ret (Some (number_reply (pr_dead p) seq_no), p1))))))))"

definition WooFProcessGet :: "'n process \<Rightarrow> msg \<Rightarrow> bool \<Rightarrow> (msg option \<times> 'n process) run" where
  "WooFProcessGet p fl no_cap = (case fl of
     [] \<Rightarrow> Ret (SendNull, p)
   | None # _ \<Rightarrow> Ret (SendNull, p)
   | Some payload # fl1 \<Rightarrow>
       run_bind (c_string payload) (\<lambda>wname.
       run_bind (WooFIsCAPName (pr_rs p) wname) (\<lambda>err.
       if err = 1 \<or> err < 0 then Ret (SendNull, p)
       else case fl1 of
         [] \<Rightarrow> Ret (SendNull, p)
       | sframe # _ \<Rightarrow>
           run_bind (frame_string sframe) (\<lambda>s_seqno.
           run_bind (WooFLocalName (pr_rs p) wname 1024) (\<lambda>(err, local_name).
           run_bind (if no_cap then cap_present p local_name else Ret False) (\<lambda>refused.
           if refused then Ret (SendNull, p)
           else run_bind (WooFOpen p (if err < 0 then wname else local_name)) (\<lambda>opened. case opened of
             None \<Rightarrow> Ret (Some [None], p)
           | Some (path, wo) \<Rightarrow>
               if (ucast (wfs_element_size (wf_shared wo)) :: u32) = 0 then Ret (Some [None], p)
               else run_bind (WooFReadWithCause (wf_shared wo) (strtoul s_seqno)) (\<lambda>(err, e, w).
                 let p1 = put_shared p path wo w; n = unat (ucast (wfs_element_size (wf_shared wo)) :: u32) in
                 if err < 0 then Ret (Some [None], p1)
                 else if n < length (the e) then Fault
                 else Ret (Some [Some (the e)], p1)))))))))"

text \<open>
  The loop of the range request writes element \<open>i\<close> at \<open>i * element_size\<close> into a buffer of \<open>r_size\<close>
  bytes, for all \<open>count\<close> elements.
\<close>

fun serve_range :: "WOOF_SHARED \<Rightarrow> nat \<Rightarrow> nat \<Rightarrow> nat \<Rightarrow> u64 \<Rightarrow> (bytes list \<times> WOOF_SHARED) run" where
  "serve_range w r_size 0 i s = Ret ([], w)"
| "serve_range w r_size (Suc k) i s =
     run_bind (WooFReadWithCause w (s + of_nat i)) (\<lambda>(err, e, w').
     if err < 0 then Ret ([], w')
     else if r_size < Suc i * unat (wfs_element_size w) then Fault
     else run_bind (serve_range w' r_size k (Suc i) s) (\<lambda>(es, w''). Ret (the e # es, w'')))"

definition CMQ_MAX_TRANSFER :: u64 where "CMQ_MAX_TRANSFER = 64 * 1024 * 1024"

definition range_size :: "u64 \<Rightarrow> u64 \<Rightarrow> u32" where
  "range_size count element_size =
     (if CMQ_MAX_TRANSFER < count * element_size then ucast CMQ_MAX_TRANSFER else ucast (element_size * count))"

definition WooFProcessGetRange :: "'n process \<Rightarrow> msg \<Rightarrow> bool \<Rightarrow> (msg option \<times> 'n process) run" where
  "WooFProcessGetRange p fl no_cap = (case fl of
     [] \<Rightarrow> Ret (SendNull, p)
   | None # _ \<Rightarrow> Ret (SendNull, p)
   | Some payload # fl1 \<Rightarrow>
       run_bind (c_string payload) (\<lambda>wname.
       run_bind (WooFIsCAPName (pr_rs p) wname) (\<lambda>err.
       if err = 1 \<or> err < 0 then Ret (SendNull, p)
       else case fl1 of
         [] \<Rightarrow> Ret (SendNull, p)
       | [_] \<Rightarrow> Ret (SendNull, p)
       | sframe # cframe # _ \<Rightarrow>
           run_bind (frame_string sframe) (\<lambda>s_seqno.
           run_bind (frame_string cframe) (\<lambda>s_count.
           run_bind (WooFLocalName (pr_rs p) wname 1024) (\<lambda>(err, local_name).
           run_bind (if no_cap then cap_present p local_name else Ret False) (\<lambda>refused.
           if refused then Ret (SendNull, p)
           else run_bind (WooFOpen p (if err < 0 then wname else local_name)) (\<lambda>opened. case opened of
             None \<Rightarrow> Ret (Some [None], p)
           | Some (path, wo) \<Rightarrow>
               let count = strtoul s_count; r_size = unat (range_size count (wfs_element_size (wf_shared wo))) in
               if r_size = 0 then Ret (Some [None], p)
               else run_bind (serve_range (wf_shared wo) r_size (unat count) 0 (strtoul s_seqno)) (\<lambda>(es, w).
                 let p1 = put_shared p path wo w; data = concat es in
                 if es = [] then Ret (Some [None], p1)
                 else if length es < unat count then Ret (Some [Some data], p1)
                 else Ret (Some [Some (data @ replicate (r_size - length data) 0)], p1))))))))))"

definition WooFProcessGetLatestSeqno :: "'n process \<Rightarrow> msg \<Rightarrow> bool \<Rightarrow> (msg option \<times> 'n process) run" where
  "WooFProcessGetLatestSeqno p fl no_cap = (case fl of
     [] \<Rightarrow> Ret (SendErr p (- 1), p)
   | wframe # _ \<Rightarrow>
       run_bind (frame_string wframe) (\<lambda>wname.
       run_bind (WooFLocalName (pr_rs p) wname 1024) (\<lambda>(err, local_name).
       run_bind (if no_cap then cap_present p local_name else Ret False) (\<lambda>refused.
       if refused then Ret (SendErr p (- 1), p)
       else run_bind (WooFOpen p (if err < 0 then wname else local_name)) (\<lambda>opened.
         let latest_seq_no = (case opened of None \<Rightarrow> - 1 | Some (path, wo) \<Rightarrow> WooFLatestSeqno (wf_shared wo))
         in Ret (Some (number_reply (pr_dead p) latest_seq_no), p))))))"

text \<open>The tail request multiplies size and count in 32 bits for the buffer it reads into.\<close>

definition WooFProcessGetTail :: "'n process \<Rightarrow> msg \<Rightarrow> bool \<Rightarrow> (msg option \<times> 'n process) run" where
  "WooFProcessGetTail p fl no_cap = (case fl of
     [] \<Rightarrow> Ret (SendNull, p)
   | [_] \<Rightarrow> Ret (SendNull, p)
   | wframe # f # _ \<Rightarrow>
       run_bind (frame_string f) (\<lambda>s_count.
       run_bind (frame_string wframe) (\<lambda>wname.
       run_bind (WooFLocalName (pr_rs p) wname 1024) (\<lambda>(err, local_name).
       run_bind (if no_cap then cap_present p local_name else Ret False) (\<lambda>refused.
       if refused then Ret (SendNull, p)
       else run_bind (WooFOpen p (if err < 0 then wname else local_name)) (\<lambda>opened. case opened of
         None \<Rightarrow> Ret (Some [Some (c_bytes (pr_dead p (decimal 0))), None], p)
       | Some (path, wo) \<Rightarrow>
           let el_count = (ucast (strtoul s_count) :: u32); el_size = (ucast (wfs_element_size (wf_shared wo)) :: u32);
               space = unat (el_size * el_count) in
           run_bind (WooFReadTail (wf_shared wo) el_count) (\<lambda>(r, es, w).
             let p1 = put_shared p path wo w; data = concat es; el_read = (of_int r :: u32) in
             if space < length data then Fault
             else if el_read = 0 then Ret (Some [Some (c_bytes (pr_dead p (decimal 0))), None], p1)
             else Ret (Some [Some (c_bytes (pr_dead p (decimal (unat el_read)))), Some (data @ replicate (space - length data) 0)], p1))))))))"

section \<open>Authorization\<close>

text \<open>
  The principal capability is the latest element of the CAP WooF, read into a zeroed \<open>WCAP\<close> of 16
  bytes and attenuated to the permission the request needs. The result is the check value to sign
  with, or \<open>None\<close> when the read or the attenuation fails.
\<close>

definition attenuated_key :: "hmac \<Rightarrow> 'n process \<Rightarrow> string \<times> WOOF \<Rightarrow> u32 \<Rightarrow> (u64 option \<times> 'n process) run" where
  "attenuated_key hmac p opened perm = (case opened of (path, wo) \<Rightarrow>
     run_bind (WooFReadWithCause (wf_shared wo) (WooFLatestSeqno (wf_shared wo))) (\<lambda>(err, e, w).
       let p1 = put_shared p path wo w in
       if err < 0 then Ret (None, p1)
       else if 16 < length (the e) then Fault
       else let principal = of_cap_bytes (the e @ replicate (16 - length (the e)) 0) in
         Ret (map_option check (WooFCapAttenuate hmac principal perm), p1)))"

text \<open>A key that is absent leaves its signature at 0.\<close>

definition signature :: "hmac \<Rightarrow> bytes \<Rightarrow> u64 option \<Rightarrow> u64" where
  "signature hmac payload key = (case key of None \<Rightarrow> 0 | Some k \<Rightarrow> WooFCapSign hmac payload k)"

datatype verdict = Unprotected | Granted | Denied

text \<open>
  The part of every request with a capability between finding the local name and the reply. The
  text to sign is made only once the keys are there. After the WooF's own CAP has been dropped, a
  failure on the namespace's CAP drops it again.
\<close>

definition authorize ::
  "hmac \<Rightarrow> 'n process \<Rightarrow> bytes \<Rightarrow> string \<Rightarrow> u32 \<Rightarrow> bytes run \<Rightarrow> (verdict \<times> 'n process) run" where
  "authorize hmac p cap local_name perm payload =
     run_bind (WooFOpen p ''CSPOT.CAP'') (\<lambda>wf_ns.
     run_bind (WooFOpen p (local_name @ ''.CAP'')) (\<lambda>wf_cap.
     if wf_cap = None \<and> wf_ns = None then Ret (Unprotected, p)
     else run_bind (case wf_cap of None \<Rightarrow> Ret (None, p) | Some opened \<Rightarrow> attenuated_key hmac p opened perm) (\<lambda>(key_p, p1).
       if wf_cap \<noteq> None \<and> key_p = None then Ret (Denied, p1)
       else run_bind (case wf_ns of None \<Rightarrow> Ret (None, p1) | Some opened \<Rightarrow> attenuated_key hmac p1 opened perm) (\<lambda>(key_ns, p2).
         if wf_ns \<noteq> None \<and> key_ns = None then (if wf_cap \<noteq> None then Fault else Ret (Denied, p2))
         else run_bind payload (\<lambda>payload.
           if length cap < 16 then Fault
           else let c = check (of_cap_bytes cap) in
             Ret (if c = signature hmac payload key_p \<or> c = signature hmac payload key_ns then Granted else Denied, p2))))))"

section \<open>Requests with a capability\<close>

text \<open>The words of a request, separated by blanks, as they are signed.\<close>

fun append_words :: "string \<Rightarrow> bytes list \<Rightarrow> string run" where
  "append_words s [] = Ret s"
| "append_words s (f # fs) = run_bind (c_string f) (\<lambda>w. append_words (s @ '' '' @ w) fs)"

definition words_text :: "string \<Rightarrow> bytes list \<Rightarrow> bytes run" where
  "words_text wname frames = run_bind (append_words wname frames) (\<lambda>s. Ret (sig_text s))"

definition WooFProcessGetElSizewithCAP :: "hmac \<Rightarrow> 'n process \<Rightarrow> msg \<Rightarrow> (msg option \<times> 'n process) run" where
  "WooFProcessGetElSizewithCAP hmac p fl = (case fl of
     Some cap # Some wpayload # fl1 \<Rightarrow>
       run_bind (c_string wpayload) (\<lambda>wname.
       run_bind (WooFIsCAPName (pr_rs p) wname) (\<lambda>err.
       if err = 1 \<or> err < 0 then Ret (SendErr p (- 1), p)
       else run_bind (WooFLocalName (pr_rs p) wname 1024) (\<lambda>(err, local_name).
       if err < 0 then Ret (SendErr p (- 1), p)
       else run_bind (authorize hmac p cap local_name WCAP_READ (Ret (bytes_of wname))) (\<lambda>(v, p1).
         if v = Denied then Ret (SendErr p1 (- 1), p1)
         else WooFProcessGetElSize p1 (Some wpayload # fl1) False))))
   | _ \<Rightarrow> Ret (SendErr p (- 1), p))"

definition WooFProcessGetEarliestSeqnowithCAP ::
  "'n transport \<Rightarrow> hmac \<Rightarrow> 'n process \<Rightarrow> msg \<Rightarrow> (msg option \<times> 'n process) run" where
  "WooFProcessGetEarliestSeqnowithCAP tr hmac p fl = (case fl of
     Some cap # Some wpayload # fl1 \<Rightarrow>
       run_bind (c_string wpayload) (\<lambda>wname.
       run_bind (WooFIsCAPName (pr_rs p) wname) (\<lambda>err.
       if err = 1 \<or> err < 0 then Ret (SendErr p (- 1), p)
       else run_bind (WooFLocalName (pr_rs p) wname 1024) (\<lambda>(err, local_name).
       if err < 0 then Ret (SendErr p (- 1), p)
       else run_bind (authorize hmac p cap local_name WCAP_READ (Ret (bytes_of wname))) (\<lambda>(v, p1).
         if v = Denied then Ret (SendErr p1 (- 1), p1)
         else WooFProcessGetEarliestSeqno tr p1 (Some wpayload # fl1) False))))
   | _ \<Rightarrow> Ret (SendErr p (- 1), p))"

text \<open>A put with a handler needs the right to execute; the name, the handler and the element are signed.\<close>

definition put_perm :: "bytes \<Rightarrow> u32" where
  "put_perm hname = (if take 4 hname = bytes_of ''NULL'' then WCAP_WRITE else WCAP_EXEC)"

definition put_text :: "string \<Rightarrow> bytes \<Rightarrow> bytes \<Rightarrow> bytes run" where
  "put_text wname hname elem = run_bind (c_string hname) (\<lambda>h. Ret (bytes_of wname @ bytes_of h @ elem))"

definition WooFProcessPutwithCAP ::
  "'n transport \<Rightarrow> hmac \<Rightarrow> 'n process \<Rightarrow> msg \<Rightarrow> (msg option \<times> 'n process) run" where
  "WooFProcessPutwithCAP tr hmac p fl = (case fl of
     Some cap # Some wpayload # fl1 \<Rightarrow>
       run_bind (c_string wpayload) (\<lambda>wname.
       run_bind (WooFIsCAPName (pr_rs p) wname) (\<lambda>err.
       if err = 1 \<or> err < 0 then Ret (SendErr p (- 1), p)
       else case fl1 of
         Some hname # eframe # _ \<Rightarrow>
           run_bind (WooFLocalName (pr_rs p) wname 1024) (\<lambda>(err, local_name).
           if err < 0 then Ret (SendErr p (- 1), p)
           else run_bind (authorize hmac p cap local_name (put_perm hname) (put_text wname hname (frame_data eframe))) (\<lambda>(v, p1).
             if v = Denied then Ret (SendErr p1 (- 1), p1)
             else WooFProcessPut tr p1 (Some wpayload # fl1) False))
       | _ \<Rightarrow> Ret (SendErr p (- 1), p)))
   | _ \<Rightarrow> Ret (SendErr p (- 1), p))"

definition WooFProcessGetwithCAP :: "hmac \<Rightarrow> 'n process \<Rightarrow> msg \<Rightarrow> (msg option \<times> 'n process) run" where
  "WooFProcessGetwithCAP hmac p fl = (case fl of
     Some cap # Some wpayload # fl1 \<Rightarrow>
       run_bind (c_string wpayload) (\<lambda>wname.
       run_bind (WooFIsCAPName (pr_rs p) wname) (\<lambda>err.
       if err = 1 \<or> err < 0 then Ret (SendNull, p)
       else case fl1 of
         Some s_seqno # _ \<Rightarrow>
           run_bind (WooFLocalName (pr_rs p) wname 1024) (\<lambda>(err, local_name).
           if err < 0 then Ret (SendNull, p)
           else run_bind (authorize hmac p cap local_name WCAP_READ (words_text wname [s_seqno])) (\<lambda>(v, p1).
             if v = Denied then Ret (SendNull, p1)
             else WooFProcessGet p1 (Some wpayload # fl1) False))
       | _ \<Rightarrow> Ret (SendNull, p)))
   | _ \<Rightarrow> Ret (SendNull, p))"

definition WooFProcessGetRangewithCAP :: "hmac \<Rightarrow> 'n process \<Rightarrow> msg \<Rightarrow> (msg option \<times> 'n process) run" where
  "WooFProcessGetRangewithCAP hmac p fl = (case fl of
     Some cap # Some wpayload # fl1 \<Rightarrow>
       run_bind (c_string wpayload) (\<lambda>wname.
       run_bind (WooFIsCAPName (pr_rs p) wname) (\<lambda>err.
       if err = 1 \<or> err < 0 then Ret (SendNull, p)
       else case fl1 of
         Some s_seqno # Some s_count # _ \<Rightarrow>
           run_bind (WooFLocalName (pr_rs p) wname 1024) (\<lambda>(err, local_name).
           if err < 0 then Ret (SendNull, p)
           else run_bind (authorize hmac p cap local_name WCAP_READ (words_text wname [s_seqno, s_count])) (\<lambda>(v, p1).
             if v = Denied then Ret (SendNull, p1)
             else WooFProcessGetRange p1 (Some wpayload # fl1) False))
       | _ \<Rightarrow> Ret (SendNull, p)))
   | _ \<Rightarrow> Ret (SendNull, p))"

text \<open>
  Creation through a capability. Without any CAP it is refused. The number strings must be numbers
  to their end, else nothing is sent; the reply is the text 1 (without a terminator) whether the
  creation succeeded or not.
\<close>

definition WooFProcessCreatewithCAP ::
  "'n transport \<Rightarrow> string \<Rightarrow> hmac \<Rightarrow> 'n process \<Rightarrow> msg \<Rightarrow> (msg option \<times> 'n process) run" where
  "WooFProcessCreatewithCAP tr fname hmac p fl = (case fl of
     Some cap # Some wpayload # fl1 \<Rightarrow>
       run_bind (c_string wpayload) (\<lambda>wname.
       run_bind (WooFIsCAPName (pr_rs p) wname) (\<lambda>err.
       if err = 1 \<or> err < 0 then Ret (SendErr p (- 1), p)
       else case fl1 of
         Some s_elsize # Some s_hist # _ \<Rightarrow>
           run_bind (WooFLocalName (pr_rs p) wname 1024) (\<lambda>(err, local_name).
           if err < 0 then Ret (SendErr p (- 1), p)
           else run_bind (authorize hmac p cap local_name WCAP_INIT (words_text wname [s_elsize, s_hist])) (\<lambda>(v, p1).
             if v \<noteq> Granted then Ret (SendErr p1 (- 1), p1)
             else run_bind (c_string s_elsize) (\<lambda>elsize.
               if snd (strtol elsize) \<noteq> [] then Ret (None, p1)
               else run_bind (c_string s_hist) (\<lambda>hist.
                 if snd (strtol hist) \<noteq> [] then Ret (None, p1)
                 else run_bind (WooFCreate tr fname p1 wname (ucast (of_int (fst (strtol elsize)) :: u32))
                     (ucast (of_int (fst (strtol hist)) :: u32))) (\<lambda>(err, p2).
                   Ret (Some [Some (bytes_of ''1'')], p2))))))
       | _ \<Rightarrow> Ret (SendErr p (- 1), p)))
   | _ \<Rightarrow> Ret (SendErr p (- 1), p))"

text \<open>The last two requests do not look whether the name is that of a CAP.\<close>

definition WooFProcessGetLatestSeqnowithCAP :: "hmac \<Rightarrow> 'n process \<Rightarrow> msg \<Rightarrow> (msg option \<times> 'n process) run" where
  "WooFProcessGetLatestSeqnowithCAP hmac p fl = (case fl of
     Some cap # Some wpayload # fl1 \<Rightarrow>
       run_bind (c_string wpayload) (\<lambda>wname.
       run_bind (WooFLocalName (pr_rs p) wname 1024) (\<lambda>(err, local_name).
       if err < 0 then Ret (SendErr p (- 1), p)
       else run_bind (authorize hmac p cap local_name WCAP_READ (Ret (bytes_of wname))) (\<lambda>(v, p1).
         if v = Denied then Ret (SendErr p1 (- 1), p1)
         else WooFProcessGetLatestSeqno p1 (Some wpayload # fl1) False)))
   | _ \<Rightarrow> Ret (SendErr p (- 1), p))"

definition WooFProcessGetTailwithCAP :: "hmac \<Rightarrow> 'n process \<Rightarrow> msg \<Rightarrow> (msg option \<times> 'n process) run" where
  "WooFProcessGetTailwithCAP hmac p fl = (case fl of
     Some cap # Some wpayload # fl1 \<Rightarrow>
       run_bind (c_string wpayload) (\<lambda>wname.
       run_bind (WooFLocalName (pr_rs p) wname 1024) (\<lambda>(err, local_name).
       if err < 0 then Ret (SendNull, p)
       else run_bind (authorize hmac p cap local_name WCAP_READ (Ret (bytes_of wname))) (\<lambda>(v, p1).
         if v = Denied then Ret (SendNull, p1)
         else WooFProcessGetTail p1 (Some wpayload # fl1) False)))
   | _ \<Rightarrow> Ret (SendNull, p))"

section \<open>The server thread\<close>

record 'n server =
  sv_tr :: "'n transport"
  sv_hmac :: hmac
  sv_fname :: string

definition dispatch :: "'n server \<Rightarrow> 'n process \<Rightarrow> int \<Rightarrow> msg \<Rightarrow> (msg option \<times> 'n process) run" where
  "dispatch sv p tag fl =
     (if tag = 1 then WooFProcessPut (sv_tr sv) p fl True
      else if tag = 21 then WooFProcessPutwithCAP (sv_tr sv) (sv_hmac sv) p fl
      else if tag = 3 then WooFProcessGet p fl True
      else if tag = 23 then WooFProcessGetwithCAP (sv_hmac sv) p fl
      else if tag = 11 then WooFProcessGetRange p fl True
      else if tag = 32 then WooFProcessGetRangewithCAP (sv_hmac sv) p fl
      else if tag = 2 then WooFProcessGetElSize p fl True
      else if tag = 22 then WooFProcessGetElSizewithCAP (sv_hmac sv) p fl
      else if tag = 12 then WooFProcessGetEarliestSeqno (sv_tr sv) p fl True
      else if tag = 33 then WooFProcessGetEarliestSeqnowithCAP (sv_tr sv) (sv_hmac sv) p fl
      else if tag = 4 then WooFProcessGetTail p fl True
      else if tag = 24 then WooFProcessGetTailwithCAP (sv_hmac sv) p fl
      else if tag = 5 then WooFProcessGetLatestSeqno p fl True
      else if tag = 25 then WooFProcessGetLatestSeqnowithCAP (sv_hmac sv) p fl
      else if tag = 31 then WooFProcessCreatewithCAP (sv_tr sv) (sv_fname sv) (sv_hmac sv) p fl
      else Ret (None, p))"

text \<open>
  The inner loop of \<open>WooFMsgThread\<close> on the messages of one connection, up to the receive that fails:
  the replies, whether the thread goes on to accept again, and the process. A message with no
  frame ends the thread.
\<close>

fun serve_connection :: "'n server \<Rightarrow> 'n process \<Rightarrow> msg list \<Rightarrow> (msg list \<times> bool \<times> 'n process) run" where
  "serve_connection sv p [] = Ret ([], True, p)"
| "serve_connection sv p ([] # ms) = Ret ([], False, p)"
| "serve_connection sv p ((f # fl) # ms) =
     run_bind (frame_string f) (\<lambda>s.
     run_bind (dispatch sv p (fst (strtol s)) fl) (\<lambda>(reply, p1).
     run_bind (serve_connection sv p1 ms) (\<lambda>(replies, on, p2).
       Ret ((case reply of None \<Rightarrow> replies | Some r \<Rightarrow> r # replies), on, p2))))"

text \<open>\<open>WooFMsgThread\<close> on the connections it accepts.\<close>

fun WooFMsgThread :: "'n server \<Rightarrow> 'n process \<Rightarrow> msg list list \<Rightarrow> (msg list list \<times> bool \<times> 'n process) run" where
  "WooFMsgThread sv p [] = Ret ([], True, p)"
| "WooFMsgThread sv p (c # cs) =
     run_bind (serve_connection sv p c) (\<lambda>(replies, on, p1).
     if \<not> on then Ret ([replies], False, p1)
     else run_bind (WooFMsgThread sv p1 cs) (\<lambda>(rs, on, p2). Ret (replies # rs, on, p2)))"

text \<open>
  The threads of \<open>backend::listen\<close>: \<open>n\<close> of them accept the connections one after the other; a
  connection that ends its thread leaves one less. The connections left over are never accepted.
\<close>

fun serve_all :: "'n server \<Rightarrow> nat \<Rightarrow> 'n process \<Rightarrow> msg list list \<Rightarrow> (msg list list \<times> nat \<times> 'n process) run" where
  "serve_all sv n p [] = Ret ([], n, p)"
| "serve_all sv 0 p (c # cs) = Ret ([], 0, p)"
| "serve_all sv (Suc n) p (c # cs) =
     run_bind (serve_connection sv p c) (\<lambda>(replies, on, p1).
     run_bind (serve_all sv (if on then Suc n else n) p1 cs) (\<lambda>(rs, left, p2). Ret (replies # rs, left, p2)))"

definition WOOF_MSG_THREADS :: nat where "WOOF_MSG_THREADS = 16"

section \<open>Serving a WooF\<close>

text \<open>
  The URI \<open>str\<close> names a WooF \<open>name\<close> in the directory of the server, and the names of its CAP and of
  the CAP of the namespace fit the buffers.
\<close>

definition located :: "'n process \<Rightarrow> string \<Rightarrow> string \<Rightarrow> WOOF \<Rightarrow> bool" where
  "located p str name wo \<longleftrightarrow> (\<exists>ns. names_woof (pr_rs p) str ns name) \<and> NUL \<notin> set str \<and> length name < 1024 \<and> holds p name wo
     \<and> length (path_of p (name @ ''.CAP'')) < 4096 \<and> length (path_of p ''CSPOT.CAP'') < 4096"

text \<open>Such a WooF whose name the server accepts in requests: not too short, and not that of a CAP.\<close>

definition reachable :: "'n process \<Rightarrow> string \<Rightarrow> string \<Rightarrow> WOOF \<Rightarrow> bool" where
  "reachable p str name wo \<longleftrightarrow> located p str name wo \<and> 4 \<le> length name \<and> \<not> is_cap_name name"

text \<open>Neither the WooF nor the namespace has a CAP.\<close>

definition unprotected :: "'n process \<Rightarrow> string \<Rightarrow> bool" where
  "unprotected p name \<longleftrightarrow> pr_files p (path_of p (name @ ''.CAP'')) = None \<and> pr_files p (path_of p ''CSPOT.CAP'') = None"

lemma plain_cap_names:
  assumes "CHR ''/'' \<notin> set name"
  shows "\<not> WooFValidURI name" "\<not> WooFValidURI (name @ ''.CAP'')" "\<not> WooFValidURI ''CSPOT.CAP''"
  using assms valid_uri_slash[of name] valid_uri_slash[of "name @ ''.CAP''"] valid_uri_slash[of "''CSPOT.CAP''"] by auto

lemma located_name:
  assumes "located p str name wo"
  shows "c_string (c_bytes str) = Ret str" "WooFLocalName (pr_rs p) str 1024 = Ret (1, name)" "holds p name wo"
    "WooFValidURI str" "WooFNameFromURI (pr_rs p) str 4096 = Ret (1, name)" "CHR ''/'' \<notin> set name"
proof -
  obtain ns where ns: "names_woof (pr_rs p) str ns name" using assms by (auto simp: located_def)
  have s: "NUL \<notin> set str" "length name < 1024" "holds p name wo" using assms by (auto simp: located_def)
  show "c_string (c_bytes str) = Ret str" using s(1) by simp
  show "WooFLocalName (pr_rs p) str 1024 = Ret (1, name)" using NameFromURI_ok[OF ns] s(2) by (simp add: WooFLocalName_def)
  show "holds p name wo" by (rule s(3))
  show "WooFValidURI str" using ns by (auto simp: names_woof_def uri_path_of_def split: if_splits)
  show "WooFNameFromURI (pr_rs p) str 4096 = Ret (1, name)" using NameFromURI_ok[OF ns] s(2) by simp
  show "CHR ''/'' \<notin> set name" using ns by (simp add: names_woof_def)
qed

lemma located_open:
  assumes "located p str name wo"
  shows "WooFOpen p name = Ret (Some (path_of p name, wo))" "WooFOpen p str = Ret (Some (path_of p name, wo))"
proof -
  show o: "WooFOpen p name = Ret (Some (path_of p name, wo))" by (rule WooFOpen_plain[OF located_name(3)[OF assms]])
  then show "WooFOpen p str = Ret (Some (path_of p name, wo))"
    using located_name(4-6)[OF assms] plain_cap_names(1)[of name] by (simp add: WooFOpen_def split: if_splits)
qed

lemma unprotected_open:
  assumes "located p str name wo" "unprotected p name"
  shows "WooFOpen p (name @ ''.CAP'') = Ret None" "WooFOpen p ''CSPOT.CAP'' = Ret None" "cap_present p name = Ret False"
proof -
  show o: "WooFOpen p (name @ ''.CAP'') = Ret None" "WooFOpen p ''CSPOT.CAP'' = Ret None"
    using assms located_name(6)[OF assms(1)] plain_cap_names[of name]
    by (auto simp: located_def unprotected_def intro!: WooFOpen_absent)
  then show "cap_present p name = Ret False" by (simp add: cap_present_def)
qed

lemma located_woof:
  assumes "located p str name wo"
  shows "woof_wf (wf_shared wo)" "0 < sem_val (wfs_mutex (wf_shared wo))" "pr_files p (path_of p name) = Some wo"
    "IsRemoteWoof p name = Ret False" "pr_dir p \<noteq> []" "woof_at p name = wf_shared wo"
  using located_name(3)[OF assms] IsRemote_plain[of p name] woof_at_holds[of p name wo]
  by (auto simp: holds_def usable_def woof_idle_def process_ok_def)

lemma reachable_located: "reachable p str name wo \<Longrightarrow> located p str name wo"
  by (simp add: reachable_def)

lemma reachable_cap_name:
  assumes "reachable p str name wo"
  shows "WooFIsCAPName (pr_rs p) str = Ret 0"
proof -
  obtain ns where ns: "names_woof (pr_rs p) str ns name" "length name < 1024" "4 \<le> length name" "\<not> is_cap_name name"
    using assms by (auto simp: reachable_def located_def)
  then show ?thesis using IsCAPName_ok[OF ns(1)] by simp
qed

lemmas reachable_name = located_name(1)[OF reachable_located] reachable_cap_name located_name(2-6)[OF reachable_located]
lemmas reachable_open = located_open[OF reachable_located]
lemmas reachable_woof = located_woof[OF reachable_located]
lemmas reachable_simps = reachable_name(1-3) reachable_open

section \<open>The requests as a client writes them\<close>

datatype request =
    PutReq string "string option" bytes
  | GetReq string u64
  | ElSizeReq string
  | EarliestReq string
  | LatestReq string
  | TailReq string u32
  | RangeReq string u64 u64

definition handler_name :: "string option \<Rightarrow> string" where
  "handler_name h = (case h of None \<Rightarrow> ''NULL'' | Some n \<Rightarrow> n)"

text \<open>An element of no bytes travels as a frame without payload.\<close>

definition data_frame :: "bytes \<Rightarrow> bytes option" where
  "data_frame e = (if e = [] then None else Some e)"

fun request_tag :: "request \<Rightarrow> nat" where
  "request_tag (PutReq str h e) = 1"
| "request_tag (GetReq str q) = 3"
| "request_tag (ElSizeReq str) = 2"
| "request_tag (EarliestReq str) = 12"
| "request_tag (LatestReq str) = 5"
| "request_tag (TailReq str n) = 4"
| "request_tag (RangeReq str q n) = 11"

fun request_frames :: "request \<Rightarrow> msg" where
  "request_frames (PutReq str h e) = [Some (c_bytes str), Some (c_bytes (handler_name h)), data_frame e]"
| "request_frames (GetReq str q) = [Some (c_bytes str), Some (c_bytes (to_string q))]"
| "request_frames (ElSizeReq str) = [Some (c_bytes str)]"
| "request_frames (EarliestReq str) = [Some (c_bytes str)]"
| "request_frames (LatestReq str) = [Some (c_bytes str)]"
| "request_frames (TailReq str n) = [Some (c_bytes str), Some (c_bytes (decimal (unat n)))]"
| "request_frames (RangeReq str q n) = [Some (c_bytes str), Some (c_bytes (to_string q)), Some (c_bytes (to_string n))]"

definition encode_request :: "request \<Rightarrow> msg" where
  "encode_request r = Some (c_bytes (decimal (request_tag r))) # request_frames r"

fun request_uri :: "request \<Rightarrow> string" where
  "request_uri (PutReq str h e) = str"
| "request_uri (GetReq str q) = str"
| "request_uri (ElSizeReq str) = str"
| "request_uri (EarliestReq str) = str"
| "request_uri (LatestReq str) = str"
| "request_uri (TailReq str n) = str"
| "request_uri (RangeReq str q n) = str"

section \<open>What the server should answer\<close>

text \<open>The elements from number \<open>q\<close> on that can be read, at most \<open>k\<close>.\<close>

fun spec_range :: "'e list \<Rightarrow> nat \<Rightarrow> nat \<Rightarrow> nat \<Rightarrow> 'e list" where
  "spec_range xs l q 0 = []"
| "spec_range xs l q (Suc k) = (case spec_read xs l q of None \<Rightarrow> [] | Some e \<Rightarrow> e # spec_range xs l (Suc q) k)"

definition elements_reply :: "bytes list \<Rightarrow> msg" where
  "elements_reply es = [if es = [] then None else Some (concat es)]"

fun spec_reply :: "(string \<Rightarrow> string) \<Rightarrow> WOOF_SHARED \<Rightarrow> request \<Rightarrow> msg" where
  "spec_reply dead w (PutReq str h e) = number_reply dead (of_nat (Suc (latest w)))"
| "spec_reply dead w (GetReq str q) = [spec_read (woof_view w) (latest w) (unat q)]"
| "spec_reply dead w (ElSizeReq str) = number_reply dead (wfs_element_size w)"
| "spec_reply dead w (EarliestReq str) = number_reply dead (of_nat (latest w - woof_count w + 1))"
| "spec_reply dead w (LatestReq str) = number_reply dead (of_nat (latest w))"
| "spec_reply dead w (TailReq str n) = [Some (c_bytes (dead (decimal (unat n)))), Some (concat (take (unat n) (woof_view w)))]"
| "spec_reply dead w (RangeReq str q n) = elements_reply (spec_range (woof_view w) (latest w) (unat q) (unat n))"

text \<open>
  The requests for which the server is right: elements are not empty and fit the 32-bit sizes of
  the frames, a handler name does not begin with the place holder, a tail request stays in front of
  slot 0 of the buffer, and a range fits one transfer.
\<close>

fun request_ok :: "WOOF_SHARED \<Rightarrow> request \<Rightarrow> bool" where
  "request_ok w (PutReq str h e) \<longleftrightarrow> (\<forall>n. h = Some n \<longrightarrow> NUL \<notin> set n \<and> \<not> starts_with n ''NULL'')"
| "request_ok w (GetReq str q) \<longleftrightarrow> True"
| "request_ok w (TailReq str n) \<longleftrightarrow> 0 < unat n \<and> unat n < 2 ^ 31 \<and> unat n \<le> unat (wfs_head w) \<and> elsz w * unat n < 2 ^ 32"
| "request_ok w (RangeReq str q n) \<longleftrightarrow> elsz w * unat n \<le> 64 * 1024 * 1024 \<and> unat q + unat n < 2 ^ 64"
| "request_ok w r \<longleftrightarrow> True"

text \<open>
  The answer of the server, with the texts of the numbers as \<open>dead\<close> renders them: \<open>pr_dead p\<close> for those that
  the code reads, the identity for those that it means to send.
\<close>

definition spec_serve :: "(string \<Rightarrow> string) \<Rightarrow> 'n process \<Rightarrow> string \<Rightarrow> request \<Rightarrow> (msg option \<times> 'n process) run" where
  "spec_serve dead p name r = (case r of
     PutReq str h e \<Rightarrow> run_bind (append_named p name h e 0 0) (\<lambda>(s, p'). Ret (Some (number_reply dead s), p'))
   | _ \<Rightarrow> Ret (Some (spec_reply dead (woof_at p name) r), p))"

lemma located_self:
  assumes "located p str name wo"
  shows "put_shared p (path_of p name) wo (wf_shared wo) = p"
  using put_shared_same located_woof(3)[OF assms] .

lemmas put_shared_self = located_self[OF reachable_located]

lemma frame_data_frame [simp]: "frame_data (data_frame e) = e"
  by (simp add: frame_data_def data_frame_def)

lemma take4_NULL: "take 4 (c_bytes n) = bytes_of ''NULL'' \<longleftrightarrow> starts_with n ''NULL''"
proof -
  have inj: "byte_of_char a = byte_of_char b \<longleftrightarrow> a = b" for a b by (metis char_of_byte_inverse)
  have "byte_of_char c \<noteq> 0" if "c \<in> set ''NULL''" for c using that by (auto simp: NUL_def)
  then show ?thesis
    by (cases n; cases "tl n"; cases "tl (tl n)"; cases "tl (tl (tl n))")
      (auto simp: c_bytes_def bytes_of_def inj dest: sym)
qed

lemma handler_frame_ok:
  assumes "\<forall>n. h = Some n \<longrightarrow> NUL \<notin> set n \<and> \<not> starts_with n ''NULL''"
  shows "handler_frame (Some (c_bytes (handler_name h))) = Ret h"
  using assms by (cases h) (simp_all add: handler_frame_def handler_name_def take4_NULL)

lemma serve_put:
  assumes "reachable p str name wo" "request_ok (wf_shared wo) (PutReq str h e)"
    and nc: "no_cap \<Longrightarrow> cap_present p name = Ret False"
  shows "WooFProcessPut tr p (request_frames (PutReq str h e)) no_cap = spec_serve (pr_dead p) p name (PutReq str h e)"
  using reachable_simps[OF assms(1)] nc reachable_woof(4,5)[OF assms(1)] handler_frame_ok[of h] assms(2)
  by (simp add: WooFProcessPut_def spec_serve_def WooFPutWithCause_def)

lemma woof_view_size:
  assumes "woof_wf w" "e \<in> set (woof_view w)"
  shows "length e = elsz w"
proof -
  obtain i where i: "i < woof_count w" "e = woof_view w ! i" using assms(2) by (auto simp: in_set_conv_nth)
  have "behind (hist w) (unat (wfs_head w)) i < hist w" using woof_wf_hist[OF assms(1)] by (simp add: behind_def)
  then show ?thesis
    using slot_in_buf[OF assms(1), of "behind (hist w) (unat (wfs_head w)) i"] woof_view_nth[OF i(1)] i(2)
    by (simp add: slot_rd_def load_def)
qed

lemma spec_read_mem: "spec_read xs l q = Some e \<Longrightarrow> e \<in> set xs"
  by (auto simp: spec_read_def Let_def split: if_splits)

lemma serve_get:
  assumes "reachable p str name wo" "0 < elsz (wf_shared wo)" "elsz (wf_shared wo) < 2 ^ 32"
    and nc: "no_cap \<Longrightarrow> cap_present p name = Ret False"
  shows "WooFProcessGet p (request_frames (GetReq str q)) no_cap = spec_serve (pr_dead p) p name (GetReq str q)"
proof -
  let ?w = "wf_shared wo"
  have u: "unat (ucast (wfs_element_size ?w) :: u32) = elsz ?w"
    using assms(3) by (simp add: unsigned_ucast_eq take_bit_nat_eq_self)
  then have nz: "(ucast (wfs_element_size ?w) :: u32) \<noteq> 0" using assms(2) by (metis unat_0 less_irrefl)
  have len: "spec_read (woof_view ?w) (latest ?w) (unat q) = Some e \<Longrightarrow> length e = elsz ?w" for e
    using woof_view_size[OF reachable_woof(1)[OF assms(1)]] spec_read_mem by metis
  show ?thesis
    using reachable_simps[OF assms(1)] nc WooFRead_ok[OF reachable_woof(1,2)[OF assms(1)], of q] put_shared_self[OF assms(1)]
      reachable_woof(6)[OF assms(1)] nz u len
    by (auto simp: WooFProcessGet_def spec_serve_def frame_string_def Let_def split: option.splits)
qed

lemma serve_queries:
  assumes "reachable p str name wo" and nc: "no_cap \<Longrightarrow> cap_present p name = Ret False"
  shows "WooFProcessGetElSize p (request_frames (ElSizeReq str)) no_cap = spec_serve (pr_dead p) p name (ElSizeReq str)"
    "WooFProcessGetEarliestSeqno tr p (request_frames (EarliestReq str)) no_cap = spec_serve (pr_dead p) p name (EarliestReq str)"
    "WooFProcessGetLatestSeqno p (request_frames (LatestReq str)) no_cap = spec_serve (pr_dead p) p name (LatestReq str)"
proof -
  note w = reachable_woof[OF assms(1)]
  have e: "WooFGetEarliest (wf_shared wo) = of_nat (latest (wf_shared wo) - woof_count (wf_shared wo) + 1)"
    unfolding unat_earliest[OF w(1), symmetric] by simp
  have l: "WooFLatestSeqno (wf_shared wo) = of_nat (latest (wf_shared wo))"
    unfolding unat_latest[OF w(1), symmetric] WooFLatestSeqno_def by simp
  show "WooFProcessGetElSize p (request_frames (ElSizeReq str)) no_cap = spec_serve (pr_dead p) p name (ElSizeReq str)"
    using reachable_simps[OF assms(1)] nc w(6) by (simp add: WooFProcessGetElSize_def spec_serve_def Let_def)
  have "spec_reply (pr_dead p) (wf_shared wo) (EarliestReq str) = number_reply (pr_dead p) (WooFGetEarliest (wf_shared wo))"
    by (simp only: spec_reply.simps e)
  then show "WooFProcessGetEarliestSeqno tr p (request_frames (EarliestReq str)) no_cap = spec_serve (pr_dead p) p name (EarliestReq str)"
    using reachable_simps[OF assms(1)] nc w(4-6)
    by (simp add: WooFProcessGetEarliestSeqno_def WooFGetEarliestSeqno_def spec_serve_def SendErr_def del: spec_reply.simps)
  show "WooFProcessGetLatestSeqno p (request_frames (LatestReq str)) no_cap = spec_serve (pr_dead p) p name (LatestReq str)"
    using reachable_simps[OF assms(1)] nc w(6) l by (simp add: WooFProcessGetLatestSeqno_def spec_serve_def frame_string_def Let_def)
qed

lemma length_concat_const: "\<forall>e\<in>set es. length e = n \<Longrightarrow> length (concat es) = length es * n"
  by (induction es) auto

lemma decimal_ucast: "ucast (strtoul (decimal (unat (n :: u32)))) = n"
proof -
  have lt: "unat n < 2 ^ 32" using unsigned_less[of n, where 'a = nat] by simp
  have "to_string (of_nat (unat n)) = decimal (unat n)"
    using lt by (simp add: to_string_def unat_of_nat take_bit_nat_eq_self del: of_nat_unat)
  then have "strtoul (decimal (unat n)) = of_nat (unat n)" by (metis strtoul_to_string)
  moreover have "ucast (ucast n :: u64) = n" by (rule bit_word_eqI) (auto simp: bit_simps)
  ultimately show ?thesis by simp
qed

lemma sint32_small:
  assumes "unat (n :: u32) < 2 ^ 31"
  shows "sint n = int (unat n)"
proof -
  have "sint (word_of_int (int (unat n)) :: u32) = int (unat n)"
    by (rule sint32_of_int) (use assms in \<open>simp_all del: of_nat_unat\<close>)
  moreover have "word_of_int (int (unat n)) = n" by simp
  ultimately show ?thesis by simp
qed

lemma serve_tail:
  assumes "located p str name wo" "request_ok (wf_shared wo) (TailReq str n)"
    and nc: "no_cap \<Longrightarrow> cap_present p name = Ret False"
  shows "WooFProcessGetTail p (request_frames (TailReq str n)) no_cap = spec_serve (pr_dead p) p name (TailReq str n)"
proof -
  let ?w = "wf_shared wo"
  note w = located_woof[OF assms(1)]
  have r: "0 < unat n" "unat n < 2 ^ 31" "unat n \<le> unat (wfs_head ?w)" "elsz ?w * unat n < 2 ^ 32" using assms(2) by simp_all
  have k: "nat (sint n) = unat n" using sint32_small[OF r(2)] by simp
  have tail: "WooFReadTail ?w n = Ret (int (unat n), take (unat n) (woof_view ?w), ?w)"
    using WooFReadTail_eq[OF w(2), of n "take (unat n) (woof_view ?w)"] read_tail_loop_ok[OF w(1), of 0 "unat n" "wfs_head ?w"]
      r(3) head_le_count[OF w(1)] by (simp add: k)
  have "elsz ?w < 2 ^ 32" using r(1,4) by (metis mult.commute mult_le_mono1 nat_mult_1 le_less_trans Suc_leI One_nat_def)
  then have "unat (ucast (wfs_element_size ?w) :: u32) = elsz ?w" by (simp add: unsigned_ucast_eq take_bit_nat_eq_self)
  then have sp: "unat (ucast (wfs_element_size ?w) * n) = unat n * elsz ?w"
    using r(4) by (simp add: unat_word_ariths mult.commute)
  have "\<forall>e\<in>set (take (unat n) (woof_view ?w)). length e = elsz ?w"
    using woof_view_size[OF w(1)] in_set_takeD by fast
  then have len: "length (concat (take (unat n) (woof_view ?w))) = unat n * elsz ?w"
    using length_concat_const r(3) head_le_count[OF w(1)] by fastforce
  have nz: "n \<noteq> 0" using r(1) by auto
  show ?thesis
    using located_name(1,2)[OF assms(1)] located_open[OF assms(1)] nc tail located_self[OF assms(1)] w(6) sp len nz
    by (simp add: WooFProcessGetTail_def spec_serve_def frame_string_def Let_def decimal_ucast)
qed

lemma serve_range_ok:
  assumes "woof_wf w" "0 < sem_val (wfs_mutex w)" "(i + k) * elsz w \<le> r_size" "unat q + i + k < 2 ^ 64"
  shows "serve_range w r_size k i q = Ret (spec_range (woof_view w) (latest w) (unat q + i) k, w)"
  using assms(3,4)
proof (induction k arbitrary: i)
  case (Suc k)
  have u: "unat (q + of_nat i) = unat q + i"
    using Suc.prems(2) unat64_add[of q "of_nat i"] by (simp add: unat_of_nat take_bit_nat_eq_self)
  have "Suc i * elsz w \<le> (i + Suc k) * elsz w" by (rule mult_le_mono1) simp
  then have fits: "Suc i * elsz w \<le> r_size" using Suc.prems(1) by (rule le_trans)
  have "(Suc i + k) * elsz w \<le> r_size" "unat q + Suc i + k < 2 ^ 64" using Suc.prems by simp_all
  note IH = Suc.IH[OF this]
  show ?case
  proof (cases "spec_read (woof_view w) (latest w) (unat q + i)")
    case None
    then show ?thesis using WooFRead_ok[OF assms(1,2), of "q + of_nat i"] u by simp
  next
    case (Some e)
    then show ?thesis using WooFRead_ok[OF assms(1,2), of "q + of_nat i"] u fits IH by simp
  qed
qed simp

lemma spec_range_mem: "e \<in> set (spec_range xs l q k) \<Longrightarrow> e \<in> set xs"
proof (induction k arbitrary: q)
  case (Suc k)
  then show ?case using spec_read_mem[of xs l q] by (cases "spec_read xs l q") auto
qed simp

lemma length_spec_range: "length (spec_range xs l q k) \<le> k"
  by (induction xs l q k rule: spec_range.induct) (auto split: option.splits)

lemma range_size_ok:
  assumes "unat es * unat n \<le> 64 * 1024 * 1024"
  shows "unat (range_size n es) = unat es * unat n"
proof -
  have m: "unat (n * es) = unat es * unat n" "unat (es * n) = unat es * unat n"
    using assms unat64_mult[of n es] unat64_mult[of es n] by (simp_all add: mult.commute)
  have "\<not> CMQ_MAX_TRANSFER < n * es" using assms by (simp add: CMQ_MAX_TRANSFER_def word_less_nat_alt m)
  then show ?thesis using assms m(2) by (simp add: range_size_def unsigned_ucast_eq take_bit_nat_eq_self)
qed

lemma serve_range_request:
  assumes "reachable p str name wo" "0 < elsz (wf_shared wo)" "request_ok (wf_shared wo) (RangeReq str q n)"
    and nc: "no_cap \<Longrightarrow> cap_present p name = Ret False"
  shows "WooFProcessGetRange p (request_frames (RangeReq str q n)) no_cap = spec_serve (pr_dead p) p name (RangeReq str q n)"
proof -
  let ?w = "wf_shared wo"
  note w = reachable_woof[OF assms(1)]
  have r: "elsz ?w * unat n \<le> 64 * 1024 * 1024" "unat q + unat n < 2 ^ 64" using assms(3) by simp_all
  let ?es = "spec_range (woof_view ?w) (latest ?w) (unat q) (unat n)"
  note sz = range_size_ok[OF r(1)]
  have run: "serve_range ?w (elsz ?w * unat n) (unat n) 0 q = Ret (?es, ?w)"
    using serve_range_ok[OF w(1,2), of 0 "unat n" "elsz ?w * unat n" q] r(2) by (simp add: mult.commute)
  have "\<forall>e\<in>set ?es. length e = elsz ?w" using spec_range_mem woof_view_size[OF w(1)] by metis
  then have len: "length (concat ?es) = length ?es * elsz ?w" by (rule length_concat_const)
  have le: "length ?es \<le> unat n" by (rule length_spec_range)
  have pad: "elsz ?w * unat n - length (concat ?es) = 0" if "\<not> length ?es < unat n"
    using that le len by simp
  have zero: "elsz ?w * unat n = 0 \<Longrightarrow> ?es = []" using assms(2) by simp
  show ?thesis
    using reachable_simps[OF assms(1)] nc put_shared_self[OF assms(1)] w(6) run pad zero sz
    by (auto simp: WooFProcessGetRange_def spec_serve_def frame_string_def Let_def elements_reply_def)
qed

text \<open>Texts that are still intact: the answer is the one that the code means to send.\<close>

lemma slot_write_number: "slot_write w i e = Ret w' \<Longrightarrow> wfs_seq_no w' = wfs_seq_no w"
  by (auto simp: slot_write_def Let_def run_bind_Ret_iff split: if_splits)

text \<open>What an append that returns did to the WooF does not depend on the handler.\<close>

lemma append_handler:
  "WooFAppendWithCause ts ns wo hand e ch cs = Ret (s, wo', ns') \<Longrightarrow> WooFAppendWithCause ts ns wo None e ch cs = Ret (s, wo', ns)"
  by (cases hand) (auto simp: WooFAppendWithCause_def Let_def run_bind_Ret_iff split: option.splits if_splits)

lemma append_number:
  assumes "WooFAppendWithCause ts ns wo h e ch cs = Ret (s, wo', ns')"
  shows "s = wfs_seq_no (wf_shared wo)"
  using append_handler[OF assms]
  by (auto simp: WooFAppendWithCause_def woof_push_def Let_def run_bind_Ret_iff split: if_splits dest!: slot_write_number)

lemma append_named_number:
  assumes "holds p name wo" "append_named p name h e ch cs = Ret (s, p')"
  shows "s = wfs_seq_no (wf_shared wo)"
  using assms(2) WooFOpen_plain[OF assms(1)] by (auto simp: append_named_def run_bind_Ret_iff dest: append_number)

lemma number_reply_short: "keeps_short dead \<Longrightarrow> unat n < 10 ^ 15 \<Longrightarrow> number_reply dead n = number_reply id n"
  by (simp add: number_reply_def dead_to_string)

lemma spec_serve_short:
  assumes "reachable p str name wo" "elsz (wf_shared wo) < 2 ^ 32" "keeps_short dead" "Suc (latest (wf_shared wo)) < 10 ^ 15"
  shows "spec_serve dead p name r = spec_serve id p name r"
proof -
  let ?w = "wf_shared wo"
  have w: "woof_at p name = ?w" "woof_wf ?w" "holds p name wo"
    using reachable_woof(6,1)[OF assms(1)] reachable_name(4)[OF assms(1)] by blast+
  have "unat (wfs_seq_no ?w) = Suc (latest ?w)" using w(2) by (simp add: woof_wf_def latest_def)
  then have q: "number_reply dead (wfs_seq_no ?w) = number_reply id (wfs_seq_no ?w)"
    using number_reply_short[OF assms(3)] assms(4) by simp
  have n: "number_reply dead (of_nat k) = number_reply id (of_nat k)" if "k \<le> Suc (latest ?w)" for k
    using that assms(4) number_reply_short[OF assms(3), of "of_nat k"] by (simp add: unat_of_nat take_bit_nat_eq_self)
  show ?thesis
  proof (cases r)
    case (PutReq str' h e)
    then show ?thesis using append_named_number[OF w(3), of h e 0 0] q
      by (cases "append_named p name h e 0 0") (auto simp: spec_serve_def)
  qed (use w(1) n[of "latest ?w"] n[of "latest ?w - woof_count ?w + 1"] number_reply_short[OF assms(3), of "wfs_element_size ?w"]
      assms(2) dead_u32[OF assms(3)] in \<open>simp_all add: spec_serve_def\<close>)
qed

section \<open>Properties\<close>

lemma dispatch_request:
  assumes "reachable p str name wo" "0 < elsz (wf_shared wo)" "elsz (wf_shared wo) < 2 ^ 32"
    "request_uri r = str" "request_ok (wf_shared wo) r" "cap_present p name = Ret False"
  shows "dispatch sv p (int (request_tag r)) (request_frames r) = spec_serve (pr_dead p) p name r"
  using assms(4,5) serve_put[OF assms(1)] serve_get[OF assms(1-3)] serve_queries[OF assms(1)] serve_tail[OF reachable_located[OF assms(1)]]
    serve_range_request[OF assms(1,2)] assms(6)
  by (cases r) (simp_all add: dispatch_def del: request_frames.simps request_ok.simps)

lemma serve_request:
  assumes "reachable p str name wo" "0 < elsz (wf_shared wo)" "elsz (wf_shared wo) < 2 ^ 32"
    "request_uri r = str" "request_ok (wf_shared wo) r" "cap_present p name = Ret False"
  shows "serve_connection sv p [encode_request r] =
    run_bind (spec_serve (pr_dead p) p name r) (\<lambda>(reply, p'). Ret (case reply of None \<Rightarrow> [] | Some m \<Rightarrow> [m], True, p'))"
proof -
  have "request_tag r < 2 ^ 63" by (cases r) simp_all
  then have "strtol (decimal (request_tag r)) = (int (request_tag r), [])" by (rule strtol_decimal)
  then show ?thesis using dispatch_request[OF assms, of sv] by (simp add: encode_request_def frame_string_def)
qed

text \<open>C6: the server answers every request as its specification says. For a URI that names a WooF
  of the server without a CAP, the message a client writes for a put, a get, a size, earliest or
  latest number, tail or range request is read, dispatched and answered with the reply computed
  from the retained elements, and only a put changes the process, exactly as the local append. The
  requests are those of \<open>request_ok\<close> (no tail past slot 0, no range over 64 MB, no handler whose name
  begins with \<^verbatim>\<open>NULL\<close>). The numbers in the reply are the texts that are read after their destruction;
  when texts of at most 15 characters are still intact then, and the numbers are below \<open>10 ^ 15\<close>, they
  are the texts that the code means to send.\<close>

theorem server_refines:
  assumes "reachable p str name wo" "0 < elsz (wf_shared wo)" "elsz (wf_shared wo) < 2 ^ 32"
    "request_uri r = str" "request_ok (wf_shared wo) r" "unprotected p name"
  shows "serve_connection sv p [encode_request r] =
      run_bind (spec_serve (pr_dead p) p name r) (\<lambda>(reply, p'). Ret (case reply of None \<Rightarrow> [] | Some m \<Rightarrow> [m], True, p'))
    \<and> (keeps_short (pr_dead p) \<and> Suc (latest (wf_shared wo)) < 10 ^ 15 \<longrightarrow> spec_serve (pr_dead p) p name r = spec_serve id p name r)"
  using serve_request[OF assms(1-5) unprotected_open(3)[OF reachable_located[OF assms(1)] assms(6)], of sv]
    spec_serve_short[OF assms(1,3), of "pr_dead p" r] by blast

text \<open>A server in \<^verbatim>\<open>/home/ns\<close> with the WooF \<^verbatim>\<open>temps\<close> of one-byte elements.\<close>

definition demo_woof :: WOOF where
  "demo_woof = \<lparr>wf_shared = wrapped_woof\<lparr>wfs_watermark := CSPOT_WATERMARK\<rparr>, wf_ino = 3\<rparr>"

abbreviation temps_uri :: string where
  "temps_uri \<equiv> ''woof://10.0.0.1/home/ns/temps''"

definition demo_server :: "unit process" where
  "demo_server = (demo_process ())\<lparr>pr_files := [''/home/ns/temps'' \<mapsto> demo_woof]\<rparr>"

definition demo_sv :: "unit server" where
  "demo_sv = \<lparr>sv_tr = no_network, sv_hmac = succ_hmac, sv_fname = []\<rparr>"

lemma woof_watermark [simp]:
  "woof_wf (w\<lparr>wfs_watermark := m\<rparr>) = woof_wf w" "woof_idle (w\<lparr>wfs_watermark := m\<rparr>) = woof_idle w"
  "woof_view (w\<lparr>wfs_watermark := m\<rparr>) = woof_view w" "latest (w\<lparr>wfs_watermark := m\<rparr>) = latest w"
  by (simp_all add: woof_wf_def woof_idle_def woof_view_def woof_slots_def woof_count_def latest_def)

lemma demo_server_path: "path_of demo_server name = ''/home/ns/'' @ name" "pr_rs demo_server = demo_resolver"
  using demo_path[of "()" name] by (simp_all add: demo_server_def) (simp add: demo_process_def)

lemma demo_reachable: "reachable demo_server temps_uri ''temps'' demo_woof"
proof -
  have "names_woof demo_resolver temps_uri ''/home/ns'' ''temps''"
    by (simp add: names_woof_def uri_path_of_def demo_resolver_def WooFValidURI_def NUL_def)
  moreover have "holds demo_server ''temps'' demo_woof"
    using demo_process_ok[of "()"] wrapped_woof_wf
    by (simp add: holds_def demo_server_path usable_def demo_woof_def WooFValidURI_def) (simp add: demo_server_def demo_woof_def)
  moreover have "\<not> is_cap_name ''temps''" by (auto simp: is_cap_name_def append_eq_Cons_conv)
  ultimately show ?thesis by (auto simp: reachable_def located_def demo_server_path NUL_def)
qed

lemma demo_dead: "keeps_short (pr_dead demo_server)"
  by (simp add: demo_server_def demo_process_def keeps_short_def)

theorem server_refines_witness:
  "serve_connection demo_sv demo_server [encode_request (GetReq temps_uri 0)] = Ret ([[Some [30]]], True, demo_server)
   \<and> serve_connection demo_sv demo_server [encode_request (LatestReq temps_uri)] = Ret ([[Some (c_bytes ''3'')]], True, demo_server)"
proof -
  have d: "decimal 3 = ''3''" by code_simp
  have "unprotected demo_server ''temps''" by (simp add: unprotected_def demo_server_path) (simp add: demo_server_def)
  moreover have "elsz (wf_shared demo_woof) = 1" "latest (wf_shared demo_woof) = 3" "woof_view (wf_shared demo_woof) = [[30], [20]]"
    using wrapped_woof_view by (simp_all add: demo_woof_def) (simp_all add: wrapped_woof_def latest_def)
  ultimately show ?thesis
    using server_refines[OF demo_reachable, of "GetReq temps_uri 0" demo_sv] demo_dead d
      server_refines[OF demo_reachable, of "LatestReq temps_uri" demo_sv] reachable_woof(6)[OF demo_reachable]
    by (simp add: spec_serve_def spec_read_def number_reply_def to_string_def)
qed

end
