(* ===== verification/Cmq_Auth.thy ===== *)
theory Cmq_Auth
  imports Cmq_Server
begin

text \<open>
  What the capability checks of the CMQ server (\<^verbatim>\<open>src/src/net/cmq/cmq-backend.cpp\<close>) let through. A
  request with a capability is granted exactly when its check is the signature of the request under
  a key attenuated from a principal capability, or zero when one of the two CAPs does not exist; the
  other theorems show what follows from the second case and from the requests that do not test the
  name.
\<close>

section \<open>Principal capabilities\<close>

text \<open>A CAP that may be absent.\<close>

definition cap_state :: "'n process \<Rightarrow> string \<Rightarrow> u64 option \<Rightarrow> bool" where
  "cap_state p name s = (case s of
     None \<Rightarrow> WooFOpen p name = Ret None
   | Some secret \<Rightarrow> stores_cap p name secret)"

lemma read_newest:
  assumes "woof_wf w" "0 < sem_val (wfs_mutex w)" "woof_view w \<noteq> []"
  shows "WooFReadWithCause w (WooFLatestSeqno w) = Ret (1, Some (hd (woof_view w)), w)"
proof -
  have c: "0 < woof_count w" using assms(3) by (metis length_woof_view length_greater_0_conv)
  then have "0 < latest w" using count_le_latest[OF assms(1)] by simp
  then have "spec_read (woof_view w) (latest w) (latest w) = Some (hd (woof_view w))"
    using assms(3) c by (simp add: spec_read_def hd_conv_nth Let_def)
  then show ?thesis
    using WooFRead_ok[OF assms(1,2), of "WooFLatestSeqno w"] unat_latest[OF assms(1)] by (simp add: WooFLatestSeqno_def)
qed

lemma attenuated_key_ok:
  assumes "stores_cap p name secret" "perm \<le> 0x3f"
  shows "\<exists>opened. WooFOpen p name = Ret (Some opened)
    \<and> attenuated_key hmac p opened perm = Ret (Some (check (ladder hmac secret (level_of perm))), p)"
proof -
  obtain wo where wo: "holds p name wo" "elsz (wf_shared wo) = 16" "woof_view (wf_shared wo) \<noteq> []"
    "hd (woof_view (wf_shared wo)) = cap_bytes (principal_cap secret)"
    using assms(1) by (auto simp: stores_cap_def)
  have w: "woof_wf (wf_shared wo)" "0 < sem_val (wfs_mutex (wf_shared wo))" "pr_files p (path_of p name) = Some wo"
    using wo(1) by (auto simp: holds_def usable_def woof_idle_def)
  have a: "WooFCapAttenuate hmac (principal_cap secret) perm = Some (ladder hmac secret (level_of perm))"
    using attenuate_ladder[of 0 hmac secret perm] assms(2) by (simp add: mask_of_def not_less)
  have "attenuated_key hmac p (path_of p name, wo) perm = Ret (Some (check (ladder hmac secret (level_of perm))), p)"
    using read_newest[OF w(1,2) wo(3)] put_shared_same[OF w(3)] wo(4) a by (simp add: attenuated_key_def Let_def)
  then show ?thesis using WooFOpen_plain[OF wo(1)] by blast
qed

lemma cap_state_open:
  assumes "cap_state p name s" "perm \<le> 0x3f"
  obtains wf_cap where "WooFOpen p name = Ret wf_cap" "wf_cap = None \<longleftrightarrow> s = None"
    "(case wf_cap of None \<Rightarrow> Ret (None, p) | Some opened \<Rightarrow> attenuated_key hmac p opened perm)
       = Ret (map_option (\<lambda>s. check (ladder hmac s (level_of perm))) s, p)"
proof (cases s)
  case None
  then show thesis using that[of None] assms(1) by (simp add: cap_state_def)
next
  case (Some secret)
  then have "stores_cap p name secret" using assms(1) by (simp add: cap_state_def)
  then obtain opened where "WooFOpen p name = Ret (Some opened)"
    "attenuated_key hmac p opened perm = Ret (Some (check (ladder hmac secret (level_of perm))), p)"
    using attenuated_key_ok[OF _ assms(2)] by blast
  then show thesis using that[of "Some opened"] Some by simp
qed

text \<open>The signature a CAP calls for: 0 without a CAP.\<close>

definition expected :: "hmac \<Rightarrow> bytes \<Rightarrow> u32 \<Rightarrow> u64 option \<Rightarrow> u64" where
  "expected hmac payload perm s = (case s of
     None \<Rightarrow> 0
   | Some secret \<Rightarrow> WooFCapSign hmac payload (check (ladder hmac secret (level_of perm))))"

lemma authorize_ok:
  assumes "cap_state p (name @ ''.CAP'') sp" "cap_state p ''CSPOT.CAP'' sns" "perm \<le> 0x3f" "payload = Ret t"
  shows "authorize hmac p (cap_bytes c) name perm payload =
    Ret (if sp = None \<and> sns = None then Unprotected
         else if check c = expected hmac t perm sp \<or> check c = expected hmac t perm sns then Granted else Denied, p)"
proof -
  obtain wf_cap where c: "WooFOpen p (name @ ''.CAP'') = Ret wf_cap" "wf_cap = None \<longleftrightarrow> sp = None"
    "(case wf_cap of None \<Rightarrow> Ret (None, p) | Some opened \<Rightarrow> attenuated_key hmac p opened perm)
       = Ret (map_option (\<lambda>s. check (ladder hmac s (level_of perm))) sp, p)"
    by (rule cap_state_open[OF assms(1,3)])
  obtain wf_ns where n: "WooFOpen p ''CSPOT.CAP'' = Ret wf_ns" "wf_ns = None \<longleftrightarrow> sns = None"
    "(case wf_ns of None \<Rightarrow> Ret (None, p) | Some opened \<Rightarrow> attenuated_key hmac p opened perm)
       = Ret (map_option (\<lambda>s. check (ladder hmac s (level_of perm))) sns, p)"
    by (rule cap_state_open[OF assms(2,3)])
  have sig: "signature hmac t (map_option (\<lambda>s. check (ladder hmac s (level_of perm))) s) = expected hmac t perm s" for s
    by (cases s) (simp_all add: signature_def expected_def)
  have p: "(wf_cap = None \<and> wf_ns = None) = (sp = None \<and> sns = None)"
    "\<not> (wf_cap \<noteq> None \<and> map_option (\<lambda>s. check (ladder hmac s (level_of perm))) sp = None)"
    "\<not> (wf_ns \<noteq> None \<and> map_option (\<lambda>s. check (ladder hmac s (level_of perm))) sns = None)"
    using c(2) n(2) by auto
  show ?thesis
    unfolding authorize_def c(1) n(1) run_bind.simps p(1) assms(4)
    by (simp only: c(3) n(3) run_bind.simps prod.case p(2,3) if_False Let_def sig length_cap_bytes of_cap_bytes_cap_bytes
        less_irrefl split: if_split) simp
qed

section \<open>Requests with a capability\<close>

fun cap_tag :: "request \<Rightarrow> nat" where
  "cap_tag (PutReq str h e) = 21"
| "cap_tag (GetReq str q) = 23"
| "cap_tag (ElSizeReq str) = 22"
| "cap_tag (EarliestReq str) = 33"
| "cap_tag (LatestReq str) = 25"
| "cap_tag (TailReq str n) = 24"
| "cap_tag (RangeReq str q n) = 32"

text \<open>The permission a request needs, the text that is signed and the reply when it is denied.\<close>

fun cap_perm :: "request \<Rightarrow> u32" where
  "cap_perm (PutReq str h e) = (if h = None then WCAP_WRITE else WCAP_EXEC)"
| "cap_perm _ = WCAP_READ"

fun cap_text :: "request \<Rightarrow> bytes" where
  "cap_text (PutReq str h e) = bytes_of str @ bytes_of (handler_name h) @ e"
| "cap_text (GetReq str q) = sig_text (str @ '' '' @ to_string q)"
| "cap_text (RangeReq str q n) = sig_text (str @ '' '' @ to_string q @ '' '' @ to_string n)"
| "cap_text r = bytes_of (request_uri r)"

fun denial :: "(string \<Rightarrow> string) \<Rightarrow> request \<Rightarrow> msg" where
  "denial dead (GetReq str q) = [None]"
| "denial dead (TailReq str n) = [None]"
| "denial dead (RangeReq str q n) = [None]"
| "denial dead _ = number_reply dead (- 1)"

definition encode_cap_request :: "WCAP \<Rightarrow> request \<Rightarrow> msg" where
  "encode_cap_request c r = Some (c_bytes (decimal (cap_tag r))) # Some (cap_bytes c) # request_frames r"

definition granted :: "hmac \<Rightarrow> u64 option \<Rightarrow> u64 option \<Rightarrow> WCAP \<Rightarrow> request \<Rightarrow> bool" where
  "granted hmac sp sns c r \<longleftrightarrow> sp = None \<and> sns = None
     \<or> check c = expected hmac (cap_text r) (cap_perm r) sp \<or> check c = expected hmac (cap_text r) (cap_perm r) sns"

lemma cap_perm_le: "cap_perm r \<le> 0x3f"
  by (cases r) (simp_all add: perm_defs)

lemma words_text_ok:
  "NUL \<notin> set a \<Longrightarrow> words_text str [c_bytes a] = Ret (sig_text (str @ '' '' @ a))"
  "NUL \<notin> set a \<Longrightarrow> NUL \<notin> set b \<Longrightarrow> words_text str [c_bytes a, c_bytes b] = Ret (sig_text (str @ '' '' @ a @ '' '' @ b))"
  by (simp_all add: words_text_def)

lemma put_cap_ok:
  assumes "\<forall>n. h = Some n \<longrightarrow> NUL \<notin> set n \<and> \<not> starts_with n ''NULL''"
  shows "put_perm (c_bytes (handler_name h)) = cap_perm (PutReq str h e)"
    "put_text str (c_bytes (handler_name h)) e = Ret (cap_text (PutReq str h e))"
  using assms take4_NULL[of "''NULL''"] by (cases h; simp add: put_perm_def put_text_def handler_name_def take4_NULL NUL_def)+

lemma verdict_granted:
  assumes "cap_state p (name @ ''.CAP'') sp" "cap_state p ''CSPOT.CAP'' sns"
  obtains v where "authorize hmac p (cap_bytes c) name (cap_perm r) (Ret (cap_text r)) = Ret (v, p)"
    "v = Denied \<longleftrightarrow> \<not> granted hmac sp sns c r"
  by (rule that[OF authorize_ok[OF assms cap_perm_le refl]]) (auto simp: granted_def)

lemma dispatch_cap_request:
  assumes "reachable p str name wo" "0 < elsz (wf_shared wo)" "elsz (wf_shared wo) < 2 ^ 32"
    "request_uri r = str" "request_ok (wf_shared wo) r"
    "cap_state p (name @ ''.CAP'') sp" "cap_state p ''CSPOT.CAP'' sns"
  shows "dispatch sv p (int (cap_tag r)) (Some (cap_bytes c) # request_frames r) =
    (if granted (sv_hmac sv) sp sns c r then spec_serve (pr_dead p) p name r else Ret (Some (denial (pr_dead p) r), p))"
proof -
  obtain v where auth: "authorize (sv_hmac sv) p (cap_bytes c) name (cap_perm r) (Ret (cap_text r)) = Ret (v, p)"
    and g: "v = Denied \<longleftrightarrow> \<not> granted (sv_hmac sv) sp sns c r"
    by (rule verdict_granted[OF assms(6,7)])
  note n = reachable_name(1-3)[OF assms(1)]
  show ?thesis
  proof (cases r)
    case (PutReq str' h e)
    then have r: "r = PutReq str h e" using assms(4) by simp
    have "\<forall>n. h = Some n \<longrightarrow> NUL \<notin> set n \<and> \<not> starts_with n ''NULL''" using assms(5) r by simp
    from put_cap_ok[OF this, of str e] show ?thesis
      using auth g n serve_put[OF assms(1) assms(5)[unfolded r], of False "sv_tr sv"] unfolding r
      by (simp add: dispatch_def WooFProcessPutwithCAP_def SendErr_def)
  next
    case (GetReq str' s)
    then have r: "r = GetReq str s" using assms(4) by simp
    show ?thesis using auth g n serve_get[OF assms(1-3), of False s] words_text_ok(1)[of "to_string s" str] unfolding r
      by (simp add: dispatch_def WooFProcessGetwithCAP_def SendNull_def)
  next
    case (ElSizeReq str')
    then have r: "r = ElSizeReq str" using assms(4) by simp
    show ?thesis using auth g n serve_queries(1)[OF assms(1), of False] unfolding r
      by (simp add: dispatch_def WooFProcessGetElSizewithCAP_def SendErr_def)
  next
    case (EarliestReq str')
    then have r: "r = EarliestReq str" using assms(4) by simp
    show ?thesis using auth g n serve_queries(2)[OF assms(1), of False "sv_tr sv"] unfolding r
      by (simp add: dispatch_def WooFProcessGetEarliestSeqnowithCAP_def SendErr_def)
  next
    case (LatestReq str')
    then have r: "r = LatestReq str" using assms(4) by simp
    show ?thesis using auth g n serve_queries(3)[OF assms(1), of False] unfolding r
      by (simp add: dispatch_def WooFProcessGetLatestSeqnowithCAP_def SendErr_def)
  next
    case (TailReq str' k)
    then have r: "r = TailReq str k" using assms(4) by simp
    show ?thesis using auth g n serve_tail[OF reachable_located[OF assms(1)], of k False] assms(5) unfolding r
      by (simp add: dispatch_def WooFProcessGetTailwithCAP_def SendNull_def)
  next
    case (RangeReq str' s k)
    then have r: "r = RangeReq str s k" using assms(4) by simp
    show ?thesis using auth g n serve_range_request[OF assms(1,2), of s k False] assms(5)
        words_text_ok(2)[of "to_string s" "to_string k" str] unfolding r
      by (simp add: dispatch_def WooFProcessGetRangewithCAP_def SendNull_def)
  qed
qed

lemma serve_cap_request:
  assumes "reachable p str name wo" "0 < elsz (wf_shared wo)" "elsz (wf_shared wo) < 2 ^ 32"
    "request_uri r = str" "request_ok (wf_shared wo) r"
    "cap_state p (name @ ''.CAP'') sp" "cap_state p ''CSPOT.CAP'' sns"
  shows "serve_connection sv p [encode_cap_request c r] =
    run_bind (if granted (sv_hmac sv) sp sns c r then spec_serve (pr_dead p) p name r else Ret (Some (denial (pr_dead p) r), p))
      (\<lambda>(reply, p'). Ret (case reply of None \<Rightarrow> [] | Some m \<Rightarrow> [m], True, p'))"
proof -
  have "cap_tag r < 2 ^ 63" by (cases r) simp_all
  then have "strtol (decimal (cap_tag r)) = (int (cap_tag r), [])" by (rule strtol_decimal)
  then show ?thesis
    using dispatch_cap_request[OF assms, of sv c]
    by (simp add: encode_cap_request_def frame_string_def del: request_frames.simps)
qed

section \<open>Requests without a capability\<close>

lemma plain_refused:
  assumes "reachable p str name wo" "request_uri r = str" "request_ok (wf_shared wo) r" "cap_present p name = Ret True"
  shows "serve_connection sv p [encode_request r] = Ret ([denial (pr_dead p) r], True, p)"
proof -
  have "request_tag r < 2 ^ 63" by (cases r) simp_all
  then have t: "strtol (decimal (request_tag r)) = (int (request_tag r), [])" by (rule strtol_decimal)
  have "dispatch sv p (int (request_tag r)) (request_frames r) = Ret (Some (denial (pr_dead p) r), p)"
    using reachable_simps[OF assms(1)] assms(2-4) handler_frame_ok
    by (cases r) (auto simp: dispatch_def SendErr_def SendNull_def WooFProcessPut_def WooFProcessGet_def WooFProcessGetElSize_def
      WooFProcessGetEarliestSeqno_def WooFProcessGetLatestSeqno_def WooFProcessGetTail_def WooFProcessGetRange_def
      destroy_frame_as_list_def frame_string_def)
  then show ?thesis using t by (simp add: encode_request_def frame_string_def)
qed

lemma cap_state_other:
  assumes "path \<noteq> path_of p cname" "\<not> WooFValidURI cname"
  shows "cap_state ((write_back p path wo)\<lparr>pr_ns := ns\<rparr>) cname s = cap_state p cname s"
proof -
  have f: "pr_files (write_back p path wo) (path_of p cname) = pr_files p (path_of p cname)"
    using assms(1) by (simp add: write_back_def)
  then have "WooFOpen ((write_back p path wo)\<lparr>pr_ns := ns\<rparr>) cname = WooFOpen p cname"
    using assms(2) by (simp add: WooFOpen_def local_path_def path_of_def Let_def write_back_def)
  moreover have "stores_cap ((write_back p path wo)\<lparr>pr_ns := ns\<rparr>) cname k = stores_cap p cname k" for k
    using f by (simp add: stores_cap_def holds_def)
  ultimately show ?thesis by (simp add: cap_state_def split: option.split)
qed

lemma reachable_other:
  assumes "reachable p str name wo" "path \<noteq> path_of p name"
  shows "reachable (write_back p path wo') str name wo"
  using assms by (simp add: reachable_def located_def holds_def) (simp add: write_back_def)

section \<open>Properties\<close>

text \<open>C7: a put, get, size, number, tail or range request (of \<open>request_ok\<close>) that carries a capability is served
  exactly when it is granted. With a principal capability stored for the WooF, for the namespace or
  for both, it is answered as its specification says if the check in the capability is the HMAC of the
  request under the key attenuated to the permission the request needs (or 0 where one of the two CAPs
  is missing); otherwise the request is refused and the process is unchanged. Where neither CAP exists
  every capability is accepted. Numbers in the replies, the one of a refusal included, are the texts
  that are read after their destruction.\<close>

theorem cap_requests_guarded:
  assumes "reachable p str name wo" "0 < elsz (wf_shared wo)" "elsz (wf_shared wo) < 2 ^ 32"
    "request_uri r = str" "request_ok (wf_shared wo) r"
    "cap_state p (name @ ''.CAP'') sp" "cap_state p ''CSPOT.CAP'' sns"
  shows "serve_connection sv p [encode_cap_request c r] =
    (if granted (sv_hmac sv) sp sns c r
     then run_bind (spec_serve (pr_dead p) p name r) (\<lambda>(reply, p'). Ret (case reply of None \<Rightarrow> [] | Some m \<Rightarrow> [m], True, p'))
     else Ret ([denial (pr_dead p) r], True, p))"
  using serve_cap_request[OF assms, of sv c] by simp

text \<open>The demonstration server with a principal capability for its WooF.\<close>

definition cap_woof :: "u64 \<Rightarrow> WOOF" where
  "cap_woof secret = \<lparr>wf_shared = \<lparr>wfs_filename = ''temps.CAP'', wfs_watermark = CSPOT_WATERMARK, wfs_version = ''3.01'',
     wfs_mutex = \<lparr>sema_value = 1\<rparr>, wfs_tail_wait = \<lparr>sema_value = 2\<rparr>, wfs_seq_no = 2, wfs_history_size = 2, wfs_head = 1,
     wfs_tail = - 1, wfs_element_size = 16,
     wfs_buf = replicate 24 0 @ cap_bytes (principal_cap secret) @ le64 1 @ replicate 24 0\<rparr>, wf_ino = 4\<rparr>"

definition guarded_server :: "unit process" where
  "guarded_server = demo_server\<lparr>pr_files := (pr_files demo_server)(''/home/ns/temps.CAP'' \<mapsto> cap_woof 100)\<rparr>"

lemma cap_woof_ok:
  "usable (cap_woof secret)" "elsz (wf_shared (cap_woof secret)) = 16"
  "woof_view (wf_shared (cap_woof secret)) = [cap_bytes (principal_cap secret)]"
  by (simp_all add: usable_def cap_woof_def woof_wf_def woof_idle_def woof_count_def woof_view_def woof_slots_def
      newest_def behind_def slot_rd_def load_def)

lemma guarded_server_path: "path_of guarded_server n = ''/home/ns/'' @ n" "pr_rs guarded_server = demo_resolver"
  using demo_server_path by (simp_all add: guarded_server_def)

lemma guarded_files:
  "pr_files guarded_server ''/home/ns/temps'' = Some demo_woof"
  "pr_files guarded_server ''/home/ns/temps.CAP'' = Some (cap_woof 100)"
  "pr_files guarded_server ''/home/ns/CSPOT.CAP'' = None" "pr_files guarded_server ''/home/ns/temps.CAP.CAP'' = None"
  by (simp_all add: guarded_server_def demo_server_def demo_process_def)

lemma guarded_ok: "process_ok guarded_server"
  using demo_process_ok by (simp add: guarded_server_def demo_server_def)

lemma guarded_dead: "keeps_short (pr_dead guarded_server)"
  using demo_dead by (simp add: guarded_server_def)

lemma guarded_reachable: "reachable guarded_server temps_uri ''temps'' demo_woof"
  using demo_reachable guarded_ok unfolding reachable_def located_def holds_def
  by (simp add: demo_server_path guarded_server_path guarded_files)

lemma guarded_caps:
  "cap_state guarded_server (''temps'' @ ''.CAP'') (Some 100)" "cap_state guarded_server ''CSPOT.CAP'' None"
proof -
  have "\<not> WooFValidURI ''temps.CAP''" "\<not> WooFValidURI ''CSPOT.CAP''" by (simp_all add: WooFValidURI_def)
  then show "cap_state guarded_server (''temps'' @ ''.CAP'') (Some 100)" "cap_state guarded_server ''CSPOT.CAP'' None"
    using cap_woof_ok[of 100] guarded_ok
    by (auto simp: cap_state_def stores_cap_def holds_def guarded_server_path guarded_files intro!: exI[of _ "cap_woof 100"] WooFOpen_absent)
qed

lemma demo_woof_facts:
  "elsz (wf_shared demo_woof) = 1" "latest (wf_shared demo_woof) = 3" "woof_view (wf_shared demo_woof) = [[30], [20]]"
  using wrapped_woof_view by (simp_all add: demo_woof_def) (simp_all add: wrapped_woof_def latest_def)

lemma succ_expected: "expected succ_hmac t WCAP_READ (Some 100) = 106"
proof -
  have "level_of WCAP_READ = 5" by (simp add: level_of_def WCAP_READ_def word_le_nat_alt)
  then show ?thesis using succ_ladder[of 100 5] by (simp add: expected_def WooFCapSign_def succ_hmac_def del: ladder.simps)
qed

theorem cap_requests_guarded_witness:
  "serve_connection demo_sv guarded_server [encode_cap_request (principal_cap 106) (GetReq temps_uri 0)]
     = Ret ([[Some [30]]], True, guarded_server)
   \<and> serve_connection demo_sv guarded_server [encode_cap_request (principal_cap 100) (GetReq temps_uri 0)]
     = Ret ([[None]], True, guarded_server)"
proof -
  note e = succ_expected
  have "granted succ_hmac (Some 100) None (principal_cap 106) (GetReq temps_uri 0)"
    "\<not> granted succ_hmac (Some 100) None (principal_cap 100) (GetReq temps_uri 0)"
    using e by (simp_all add: granted_def) (simp_all add: principal_cap_def expected_def)
  then show ?thesis
    using cap_requests_guarded[OF guarded_reachable _ _ _ _ guarded_caps, of "GetReq temps_uri 0" demo_sv]
      reachable_woof(6)[OF guarded_reachable] demo_woof_facts
    by (simp add: demo_sv_def spec_serve_def spec_read_def)
qed

text \<open>C34: \<open>WooFCapInit\<close> closes a WooF. Once the CAP of a WooF was created, every request without a
  capability is refused and leaves the process as it is, and a request with one is served exactly when
  its check is the signature under a key derived from the new secret, or what the CAP of the
  namespace calls for (0 if there is none).\<close>

theorem cap_init_guards:
  assumes "reachable p str name wo" "0 < elsz (wf_shared wo)" "elsz (wf_shared wo) < 2 ^ 32"
    "request_uri r = str" "request_ok (wf_shared wo) r"
    "cap_creatable p (name @ ''.CAP'')" "mem (Suc (length (name @ ''.CAP'')))"
    "name \<noteq> ''CSPOT''" "cap_state p ''CSPOT.CAP'' sns"
  shows "\<exists>p'. WooFCapInit tr fname mem nonce p name = Ret (0, p')
    \<and> serve_connection sv p' [encode_request r] = Ret ([denial (pr_dead p) r], True, p')
    \<and> serve_connection sv p' [encode_cap_request c r] =
        (if granted (sv_hmac sv) (Some nonce) sns c r
         then run_bind (spec_serve (pr_dead p) p' name r) (\<lambda>(reply, p''). Ret (case reply of None \<Rightarrow> [] | Some m \<Rightarrow> [m], True, p''))
         else Ret ([denial (pr_dead p) r], True, p'))"
proof -
  let ?path = "path_of p (name @ ''.CAP'')"
  obtain wo' where i: "WooFCapInit tr fname mem nonce p name = Ret (0, write_back p ?path wo')"
    "stores_cap (write_back p ?path wo') (name @ ''.CAP'') nonce"
    by (rule WooFCapInit_ok[where mem = mem, OF assms(6,7)])
  let ?p = "write_back p ?path wo'"
  have r: "reachable ?p str name wo" by (rule reachable_other[OF assms(1)]) (simp add: path_of_def)
  have "?path \<noteq> path_of p ''CSPOT.CAP''" using assms(8) by (auto simp: path_of_def append_eq_append_conv[of name "''CSPOT''" "''.CAP''" "''.CAP''", simplified])
  then have "cap_state ((write_back p ?path wo')\<lparr>pr_ns := pr_ns p\<rparr>) ''CSPOT.CAP'' sns"
    using cap_state_other[of ?path p "''CSPOT.CAP''"] assms(9) by (simp add: WooFValidURI_def)
  then have ns: "cap_state ?p ''CSPOT.CAP'' sns" by (simp add: write_back_def)
  have c: "cap_state ?p (name @ ''.CAP'') (Some nonce)" using i(2) by (simp add: cap_state_def)
  obtain opened where "WooFOpen ?p (name @ ''.CAP'') = Ret (Some opened)" using attenuated_key_ok[OF i(2), of 0 "sv_hmac sv"] by auto
  then have "cap_present ?p name = Ret True" by (simp add: cap_present_def)
  moreover have "pr_dead ?p = pr_dead p" by (simp add: write_back_def)
  ultimately show ?thesis
    using i(1) plain_refused[OF r assms(4,5), of sv] serve_cap_request[OF r assms(2-5) c ns, of sv] by simp
qed

theorem cap_init_guards_witness:
  "\<exists>p'. WooFCapInit no_network [] (\<lambda>_. True) 100 demo_server ''temps'' = Ret (0, p')
    \<and> serve_connection demo_sv p' [encode_request (GetReq temps_uri 0)] = Ret ([[None]], True, p')
    \<and> serve_connection demo_sv p' [encode_cap_request (principal_cap 100) (GetReq temps_uri 0)] = Ret ([[None]], True, p')"
proof -
  have u: "\<not> WooFValidURI ''temps.CAP''" "\<not> WooFValidURI ''CSPOT.CAP''" by (simp_all add: WooFValidURI_def)
  have c: "cap_creatable demo_server (''temps'' @ ''.CAP'')"
    using u demo_process_ok[of "()"] by (simp add: cap_creatable_def demo_server_path process_ok_def) (simp add: demo_server_def demo_process_def)
  have n: "cap_state demo_server ''CSPOT.CAP'' None"
    using u by (auto simp: cap_state_def demo_server_path intro!: WooFOpen_absent) (simp add: demo_server_def)
  have "\<not> granted succ_hmac (Some 100) None (principal_cap 100) (GetReq temps_uri 0)"
    using succ_expected by (simp add: granted_def) (simp add: principal_cap_def expected_def)
  then show ?thesis
    using cap_init_guards[OF demo_reachable _ _ _ _ c _ _ n, of "GetReq temps_uri 0" "\<lambda>_. True" no_network "[]" 100 demo_sv "principal_cap 100"]
      demo_woof_facts(1)
    by (auto simp: demo_sv_def)
qed



text \<open>C37: the tail request gives away the secret. The requests for the tail and for the newest number do
  not refuse the names of CAPs, so that without a CAP for the namespace a tail request for the CAP of
  a WooF, sent by anybody and without a capability, is answered with the principal capability.\<close>

theorem tail_leaks_capability:
  assumes "located p str (name @ ''.CAP'') wo" "unprotected p (name @ ''.CAP'')" "elsz (wf_shared wo) = 16"
    "0 < wfs_head (wf_shared wo)" "hd (woof_view (wf_shared wo)) = cap_bytes (principal_cap secret)"
  shows "serve_connection sv p [encode_request (TailReq str 1)] =
    Ret ([[Some (c_bytes (pr_dead p ''1'')), Some (cap_bytes (principal_cap secret))]], True, p)"
proof -
  let ?w = "wf_shared wo"
  have h: "1 \<le> unat (wfs_head ?w)" using assms(4) by (simp add: word_less_nat_alt)
  then have ok: "request_ok ?w (TailReq str 1)" using assms(3) by simp
  have "woof_view ?w \<noteq> []" using h head_le_count[OF located_woof(1)[OF assms(1)]] by (metis length_woof_view list.size(3) not_one_le_zero order_trans)
  then have t: "take 1 (woof_view ?w) = [cap_bytes (principal_cap secret)]" using assms(5) by (cases "woof_view ?w") auto
  have d: "decimal 1 = ''1''" by code_simp
  have "strtol (decimal 4) = (4, [])" using strtol_decimal[of 4] by simp
  then show ?thesis
    using serve_tail[OF assms(1) ok, of True] unprotected_open(3)[OF assms(1,2)] located_woof(6)[OF assms(1)] t d
    by (simp add: encode_request_def frame_string_def dispatch_def spec_serve_def)
qed

theorem tail_leaks_capability_witness:
  "serve_connection demo_sv guarded_server [encode_request (TailReq (temps_uri @ ''.CAP'') 1)] =
    Ret ([[Some (c_bytes ''1''), Some (cap_bytes (principal_cap 100))]], True, guarded_server)"
proof -
  have "names_woof demo_resolver (temps_uri @ ''.CAP'') ''/home/ns'' (''temps'' @ ''.CAP'')"
    by (simp add: names_woof_def uri_path_of_def demo_resolver_def WooFValidURI_def NUL_def)
  moreover have "holds guarded_server (''temps'' @ ''.CAP'') (cap_woof 100)"
    using guarded_ok cap_woof_ok(1)[of 100] by (simp add: holds_def guarded_server_path guarded_files WooFValidURI_def)
  ultimately have l: "located guarded_server (temps_uri @ ''.CAP'') (''temps'' @ ''.CAP'') (cap_woof 100)"
    by (auto simp: located_def guarded_server_path NUL_def)
  have u: "unprotected guarded_server (''temps'' @ ''.CAP'')"
    using guarded_files(3,4) by (simp add: unprotected_def guarded_server_path)
  have "0 < wfs_head (wf_shared (cap_woof 100))" by (simp add: cap_woof_def)
  moreover have "pr_dead guarded_server ''1'' = ''1''" using guarded_dead by (simp add: keeps_short_def)
  ultimately show ?thesis using cap_woof_ok(2,3)[of 100] tail_leaks_capability[OF l u, of 100 demo_sv] by simp
qed

end
