(* ===== verification/Keychain.thy ===== *)
theory Keychain
  imports C_Strings Caplets
begin

text \<open>
  The keychain of a client (\<^verbatim>\<open>src/src/caplets/woofc-keychain.c\<close>): a YAML file of capabilities, the
  search for the capability of a WooF or namespace in it, and the choice of the file. The printing
  of a capability (\<^verbatim>\<open>src/src/caplets/woofc-caplets.c\<close>) is the other side of the search: what is
  printed is found again.
\<close>

section \<open>Lines\<close>

text \<open>The functions work in place on a C string; the model returns the string they leave.\<close>

definition trim_space :: "string \<Rightarrow> string" where
  "trim_space text = rev (dropWhile is_space (rev (dropWhile is_space text)))"

text \<open>
  The loop of \<open>remove_yaml_comment\<close>: the flags are \<open>in_single_quote\<close>, \<open>in_double_quote\<close> and \<open>escaped\<close>,
  and \<open>start\<close> says that the previous character is a space or that there is none.
\<close>

fun comment_loop :: "bool \<Rightarrow> bool \<Rightarrow> bool \<Rightarrow> bool \<Rightarrow> string \<Rightarrow> string" where
  "comment_loop sq dq esc start [] = []"
| "comment_loop sq dq esc start (c # s) =
     (if esc then c # comment_loop sq dq False (is_space c) s
      else if c = CHR 0x5C \<and> dq then c # comment_loop sq dq True (is_space c) s
      else if c = CHR 0x27 \<and> \<not> dq then c # comment_loop (\<not> sq) dq False (is_space c) s
      else if c = CHR 0x22 \<and> \<not> sq then c # comment_loop sq (\<not> dq) False (is_space c) s
      else if c = CHR ''#'' \<and> \<not> sq \<and> \<not> dq \<and> start then []
      else c # comment_loop sq dq False (is_space c) s)"

definition remove_yaml_comment :: "string \<Rightarrow> string" where
  "remove_yaml_comment text = comment_loop False False False True text"

definition remove_scalar_quotes :: "string \<Rightarrow> string" where
  "remove_scalar_quotes text0 =
     (let text = trim_space text0; n = length text in
      if 2 \<le> n \<and> (hd text = CHR 0x22 \<and> last text = CHR 0x22 \<or> hd text = CHR 0x27 \<and> last text = CHR 0x27)
      then butlast (tl text) else text)"

definition split_key_value :: "string \<Rightarrow> (string \<times> string) option" where
  "split_key_value line0 =
     (let line1 = trim_space line0;
          line = (if c_at line1 0 = CHR ''-'' then trim_space (tl line1) else line1)
      in if CHR '':'' \<notin> set line then None
         else let key = trim_space (takeWhile (\<lambda>c. c \<noteq> CHR '':'') line);
                  value = trim_space (tl (dropWhile (\<lambda>c. c \<noteq> CHR '':'') line))
              in if key = [] then None else Some (key, value))"

section \<open>Numbers\<close>

definition hex_value :: "char \<Rightarrow> nat option" where
  "hex_value c = (let n = (of_char c :: nat) in
     if 48 \<le> n \<and> n \<le> 57 then Some (n - 48)
     else if 97 \<le> n \<and> n \<le> 102 then Some (n - 87)
     else if 65 \<le> n \<and> n \<le> 70 then Some (n - 55) else None)"

fun scan_hex :: "nat \<Rightarrow> string \<Rightarrow> nat \<times> string" where
  "scan_hex acc [] = (acc, [])"
| "scan_hex acc (c # s) = (case hex_value c of None \<Rightarrow> (acc, c # s) | Some d \<Rightarrow> scan_hex (16 * acc + d) s)"

text \<open>The prefix \<^verbatim>\<open>0x\<close> that \<^verbatim>\<open>strtoul\<close> skips in base 16, when a digit follows it.\<close>

definition skip_0x :: "string \<Rightarrow> string" where
  "skip_0x t = (if c_at t 0 = CHR ''0'' \<and> (c_at t 1 = CHR ''x'' \<or> c_at t 1 = CHR ''X'') \<and> hex_value (c_at t 2) \<noteq> None
     then drop 2 t else t)"

text \<open>The value of a scanned number, with its sign, or \<open>None\<close> for \<^verbatim>\<open>ERANGE\<close>.\<close>

definition ulong_of :: "bool \<Rightarrow> nat \<Rightarrow> u64 option" where
  "ulong_of neg v = (if 2 ^ 64 \<le> v then None else Some (if neg then - of_nat v else of_nat v))"

definition parse_permission_value :: "string \<Rightarrow> u32 option" where
  "parse_permission_value text =
     (let (neg, t) = scan_sign text; u = skip_0x t; (v, end) = scan_hex 0 u in
      if end = u then None
      else case ulong_of neg v of
        None \<Rightarrow> None
      | Some value \<Rightarrow> if trim_space end \<noteq> [] \<or> 0xFFFFFFFF < value then None else Some (ucast value))"

definition parse_check_value :: "string \<Rightarrow> u64 option" where
  "parse_check_value text =
     (let (neg, t) = scan_sign text; (v, end) = scan_digits 0 t in
      if end = t then None
      else case ulong_of neg v of
        None \<Rightarrow> None
      | Some value \<Rightarrow> if trim_space end \<noteq> [] then None else Some value)"

section \<open>Searching\<close>

record keychain_state =
  current_name :: string
  current_permissions :: u32
  current_check :: u64
  in_record :: bool
  have_name :: bool
  have_permissions :: bool
  have_check :: bool

definition keychain0 :: keychain_state where
  "keychain0 = \<lparr>current_name = [], current_permissions = 0, current_check = 0, in_record = False,
     have_name = False, have_permissions = False, have_check = False\<rparr>"

datatype keychain_step = Continue keychain_state | Break | Found WCAP

text \<open>The end of the loop body: a complete record of the name is the result.\<close>

definition complete :: "string \<Rightarrow> keychain_state \<Rightarrow> keychain_step" where
  "complete woof_name k =
     (if have_name k \<and> have_permissions k \<and> have_check k \<and> current_name k = woof_name
      then Found \<lparr>permissions = current_permissions k, flags = 0, frame_size = 0, check = current_check k\<rparr>
      else Continue k)"

text \<open>The fields of the record that a line is about.\<close>

definition keychain_field :: "string \<Rightarrow> keychain_state \<Rightarrow> string \<Rightarrow> string \<Rightarrow> keychain_step" where
  "keychain_field woof_name k key value =
     (if (key = ''woof'' \<or> key = ''namespace'') \<and> value = [] then
        Continue (k\<lparr>in_record := True, have_name := False, have_permissions := False, have_check := False, current_name := []\<rparr>)
      else if (key = ''woofs'' \<or> key = ''namespaces'') \<and> value = [] then
        Continue (k\<lparr>in_record := False, have_name := False, have_permissions := False, have_check := False, current_name := []\<rparr>)
      else if key = ''name'' then
        (let k1 = k\<lparr>in_record := True, have_permissions := False, have_check := False\<rparr> in
         if value = [] \<or> 4096 \<le> length value then Continue (k1\<lparr>have_name := False, current_name := []\<rparr>)
         else Continue (k1\<lparr>current_name := value, have_name := True\<rparr>))
      else if \<not> in_record k then Continue k
      else if key = ''permissions'' then
        (case parse_permission_value value of
           None \<Rightarrow> Continue (k\<lparr>have_permissions := False\<rparr>)
         | Some v \<Rightarrow> complete woof_name (k\<lparr>current_permissions := v, have_permissions := True\<rparr>))
      else if key = ''check'' then
        (case parse_check_value value of
           None \<Rightarrow> Continue (k\<lparr>have_check := False\<rparr>)
         | Some v \<Rightarrow> complete woof_name (k\<lparr>current_check := v, have_check := True\<rparr>))
      else Continue k)"

definition keychain_line :: "string \<Rightarrow> keychain_state \<Rightarrow> string \<Rightarrow> keychain_step" where
  "keychain_line woof_name k line =
     (let text = trim_space (remove_yaml_comment line) in
      if text = [] \<or> text = ''---'' then Continue k
      else if text = ''...'' then Break
      else case split_key_value text of
        None \<Rightarrow> Continue k
      | Some (key, value) \<Rightarrow> keychain_field woof_name k key (remove_scalar_quotes value))"

text \<open>
  \<^verbatim>\<open>fgets\<close> into a buffer of \<open>n\<close> bytes: the characters up to the first newline, at most \<open>n - 1\<close>, and
  what is left of the file. The C string in the buffer ends at a NUL among them.
\<close>

fun fgets :: "nat \<Rightarrow> string \<Rightarrow> string \<times> string" where
  "fgets n [] = ([], [])"
| "fgets n (c # s) =
     (if n \<le> 1 then ([], c # s)
      else if c = CHR 0x0A then ([c], s)
      else let (line, rest) = fgets (n - 1) s in (c # line, rest))"

lemma fgets_split: "fgets n s = (line, rest) \<Longrightarrow> s = line @ rest"
  by (induction n s arbitrary: line rule: fgets.induct) (auto split: if_splits prod.splits)

lemma fgets_progress: "(line, rest) = fgets 8192 (c # s) \<Longrightarrow> length rest < Suc (length s)"
  by (auto split: prod.splits if_splits dest: fgets_split)

text \<open>
  The loop of \<open>SearchKeychain\<close> over the rest of the file. A line without a newline that fills the
  buffer is too long: the end of the file has not been met.
\<close>

function search_loop :: "string \<Rightarrow> keychain_state \<Rightarrow> string \<Rightarrow> WCAP option" where
  "search_loop woof_name k [] = None"
| "search_loop woof_name k (c # s) =
     (let (raw, rest) = fgets 8192 (c # s); line = takeWhile (\<lambda>c. c \<noteq> NUL) raw in
      if CHR 0x0A \<notin> set line \<and> (CHR 0x0A \<in> set raw \<or> length raw = 8191) then None
      else case keychain_line woof_name k line of
        Continue k' \<Rightarrow> search_loop woof_name k' rest
      | Break \<Rightarrow> None
      | Found cap \<Rightarrow> Some cap)"
  by pat_completeness auto
termination
  by (relation "measure (\<lambda>(w, k, s). length s)") (auto dest: fgets_progress simp del: fgets.simps)

declare search_loop.simps [simp del]

text \<open>The file is the contents of the file of that name, if it can be opened.\<close>

definition SearchKeychain :: "string option \<Rightarrow> string \<Rightarrow> WCAP option" where
  "SearchKeychain file woof_name = (case file of None \<Rightarrow> None | Some s \<Rightarrow> search_loop woof_name keychain0 s)"

section \<open>The file\<close>

text \<open>A file that can be read: its mode and its contents.\<close>

record cap_file =
  cf_mode :: u32
  cf_text :: string

definition S_IRUSR :: u32 where "S_IRUSR = 0x100"
definition S_IRGRP :: u32 where "S_IRGRP = 0x20"
definition S_IWGRP :: u32 where "S_IWGRP = 0x10"
definition S_IXGRP :: u32 where "S_IXGRP = 0x8"
definition S_IROTH :: u32 where "S_IROTH = 0x4"
definition S_IWOTH :: u32 where "S_IWOTH = 0x2"
definition S_IXOTH :: u32 where "S_IXOTH = 0x1"

text \<open>The test of the mode as written, with \<open>S_IROTH\<close> twice.\<close>

definition private_mode :: "u32 \<Rightarrow> bool" where
  "private_mode m \<longleftrightarrow> m AND S_IRUSR \<noteq> 0
     \<and> m AND (S_IRGRP OR S_IWGRP OR S_IXGRP OR S_IROTH OR S_IWOTH OR S_IROTH) = 0"

text \<open>
  The file system gives what \<^verbatim>\<open>access\<close> and \<^verbatim>\<open>stat\<close> find at a path. The name is copied into a buffer
  of \<open>bufsz\<close> bytes; the path in the home directory is cut at 1023 characters.
\<close>

definition WooFCapFile :: "(string \<Rightarrow> cap_file option) \<Rightarrow> string option \<Rightarrow> nat \<Rightarrow> int \<times> string" where
  "WooFCapFile fs home bufsz =
     (let ok = (\<lambda>path. case fs path of None \<Rightarrow> False | Some f \<Rightarrow> private_mode (cf_mode f));
          found1 = (if ok ''./capabilities.yaml'' then (1, take (bufsz - 1) ''./capabilities.yaml'') else (0, []))
      in case home of
           None \<Rightarrow> found1
         | Some home_dir \<Rightarrow>
             let file_path = take 1023 (home_dir @ ''/.cspot/capabilities.yaml'')
             in if ok file_path then (1, take (bufsz - 1) file_path) else found1)"

section \<open>Printing\<close>

definition hex_digit :: "nat \<Rightarrow> char" where
  "hex_digit d = (if d < 10 then char_of (48 + d) else char_of (87 + d))"

text \<open>The last \<open>k\<close> hexadecimal digits of a number, and \<^verbatim>\<open>%8.8x\<close>.\<close>

primrec hex_digits :: "nat \<Rightarrow> nat \<Rightarrow> string" where
  "hex_digits 0 n = []"
| "hex_digits (Suc k) n = hex_digits k (n div 16) @ [hex_digit (n mod 16)]"

definition hex8 :: "u32 \<Rightarrow> string" where
  "hex8 w = hex_digits 8 (unat w)"

definition print_fields :: "string \<Rightarrow> WCAP \<Rightarrow> string" where
  "print_fields woof_name cap =
     ''  name: '' @ woof_name @ [CHR 0x0A] @ ''  permissions: '' @ hex8 (permissions cap) @ [CHR 0x0A]
     @ ''  check: '' @ to_string (check cap) @ [CHR 0x0A]"

definition WooFCapPrint :: "string \<Rightarrow> WCAP \<Rightarrow> string" where
  "WooFCapPrint woof_name cap = ''woof:'' @ [CHR 0x0A] @ print_fields woof_name cap"

definition WooFNamespaceCapPrint :: "string \<Rightarrow> WCAP \<Rightarrow> string" where
  "WooFNamespaceCapPrint woof_name cap = ''namespace:'' @ [CHR 0x0A] @ print_fields woof_name cap"

section \<open>What is printed is read back\<close>

lemma fgets_line: "CHR 0x0A \<notin> set l \<Longrightarrow> Suc (length l) < n \<Longrightarrow> fgets n (l @ CHR 0x0A # s) = (l @ [CHR 0x0A], s)"
  by (induction l arbitrary: n) auto

lemma search_line:
  assumes "CHR 0x0A \<notin> set l" "NUL \<notin> set l" "length l < 8190"
  shows "search_loop w k (l @ CHR 0x0A # s) = (case keychain_line w k (l @ [CHR 0x0A]) of
    Continue k' \<Rightarrow> search_loop w k' s | Break \<Rightarrow> None | Found cap \<Rightarrow> Some cap)"
proof -
  obtain c t where ct: "l @ CHR 0x0A # s = c # t" by (cases l) auto
  have g: "fgets 8192 (c # t) = (l @ [CHR 0x0A], s)" using fgets_line[OF assms(1), of 8192 s] assms(3) unfolding ct by (simp del: fgets.simps)
  have "takeWhile (\<lambda>c. c \<noteq> NUL) (l @ [CHR 0x0A]) = l @ [CHR 0x0A]"
    using assms(2) by (auto simp: takeWhile_eq_all_conv NUL_def)
  then show ?thesis unfolding ct search_loop.simps(2) g by simp
qed

lemma comment_none:
  "CHR ''#'' \<notin> set s \<Longrightarrow> CHR 0x22 \<notin> set s \<Longrightarrow> CHR 0x27 \<notin> set s \<Longrightarrow> comment_loop False False False b s = s"
  by (induction s arbitrary: b) auto

lemma dropWhile_prefix: "\<forall>c\<in>set a. P c \<Longrightarrow> t = [] \<or> \<not> P (hd t) \<Longrightarrow> dropWhile P (a @ t) = t"
  by (induction a) (cases t, auto)+

lemma trim_space_pad:
  assumes "\<forall>c\<in>set a. is_space c" "\<forall>c\<in>set b. is_space c" "t = [] \<or> \<not> is_space (hd t) \<and> \<not> is_space (last t)"
  shows "trim_space (a @ t @ b) = t"
proof (cases "t = []")
  case True
  then have "\<forall>c\<in>set (a @ t @ b). is_space c" using assms(1,2) by auto
  then have "dropWhile is_space (a @ t @ b) = []" by (simp only: dropWhile_eq_Nil_conv)
  then show ?thesis using True by (simp only: trim_space_def) simp
next
  case False
  then have "dropWhile is_space (a @ t @ b) = t @ b" using assms(1,3) by (intro dropWhile_prefix) auto
  moreover have "dropWhile is_space (rev b @ rev t) = rev t"
    using assms(2,3) False by (intro dropWhile_prefix) (auto simp: hd_rev)
  ultimately show ?thesis by (simp add: trim_space_def)
qed

text \<open>Characters that a line can carry without being taken for layout, quotes or comments.\<close>

definition plain :: "string \<Rightarrow> bool" where
  "plain s \<longleftrightarrow> (\<forall>c\<in>set s. \<not> is_space c \<and> c \<notin> {NUL, CHR ''#'', CHR 0x22, CHR 0x27})"

lemma plain_ends: "plain s \<Longrightarrow> s = [] \<or> \<not> is_space (hd s) \<and> \<not> is_space (last s)"
  unfolding plain_def by (metis hd_in_set last_in_set)

lemma plain_newline: "plain s \<Longrightarrow> CHR 0x0A \<notin> set s"
proof -
  have "is_space (CHR 0x0A)" by (simp add: is_space_def)
  then show "plain s \<Longrightarrow> CHR 0x0A \<notin> set s" unfolding plain_def by blast
qed

lemma plain_quotes: "plain s \<Longrightarrow> remove_scalar_quotes s = s"
proof -
  assume p: "plain s"
  then have t: "trim_space s = s" using trim_space_pad[of "[]" "[]" s] plain_ends[of s] by simp
  have "2 \<le> length s \<Longrightarrow> hd s \<in> set s" by (cases s) auto
  then have "2 \<le> length s \<Longrightarrow> hd s \<noteq> CHR 0x22 \<and> hd s \<noteq> CHR 0x27" using p unfolding plain_def by blast
  then show ?thesis unfolding remove_scalar_quotes_def t Let_def by auto
qed

lemma key_split:
  assumes "CHR '':'' \<notin> set key"
  shows "takeWhile (\<lambda>c. c \<noteq> CHR '':'') (key @ CHR '':'' # t) = key"
    "tl (dropWhile (\<lambda>c. c \<noteq> CHR '':'') (key @ CHR '':'' # t)) = t"
  using assms by (induction key) auto

lemma plain_trim: "plain s \<Longrightarrow> trim_space s = s" "plain s \<Longrightarrow> trim_space (CHR '' '' # s) = s"
  using trim_space_pad[of "[]" "[]" s] trim_space_pad[of "'' ''" "[]" s] plain_ends[of s]
  by (auto simp: is_space_def)

lemma split_field:
  assumes "plain key" "key \<noteq> []" "CHR '':'' \<notin> set key" "hd key \<noteq> CHR ''-''"
    "value = [] \<and> sep = [] \<or> value \<noteq> [] \<and> sep = '' ''" "plain value"
  shows "split_key_value (key @ '':'' @ sep @ value) = Some (key, value)"
proof -
  have colon: "\<not> is_space (CHR '':'')" by (simp add: is_space_def)
  let ?line = "key @ CHR '':'' # sep @ value"
  have "\<not> is_space (hd ?line)" using plain_ends[OF assms(1)] assms(2) by simp
  moreover have "\<not> is_space (last ?line)" using plain_ends[OF assms(6)] assms(5) colon by auto
  ultimately have t: "trim_space ?line = ?line" using trim_space_pad[of "[]" "[]" ?line] by simp
  have "c_at ?line 0 \<noteq> CHR ''-''" using assms(2,4) by (cases key) (auto simp: c_at_def)
  moreover have "trim_space (sep @ value) = value" using assms(5) plain_trim[OF assms(6)] by auto
  ultimately show ?thesis
    using assms(2) plain_trim(1)[OF assms(1)] key_split[OF assms(3)] by (simp add: split_key_value_def t)
qed

text \<open>A line with a key and a value, indented and ended as the printer does.\<close>

lemma line_field:
  assumes "plain key" "key \<noteq> []" "CHR '':'' \<notin> set key" "hd key \<noteq> CHR ''-''"
    "value = [] \<and> sep = [] \<or> value \<noteq> [] \<and> sep = '' ''" "plain value" "set pad \<subseteq> {CHR '' ''}"
  shows "keychain_line w k (pad @ key @ '':'' @ sep @ value @ [CHR 0x0A]) = keychain_field w k key value"
proof -
  let ?text = "key @ '':'' @ sep @ value"
  have sp: "is_space (CHR '' '')" "is_space (CHR 0x0A)" "\<not> is_space (CHR '':'')" by (simp_all add: is_space_def)
  have quiet: "CHR ''#'' \<notin> set key \<and> CHR 0x22 \<notin> set key \<and> CHR 0x27 \<notin> set key"
    "CHR ''#'' \<notin> set value \<and> CHR 0x22 \<notin> set value \<and> CHR 0x27 \<notin> set value"
    using assms(1,6) unfolding plain_def by blast+
  have seps: "set sep \<subseteq> {CHR '' ''}" using assms(5) by auto
  have c: "remove_yaml_comment (pad @ ?text @ [CHR 0x0A]) = pad @ ?text @ [CHR 0x0A]"
    unfolding remove_yaml_comment_def by (rule comment_none) (use quiet seps assms(7) in auto)
  have "\<not> is_space (hd ?text)" using plain_ends[OF assms(1)] assms(2) by simp
  moreover have "\<not> is_space (last ?text)" using plain_ends[OF assms(6)] assms(5) sp(3) by auto
  ultimately have ends: "?text = [] \<or> \<not> is_space (hd ?text) \<and> \<not> is_space (last ?text)" by blast
  have "\<forall>c\<in>set pad. is_space c" "\<forall>c\<in>set [CHR 0x0A]. is_space c" using assms(7) sp(1,2) by auto
  from trim_space_pad[OF this ends] have t: "trim_space (remove_yaml_comment (pad @ ?text @ [CHR 0x0A])) = ?text"
    unfolding c .
  have "hd ?text \<noteq> CHR ''-''" using assms(2,4) by simp
  then have ne: "?text \<noteq> ''---''" by (metis list.sel(1))
  have "CHR '':'' \<in> set ?text" by simp
  moreover have "CHR '':'' \<notin> set ''...''" by simp
  ultimately have ne': "?text \<noteq> ''...''" by metis
  show ?thesis
    unfolding keychain_line_def Let_def
    using t ne ne' split_field[OF assms(1-6)] plain_quotes[OF assms(6)] by simp
qed

lemma hex_value_digit [simp]: "d < 16 \<Longrightarrow> hex_value (hex_digit d) = Some d"
  by (simp add: hex_digit_def hex_value_def of_char_of Let_def)

lemma hex_digit_code:
  assumes "d < 16"
  shows "(of_char (hex_digit d) :: nat) = (if d < 10 then 48 + d else 87 + d)"
  using assms by (simp add: hex_digit_def of_char_of)

lemma scan_hex_digits:
  "n < 16 ^ k \<Longrightarrow> scan_hex acc (hex_digits k n @ t) = scan_hex (16 ^ k * acc + n) t"
proof (induction k arbitrary: n t)
  case (Suc k)
  then have "n div 16 < 16 ^ k" by (simp add: less_mult_imp_div_less mult.commute)
  then show ?case using Suc.IH[of "n div 16" "hex_digit (n mod 16) # t"] by (simp add: algebra_simps)
qed simp

lemma set_hex_digits: "c \<in> set (hex_digits k n) \<Longrightarrow> \<exists>d < 16. c = hex_digit d"
  by (induction k arbitrary: n) (auto intro: exI[of _ "_ mod 16"])

lemma length_hex_digits [simp]: "length (hex_digits k n) = k"
  by (induction k arbitrary: n) auto

lemma hex_digit_quiet:
  assumes "d < 16"
  shows "\<not> is_space (hex_digit d)" "hex_digit d \<notin> {CHR ''-'', CHR ''+'', CHR ''x'', CHR ''X'', NUL, CHR ''#'', CHR 0x22, CHR 0x27}"
proof -
  have code: "(of_char (hex_digit d) :: nat) = (if d < 10 then 48 + d else 87 + d)" using hex_digit_code[OF assms] .
  show "\<not> is_space (hex_digit d)" using code assms by (auto simp: is_space_def)
  show "hex_digit d \<notin> {CHR ''-'', CHR ''+'', CHR ''x'', CHR ''X'', NUL, CHR ''#'', CHR 0x22, CHR 0x27}"
  proof
    assume "hex_digit d \<in> {CHR ''-'', CHR ''+'', CHR ''x'', CHR ''X'', NUL, CHR ''#'', CHR 0x22, CHR 0x27}"
    then have "(of_char (hex_digit d) :: nat) \<in> {45, 43, 120, 88, 0, 35, 34, 39}" by (auto simp: NUL_def)
    then show False using assms unfolding code by (auto split: if_splits)
  qed
qed

lemma plain_hex8: "plain (hex8 w)"
proof -
  have "\<not> is_space c \<and> c \<notin> {NUL, CHR ''#'', CHR 0x22, CHR 0x27}" if c: "c \<in> set (hex8 w)" for c
  proof -
    obtain d where "d < 16" "c = hex_digit d" using set_hex_digits[of c 8 "unat w"] c by (auto simp: hex8_def)
    then show ?thesis using hex_digit_quiet[of d] by simp
  qed
  then show ?thesis unfolding plain_def by blast
qed

lemma hex8_head:
  obtains a b t where "hex8 w = a # b # t" "a \<notin> {CHR ''-'', CHR ''+''}" "\<not> is_space a" "b \<notin> {CHR ''x'', CHR ''X''}"
proof -
  have "length (hex8 w) = 8" by (simp add: hex8_def)
  then obtain a b t where ab: "hex8 w = a # b # t" by (cases "hex8 w"; cases "tl (hex8 w)") auto
  then have "a \<in> set (hex8 w)" "b \<in> set (hex8 w)" by auto
  then obtain d e where "d < 16" "a = hex_digit d" "e < 16" "b = hex_digit e"
    using set_hex_digits unfolding hex8_def by meson
  then show thesis using that[OF ab] hex_digit_quiet[of d] hex_digit_quiet[of e] by simp
qed

lemma parse_hex8 [simp]: "parse_permission_value (hex8 w) = Some w"
proof -
  have lt: "unat w < 2 ^ 32" using unsigned_less[of w, where 'a = nat] by simp
  obtain a b t where h: "hex8 w = a # b # t" "a \<notin> {CHR ''-'', CHR ''+''}" "\<not> is_space a" "b \<notin> {CHR ''x'', CHR ''X''}"
    by (rule hex8_head)
  have scan: "scan_hex 0 (hex8 w) = (unat w, [])" using scan_hex_digits[of "unat w" 8 0 "[]"] lt by (simp add: hex8_def)
  have sign: "scan_sign (hex8 w) = (False, hex8 w)" using h by (simp add: scan_sign_def c_at_def Let_def)
  have skip: "skip_0x (hex8 w) = hex8 w" using h by (auto simp: skip_0x_def c_at_def)
  have ul: "ulong_of False (unat w) = Some (ucast w)" using lt by (simp add: ulong_of_def)
  have small: "\<not> 0xFFFFFFFF < (ucast w :: u64)"
    using lt by (simp add: word_less_nat_alt unsigned_ucast_eq take_bit_nat_eq_self)
  have same: "ucast (ucast w :: u64) = w" by (rule bit_word_eqI) (auto simp: bit_simps)
  show ?thesis unfolding parse_permission_value_def sign Let_def prod.case skip scan using ul small same h(1) by (simp add: trim_space_def)
qed

lemma parse_check_decimal [simp]: "parse_check_value (to_string w) = Some w"
  using scan_sign_decimal[of "unat w" "[]"] scan_decimal[of "unat w"] unsigned_less[of w, where 'a = nat] decimal_not_Nil[of "unat w"]
  by (simp add: parse_check_value_def to_string_def ulong_of_def trim_space_def)

lemma plain_decimal: "plain (to_string w)"
proof -
  have "\<not> is_space c \<and> c \<notin> {NUL, CHR ''#'', CHR 0x22, CHR 0x27}" if "c \<in> set (to_string w)" for c
  proof -
    have "is_digit c" using that decimal_digits by (simp add: to_string_def)
    then show ?thesis using digit_not_special[of c] by (auto simp: is_digit_def)
  qed
  then show ?thesis unfolding plain_def by blast
qed

lemma search_field:
  assumes "plain key" "key \<noteq> []" "CHR '':'' \<notin> set key" "hd key \<noteq> CHR ''-''"
    "value = [] \<and> sep = [] \<or> value \<noteq> [] \<and> sep = '' ''" "plain value" "set pad \<subseteq> {CHR '' ''}"
    "length pad + length key + length value < 8180"
  shows "search_loop w k (pad @ key @ '':'' @ sep @ value @ CHR 0x0A # s) = (case keychain_field w k key value of
    Continue k' \<Rightarrow> search_loop w k' s | Break \<Rightarrow> None | Found cap \<Rightarrow> Some cap)"
proof -
  let ?l = "pad @ key @ '':'' @ sep @ value"
  have nl: "CHR 0x0A \<notin> set ?l" using plain_newline[OF assms(1)] plain_newline[OF assms(6)] assms(5,7) by auto
  have "NUL \<notin> set key" "NUL \<notin> set value" using assms(1,6) unfolding plain_def by blast+
  moreover have "NUL \<noteq> CHR '':''" "NUL \<noteq> CHR '' ''" by (simp_all add: NUL_def)
  ultimately have nul: "NUL \<notin> set ?l" using assms(5,7) by auto
  have "length ?l < 8190" using assms(5,8) by auto
  from search_line[OF nl nul this, of w k s] line_field[OF assms(1-7), of w k] show ?thesis by simp
qed

definition keychain_name :: "string \<Rightarrow> bool" where
  "keychain_name n \<longleftrightarrow> plain n \<and> n \<noteq> [] \<and> length n < 4096"

lemma plain_keys:
  "plain ''woof''" "plain ''namespace''" "plain ''name''" "plain ''permissions''" "plain ''check''"
  by (simp_all add: plain_def is_space_def NUL_def)

text \<open>What the search returns of a capability: the permissions and the check.\<close>

definition stored :: "WCAP \<Rightarrow> WCAP" where
  "stored cap = cap\<lparr>flags := 0, frame_size := 0\<rparr>"

lemma stored_fields: "\<lparr>permissions = permissions cap, flags = 0, frame_size = 0, check = check cap\<rparr> = stored cap"
  by (cases cap) (simp add: stored_def)

lemma search_fields:
  assumes "keychain_name n"
  shows "\<exists>k'. search_loop w k (print_fields n cap @ s) = (if n = w then Some (stored cap) else search_loop w k' s)"
proof -
  have n: "plain n" "n \<noteq> []" "length n < 4096" using assms by (simp_all add: keychain_name_def)
  have h: "length (hex8 (permissions cap)) = 8" by (simp add: hex8_def)
  then have "hex8 (permissions cap) \<noteq> []" by (metis list.size(3) zero_neq_numeral)
  note h = this h
  have d: "to_string (check cap) \<noteq> []" "length (to_string (check cap)) \<le> 20"
    using decimal_not_Nil length_to_string by (auto simp: to_string_def)
  let ?k1 = "k\<lparr>in_record := True, have_permissions := False, have_check := False, current_name := n, have_name := True\<rparr>"
  let ?k2 = "?k1\<lparr>current_permissions := permissions cap, have_permissions := True\<rparr>"
  let ?k3 = "?k2\<lparr>current_check := check cap, have_check := True\<rparr>"
  let ?s2 = "''  check: '' @ to_string (check cap) @ CHR 0x0A # s"
  let ?s1 = "''  permissions: '' @ hex8 (permissions cap) @ CHR 0x0A # ?s2"
  have "keychain_field w k ''name'' n = Continue ?k1" using n by (simp add: keychain_field_def Let_def)
  then have 1: "search_loop w k (print_fields n cap @ s) = search_loop w ?k1 ?s1"
    using search_field[of "''name''" n "'' ''" "''  ''" w k ?s1] plain_keys(3) n by (simp add: print_fields_def)
  have "keychain_field w ?k1 ''permissions'' (hex8 (permissions cap)) = Continue ?k2"
    by (simp add: keychain_field_def complete_def)
  then have 2: "search_loop w ?k1 ?s1 = search_loop w ?k2 ?s2"
    using search_field[of "''permissions''" "hex8 (permissions cap)" "'' ''" "''  ''" w ?k1 ?s2] plain_keys(4) plain_hex8 h by simp
  have "keychain_field w ?k2 ''check'' (to_string (check cap)) = (if n = w then Found (stored cap) else Continue ?k3)"
    by (simp add: keychain_field_def complete_def stored_fields)
  then have "search_loop w ?k2 ?s2 = (if n = w then Some (stored cap) else search_loop w ?k3 s)"
    using search_field[of "''check''" "to_string (check cap)" "'' ''" "''  ''" w ?k2 s] plain_keys(5) plain_decimal d by simp
  then show ?thesis unfolding 1 2 by blast
qed

definition print_entry :: "bool \<times> string \<times> WCAP \<Rightarrow> string" where
  "print_entry e = (case e of (is_namespace, n, cap) \<Rightarrow>
     if is_namespace then WooFNamespaceCapPrint n cap else WooFCapPrint n cap)"

lemma search_entry:
  assumes "keychain_name n"
  shows "\<exists>k'. search_loop w k (print_entry (b, n, cap) @ s) = (if n = w then Some (stored cap) else search_loop w k' s)"
proof -
  let ?h = "if b then ''namespace'' else ''woof''"
  let ?k = "k\<lparr>in_record := True, have_name := False, have_permissions := False, have_check := False, current_name := []\<rparr>"
  have "keychain_field w k ?h [] = Continue ?k" by (simp add: keychain_field_def)
  then have "search_loop w k (print_entry (b, n, cap) @ s) = search_loop w ?k (print_fields n cap @ s)"
    using search_field[of ?h "[]" "[]" "[]" w k "print_fields n cap @ s"] plain_keys(1,2)
    by (simp add: print_entry_def WooFCapPrint_def WooFNamespaceCapPrint_def plain_def split: if_splits)
  then show ?thesis using search_fields[OF assms, of w ?k cap s] by simp
qed

lemma search_entries:
  assumes "\<forall>e\<in>set es. keychain_name (fst (snd e))"
  shows "search_loop w k (concat (map print_entry es)) = map_option stored (map_of (map snd es) w)"
  using assms
proof (induction es arbitrary: k)
  case Nil
  then show ?case by (simp add: search_loop.simps)
next
  case (Cons e es)
  obtain b n cap where e: "e = (b, n, cap)" by (cases e) auto
  then have "keychain_name n" using Cons.prems by simp
  then obtain k' where "search_loop w k (print_entry e @ concat (map print_entry es))
      = (if n = w then Some (stored cap) else search_loop w k' (concat (map print_entry es)))"
    using search_entry unfolding e by blast
  then show ?case using Cons.IH[of k'] Cons.prems by (simp add: e)
qed

text \<open>C14: a keychain file made of printed capabilities, of WooFs and namespaces in any order, gives
  for a name the first capability printed for it, with its permissions and its check, and nothing
  for a name that was not printed.\<close>

theorem keychain_roundtrip:
  assumes "\<forall>e\<in>set es. keychain_name (fst (snd e))"
  shows "SearchKeychain (Some (concat (map print_entry es))) w = map_option stored (map_of (map snd es) w)"
  using search_entries[OF assms] by (simp add: SearchKeychain_def)

theorem keychain_roundtrip_witness:
  "SearchKeychain (Some (print_entry (True, ''woof://h/ns'', principal_cap 7) @ print_entry (False, ''woof://h/ns/w'', principal_cap 9)))
     ''woof://h/ns/w'' = Some (principal_cap 9)"
  using keychain_roundtrip[of "[(True, ''woof://h/ns'', principal_cap 7), (False, ''woof://h/ns/w'', principal_cap 9)]" "''woof://h/ns/w''"]
  by (simp add: keychain_name_def plain_def is_space_def NUL_def stored_def principal_cap_def)

text \<open>The keychain in the home directory is preferred to the local one, and a file that others may
  execute passes for private.\<close>

lemma home_keychain_wins:
  assumes "fs ''./capabilities.yaml'' = Some f" "private_mode (cf_mode f)"
    "fs (take 1023 (h @ ''/.cspot/capabilities.yaml'')) = Some g" "private_mode (cf_mode g)"
  shows "WooFCapFile fs (Some h) 1024 = (1, take 1023 (h @ ''/.cspot/capabilities.yaml''))"
  using assms by (simp add: WooFCapFile_def Let_def del: take_append)

lemma executable_keychain_accepted: "private_mode (S_IRUSR OR S_IXOTH)"
  by (simp add: private_mode_def S_IRUSR_def S_IRGRP_def S_IWGRP_def S_IXGRP_def S_IROTH_def S_IWOTH_def S_IXOTH_def)

end
