(* ===== verification/Cmq_Client.thy ===== *)
theory Cmq_Client
  imports Cmq_Auth Keychain Cmq_Pkt
begin

text \<open>
  The client side of CMQ (\<^verbatim>\<open>src/src/net/cmq/client.cpp\<close>) and the functions that select it by the scheme of
  a name (\<^verbatim>\<open>src/src/net.cpp\<close>). A client looks for a capability in the keychain, signs the request with
  it, sends the frames and reads the reply. Together with the server this gives the operations on
  remote WooFs the meaning of the local ones.
\<close>

section \<open>Exchanges\<close>

text \<open>
  One connect, send and receive. The request is the number of frames its header announces and the
  frames themselves; the outcome says where the exchange failed, or is the message received.
\<close>

datatype exchange = NoConnect | SendFail | RecvFail | Reply msg

type_synonym 'n wire = "'n \<Rightarrow> string \<Rightarrow> string \<Rightarrow> nat \<times> msg \<Rightarrow> (exchange \<times> 'n) run"

text \<open>The files the keychain is looked for in, the home directory, the HMAC, and what is read in the place
  of a number's text after it was destroyed.\<close>

record client =
  cl_fs :: "string \<Rightarrow> cap_file option"
  cl_home :: "string option"
  cl_hmac :: hmac
  cl_dead :: "string \<Rightarrow> string"

definition ask_once :: "'n wire \<Rightarrow> 'n \<Rightarrow> string \<Rightarrow> string \<Rightarrow> nat \<times> msg \<Rightarrow> (msg option \<times> 'n) run" where
  "ask_once ex n ip port m =
     run_bind (ex n ip port m) (\<lambda>(o1, n1). Ret (case o1 of Reply r \<Rightarrow> Some r | _ \<Rightarrow> None, n1))"

text \<open>
  A reply that does not come is asked for once more on a new connection. When the second connect or
  send fails, some functions destroy \<open>r_fl\<close>, which the failed receive never set.
\<close>

definition ask_retry ::
  "bool \<Rightarrow> bool \<Rightarrow> 'n wire \<Rightarrow> 'n \<Rightarrow> string \<Rightarrow> string \<Rightarrow> nat \<times> msg \<Rightarrow> (msg option \<times> 'n) run" where
  "ask_retry unset_on_connect unset_on_send ex n ip port m =
     run_bind (ex n ip port m) (\<lambda>(o1, n1). case o1 of
       Reply r \<Rightarrow> Ret (Some r, n1)
     | RecvFail \<Rightarrow>
         run_bind (ex n1 ip port m) (\<lambda>(o2, n2). case o2 of
           NoConnect \<Rightarrow> if unset_on_connect then Fault else Ret (None, n2)
         | SendFail \<Rightarrow> if unset_on_send then Fault else Ret (None, n2)
         | RecvFail \<Rightarrow> Ret (None, n2)
         | Reply r \<Rightarrow> Ret (Some r, n2))
     | _ \<Rightarrow> Ret (None, n1))"

section \<open>Requests\<close>

text \<open>The capability for a WooF, or for its namespace, attenuated to what the request needs.\<close>

definition capability :: "client \<Rightarrow> string \<Rightarrow> u32 \<Rightarrow> WCAP option" where
  "capability cl woof_name perm =
     (let (has_cap, cap_file) = WooFCapFile (cl_fs cl) (cl_home cl) 1024;
          file = map_option cf_text (cl_fs cl cap_file);
          ns_cap = snd (WooFNamespaceURI woof_name 1024)
      in if has_cap \<noteq> 1 then None
         else case (case SearchKeychain file woof_name of Some c \<Rightarrow> Some c | None \<Rightarrow> SearchKeychain file ns_cap) of
                None \<Rightarrow> None
              | Some cap \<Rightarrow> WooFCapAttenuate (cl_hmac cl) cap perm)"

definition sign_cap :: "hmac \<Rightarrow> bytes \<Rightarrow> WCAP \<Rightarrow> WCAP" where
  "sign_cap hmac payload new_cap = new_cap\<lparr>check := WooFCapSign hmac payload (check new_cap)\<rparr>"

text \<open>A frame with the text of a number. The text that is signed is made in the call that prints it; the
  one of the frame is destroyed before it is read.\<close>

definition number_frame :: "client \<Rightarrow> string \<Rightarrow> bytes option" where
  "number_frame cl s = Some (c_bytes (cl_dead cl s))"

text \<open>The tag, and with a capability the signed capability, in front of the other frames.\<close>

definition tagged :: "client \<Rightarrow> string \<Rightarrow> u32 \<Rightarrow> bytes \<Rightarrow> nat \<Rightarrow> nat \<Rightarrow> msg \<Rightarrow> msg" where
  "tagged cl woof_name perm payload tag tag_cap fs =
     (case capability cl woof_name perm of
        None \<Rightarrow> number_frame cl (decimal tag) # fs
      | Some new_cap \<Rightarrow> number_frame cl (decimal tag_cap) # Some (cap_bytes (sign_cap (cl_hmac cl) payload new_cap)) # fs)"

definition whole :: "msg \<Rightarrow> nat \<times> msg" where
  "whole m = (length m, m)"

text \<open>The address of the server, or the early returns.\<close>

definition with_endpoint :: "resolver \<Rightarrow> string \<Rightarrow> 'a run \<Rightarrow> (string \<Rightarrow> string \<Rightarrow> 'a run) \<Rightarrow> 'a run" where
  "with_endpoint rs woof_name failed k =
     run_bind (ip_from_woof rs woof_name) (\<lambda>ip. run_bind (port_from_woof rs woof_name) (\<lambda>port.
       case ip of
         None \<Rightarrow> failed
       | Some c_ip_str \<Rightarrow> (case port of None \<Rightarrow> failed | Some port_str \<Rightarrow> k c_ip_str port_str)))"

text \<open>The number in the first frame of a reply, cut to 32 bits; -1 without a frame.\<close>

definition number_of_reply :: "msg option \<Rightarrow> u32 run" where
  "number_of_reply r = (case r of
     None \<Rightarrow> Ret (- 1)
   | Some [] \<Rightarrow> Ret (- 1)
   | Some (f # _) \<Rightarrow> run_bind (frame_string f) (\<lambda>s. Ret (ucast (strtoul s))))"

definition remote_put ::
  "client \<Rightarrow> resolver \<Rightarrow> 'n wire \<Rightarrow> 'n \<Rightarrow> string \<Rightarrow> string option \<Rightarrow> bytes \<Rightarrow> u32 \<Rightarrow> (u32 \<times> 'n) run" where
  "remote_put cl rs ex n woof_name handler_name0 elem elem_size =
     with_endpoint rs woof_name (Ret (- 1, n)) (\<lambda>ip port.
       if elem_size = - 1 then Ret (- 1, n)
       else if length elem < unat elem_size then Fault
       else let e = take (unat elem_size) elem; hname = handler_name handler_name0;
                perm = (if handler_name0 = None then WCAP_WRITE else WCAP_EXEC);
                fl = tagged cl woof_name perm (bytes_of woof_name @ bytes_of hname @ e) 1 21
                       [Some (c_bytes woof_name), Some (c_bytes hname), Some e]
            in run_bind (ask_once ex n ip port (whole fl)) (\<lambda>(r, n1).
               run_bind (number_of_reply r) (\<lambda>seq_no. Ret (seq_no, n1))))"

text \<open>The element of a reply; a frame without payload is a read error. The caller's buffer has
  \<open>space\<close> bytes.\<close>

definition payload_of_reply :: "nat \<Rightarrow> msg option \<Rightarrow> bytes option run" where
  "payload_of_reply space r = (case r of
     Some (Some (b # bs) # _) \<Rightarrow> if space < length (b # bs) then Fault else Ret (Some (b # bs))
   | _ \<Rightarrow> Ret None)"

definition remote_get ::
  "client \<Rightarrow> resolver \<Rightarrow> 'n wire \<Rightarrow> 'n \<Rightarrow> string \<Rightarrow> u32 \<Rightarrow> u32 \<Rightarrow> (int \<times> bytes option \<times> 'n) run" where
  "remote_get cl rs ex n woof_name elem_size seq_no =
     with_endpoint rs woof_name (Ret (- 1, None, n)) (\<lambda>ip port.
       if elem_size = - 1 then Ret (- 1, None, n)
       else let s = decimal (unat seq_no);
                fl = tagged cl woof_name WCAP_READ (sig_text (woof_name @ '' '' @ s)) 3 23
                       [Some (c_bytes woof_name), number_frame cl s]
            in run_bind (ask_retry True True ex n ip port (whole fl)) (\<lambda>(r, n1).
               run_bind (payload_of_reply (unat elem_size) r) (\<lambda>e.
                 Ret (case e of None \<Rightarrow> - 1 | Some _ \<Rightarrow> 1, e, n1))))"

text \<open>Division of \<^verbatim>\<open>int\<close>s, toward zero.\<close>

definition c_div :: "int \<Rightarrow> int \<Rightarrow> int" where
  "c_div a b = sgn a * sgn b * (\<bar>a\<bar> div \<bar>b\<bar>)"

definition remote_get_range ::
  "client \<Rightarrow> resolver \<Rightarrow> 'n wire \<Rightarrow> 'n \<Rightarrow> string \<Rightarrow> u32 \<Rightarrow> u32 \<Rightarrow> u32 \<Rightarrow> (int \<times> bytes \<times> 'n) run" where
  "remote_get_range cl rs ex n woof_name elem_size seq_no count =
     with_endpoint rs woof_name (Ret (- 1, [], n)) (\<lambda>ip port.
       if elem_size = - 1 then Ret (- 1, [], n)
       else let s = decimal (unat seq_no); c = decimal (unat count);
                fl = tagged cl woof_name WCAP_READ (sig_text (woof_name @ '' '' @ s @ '' '' @ c)) 11 32
                       [Some (c_bytes woof_name), number_frame cl s, number_frame cl c]
            in run_bind (ask_retry True True ex n ip port (whole fl)) (\<lambda>(r, n1).
               run_bind (payload_of_reply (unat elem_size * unat count) r) (\<lambda>e. case e of
                 None \<Rightarrow> Ret (- 1, [], n1)
               | Some d \<Rightarrow>
                   if elem_size = 0 then Fault
                   else Ret (c_div (sint (of_nat (length d) :: u32)) (sint elem_size), d, n1))))"

text \<open>Without a capability nothing is sent.\<close>

definition remote_create ::
  "client \<Rightarrow> resolver \<Rightarrow> 'n wire \<Rightarrow> 'n \<Rightarrow> string \<Rightarrow> u32 \<Rightarrow> u32 \<Rightarrow> (int \<times> 'n) run" where
  "remote_create cl rs ex n woof_name elem_size history_size =
     with_endpoint rs woof_name (Ret (- 1, n)) (\<lambda>ip port.
       if elem_size = - 1 then Ret (- 1, n)
       else let s = decimal (unat elem_size); h = decimal (unat history_size) in
         if capability cl woof_name WCAP_INIT = None then Ret (- 1, n)
         else let fl = tagged cl woof_name WCAP_INIT (sig_text (woof_name @ '' '' @ s @ '' '' @ h)) 31 31
                    [Some (c_bytes woof_name), number_frame cl s, number_frame cl h]
              in run_bind (ask_retry True True ex n ip port (whole fl)) (\<lambda>(r, n1).
                 Ret (case r of Some (Some (b # bs) # _) \<Rightarrow> 1 | _ \<Rightarrow> - 1, n1)))"

text \<open>
  The tail request appends its last header frame twice: the header of the message announces one
  frame more than there are. The signed text ends in an unset variable \<open>seq_no\<close>. The reply is
  copied up to the larger of its size and the size asked for: a shorter one is read past its end,
  a longer one overruns the caller's buffer.
\<close>

definition remote_get_tail ::
  "client \<Rightarrow> resolver \<Rightarrow> 'n wire \<Rightarrow> u64 \<Rightarrow> 'n \<Rightarrow> string \<Rightarrow> u64 \<Rightarrow> 32 word \<Rightarrow> (u32 \<times> bytes \<times> 'n) run" where
  "remote_get_tail cl rs ex seq_no n woof_name el_size el_count =
     with_endpoint rs woof_name (Ret (- 1, [], n)) (\<lambda>ip port.
       if el_size = - 1 then Ret (- 1, [], n)
       else let c = (if sint el_count < 0 then CHR ''-'' # decimal (nat (- sint el_count)) else decimal (nat (sint el_count)));
                fl = tagged cl woof_name WCAP_READ (sig_text (woof_name @ '' '' @ to_string seq_no)) 4 24
                       [Some (c_bytes woof_name), number_frame cl c]
            in run_bind (ask_once ex n ip port (Suc (length fl), fl)) (\<lambda>(r, n1). case r of
                 Some (Some (b # bs) # rest) \<Rightarrow>
                   run_bind (c_string (b # bs)) (\<lambda>s.
                   case rest of
                     Some (d # ds) # _ \<Rightarrow>
                       let wanted = of_int (sint el_count) * el_size in
                       if of_nat (length (d # ds)) \<noteq> wanted then Fault
                       else Ret (ucast (strtoul s), d # ds, n1)
                   | _ \<Rightarrow> Ret (- 1, [], n1))
               | _ \<Rightarrow> Ret (- 1, [], n1)))"

text \<open>The three queries; they differ in the tags and in how a failed retry is cleaned up.\<close>

definition remote_number ::
  "client \<Rightarrow> resolver \<Rightarrow> 'n wire \<Rightarrow> bool \<Rightarrow> nat \<Rightarrow> nat \<Rightarrow> 'n \<Rightarrow> string \<Rightarrow> (u32 \<times> 'n) run" where
  "remote_number cl rs ex unset_on_connect tag tag_cap n woof_name =
     with_endpoint rs woof_name (Ret (- 1, n)) (\<lambda>ip port.
       let fl = tagged cl woof_name WCAP_READ (bytes_of woof_name) tag tag_cap [Some (c_bytes woof_name)]
       in run_bind (ask_retry unset_on_connect False ex n ip port (whole fl)) (\<lambda>(r, n1).
          run_bind (number_of_reply r) (\<lambda>v. Ret (v, n1))))"

definition remote_get_elem_size :: "client \<Rightarrow> resolver \<Rightarrow> 'n wire \<Rightarrow> 'n \<Rightarrow> string \<Rightarrow> (u32 \<times> 'n) run" where
  "remote_get_elem_size cl rs ex n woof_name = remote_number cl rs ex True 2 22 n woof_name"

definition remote_get_earliest_seq_no :: "client \<Rightarrow> resolver \<Rightarrow> 'n wire \<Rightarrow> 'n \<Rightarrow> string \<Rightarrow> (u32 \<times> 'n) run" where
  "remote_get_earliest_seq_no cl rs ex n woof_name = remote_number cl rs ex True 12 33 n woof_name"

definition remote_get_latest_seq_no :: "client \<Rightarrow> resolver \<Rightarrow> 'n wire \<Rightarrow> 'n \<Rightarrow> string \<Rightarrow> (u32 \<times> 'n) run" where
  "remote_get_latest_seq_no cl rs ex n woof_name = remote_number cl rs ex False 5 25 n woof_name"

section \<open>Selecting the transport\<close>

text \<open>An \<^verbatim>\<open>int32_t\<close> returned as an \<^verbatim>\<open>unsigned long\<close>.\<close>

definition widen :: "u32 \<Rightarrow> u64" where
  "widen v = of_int (sint v)"

text \<open>
  The functions \<open>WooFMsg...\<close>: names beginning with \<^verbatim>\<open>cmq://\<close> go to the client above, those with no known
  scheme nowhere, the rest to the other transports.
\<close>

definition by_scheme :: "string \<Rightarrow> 'a \<Rightarrow> 'a \<Rightarrow> 'a \<Rightarrow> 'a" where
  "by_scheme woof_name cmq none other =
     (let be = backend_from_woof woof_name in if be = 2 then cmq else if be = - 1 then none else other)"

definition net_transport :: "client \<Rightarrow> resolver \<Rightarrow> 'n wire \<Rightarrow> u64 \<Rightarrow> 'n transport \<Rightarrow> 'n transport" where
  "net_transport cl rs ex junk other = \<lparr>
     WooFMsgCreate = (\<lambda>n name es hs. by_scheme name
       (remote_create cl rs ex n name (ucast es) (ucast hs)) (Ret (- 1, n)) (WooFMsgCreate other n name es hs)),
     WooFMsgGetElSize = (\<lambda>n name. by_scheme name
       (run_bind (remote_get_elem_size cl rs ex n name) (\<lambda>(v, n1). Ret (widen v, n1))) (Ret (- 1, n)) (WooFMsgGetElSize other n name)),
     WooFMsgPut = (\<lambda>n name h e es. by_scheme name
       (run_bind (remote_put cl rs ex n name h e (ucast es)) (\<lambda>(v, n1). Ret (widen v, n1))) (Ret (- 1, n)) (WooFMsgPut other n name h e es)),
     WooFMsgGet = (\<lambda>n name es q. by_scheme name
       (remote_get cl rs ex n name (ucast es) (ucast q)) (Ret (- 1, None, n)) (WooFMsgGet other n name es q)),
     WooFMsgGetRange = (\<lambda>n name es q c. by_scheme name
       (remote_get_range cl rs ex n name (ucast es) (ucast q) c) (Ret (- 1, [], n)) (WooFMsgGetRange other n name es q c)),
     WooFMsgGetLatestSeqno = (\<lambda>n name. by_scheme name
       (run_bind (remote_get_latest_seq_no cl rs ex n name) (\<lambda>(v, n1). Ret (widen v, n1))) (Ret (- 1, n)) (WooFMsgGetLatestSeqno other n name)),
     WooFMsgGetEarliestSeqno = (\<lambda>n name. by_scheme name
       (run_bind (remote_get_earliest_seq_no cl rs ex n name) (\<lambda>(v, n1). Ret (widen v, n1))) (Ret (- 1, n)) (WooFMsgGetEarliestSeqno other n name)),
     WooFMsgGetTail = (\<lambda>n name es c. by_scheme name
       (run_bind (remote_get_tail cl rs ex junk n name es (of_int c)) (\<lambda>(v, d, n1). Ret (widen v, d, n1))) (Ret (- 1, [], n)) (WooFMsgGetTail other n name es c))\<rparr>"

end
