(* ===== verification/Cmq_Net.thy ===== *)
theory Cmq_Net
  imports Cmq_Client
begin

text \<open>
  Clients and servers together. The network holds the server process behind every endpoint; an
  exchange of the client is a connection that the server thread accepts and serves, with the
  messages of the packet layer. The theorems show that the operations on a remote WooF mean what
  the operations of the server's own process mean, capabilities included.
\<close>

section \<open>The network\<close>

text \<open>The process of the server at an address and a port, if one listens there.\<close>

type_synonym 'm network = "string \<times> string \<Rightarrow> 'm process option"

text \<open>
  One exchange. The frames arrive as the packet layer delivers them. A message that announces more
  frames than it has leaves the server waiting for the rest, and so does a request that is not
  answered leave the client.
\<close>

definition cmq_wire :: "'m server \<Rightarrow> 'm network wire" where
  "cmq_wire sv net ip port m = (case net (ip, port) of
     None \<Rightarrow> Ret (NoConnect, net)
   | Some p \<Rightarrow>
       if fst m \<noteq> length (snd m) then Blocked
       else run_bind (serve_connection sv p [map arrives_as (snd m)]) (\<lambda>(replies, on, p').
         case replies of
           [] \<Rightarrow> Blocked
         | r # _ \<Rightarrow> Ret (Reply (map arrives_as r), net((ip, port) \<mapsto> p'))))"

section \<open>Requests of a client\<close>

definition client_msg :: "client \<Rightarrow> request \<Rightarrow> msg" where
  "client_msg cl r = tagged cl (request_uri r) (cap_perm r) (cap_text r) (request_tag r) (cap_tag r) (request_frames r)"

text \<open>
  The client may make the request: it has no capability and none is called for, or the capability
  of its keychain, signed for the request, is granted.
\<close>

definition may_ask :: "client \<Rightarrow> u64 option \<Rightarrow> u64 option \<Rightarrow> request \<Rightarrow> bool" where
  "may_ask cl sp sns r = (case capability cl (request_uri r) (cap_perm r) of
     None \<Rightarrow> sp = None \<and> sns = None
   | Some c \<Rightarrow> granted (cl_hmac cl) sp sns (sign_cap (cl_hmac cl) (cap_text r) c) r)"

lemma length_le_bytes_cap: "cap_bytes c \<noteq> []"
  using length_cap_bytes[of c] by (metis list.size(3) zero_neq_numeral)

lemma request_frames_arrive: "map arrives_as (request_frames r) = request_frames r"
  by (cases r) (simp_all add: arrives_as_def data_frame_def)

lemma number_frame_short: "keeps_short (cl_dead cl) \<Longrightarrow> n < 10 ^ 15 \<Longrightarrow> number_frame cl (decimal n) = Some (c_bytes (decimal n))"
  by (simp add: number_frame_def dead_decimal)

lemma client_msg_arrives: "map arrives_as (client_msg cl r) = client_msg cl r"
  using request_frames_arrive[of r] length_le_bytes_cap
  by (simp add: client_msg_def tagged_def arrives_as_def number_frame_def split: option.split)

lemma client_msg_cases:
  assumes "keeps_short (cl_dead cl)"
  shows "client_msg cl r = (case capability cl (request_uri r) (cap_perm r) of
     None \<Rightarrow> encode_request r | Some c \<Rightarrow> encode_cap_request (sign_cap (cl_hmac cl) (cap_text r) c) r)"
proof -
  have "request_tag r < 10 ^ 15" "cap_tag r < 10 ^ 15" by (cases r; simp)+
  then show ?thesis using number_frame_short[OF assms]
    by (simp add: client_msg_def tagged_def encode_request_def encode_cap_request_def split: option.split)
qed

lemma unprotected_cap_state:
  assumes "cap_state p (name @ ''.CAP'') None" "cap_state p ''CSPOT.CAP'' None"
  shows "cap_present p name = Ret False"
  using assms by (simp add: cap_state_def cap_present_def)

text \<open>A request that the client may make is answered as specified.\<close>

lemma serve_client:
  assumes "reachable p str name wo" "0 < elsz (wf_shared wo)" "elsz (wf_shared wo) < 2 ^ 32"
    "request_uri r = str" "request_ok (wf_shared wo) r"
    "cap_state p (name @ ''.CAP'') sp" "cap_state p ''CSPOT.CAP'' sns" "cl_hmac cl = sv_hmac sv" "may_ask cl sp sns r" "keeps_short (cl_dead cl)"
  shows "serve_connection sv p [client_msg cl r] =
    run_bind (spec_serve (pr_dead p) p name r) (\<lambda>(reply, p'). Ret (case reply of None \<Rightarrow> [] | Some m \<Rightarrow> [m], True, p'))"
proof (cases "capability cl (request_uri r) (cap_perm r)")
  case None
  then have "sp = None" "sns = None" using assms(9) by (simp_all add: may_ask_def)
  then have "cap_present p name = Ret False" using unprotected_cap_state assms(6,7) by simp
  then show ?thesis using serve_request[OF assms(1-5), of sv] None by (simp add: client_msg_cases[OF assms(10)])
next
  case (Some c)
  then show ?thesis using serve_cap_request[OF assms(1-7), of sv] assms(8,9) by (simp add: client_msg_cases[OF assms(10)] may_ask_def)
qed

section \<open>Remote operations\<close>

text \<open>The server process \<open>p\<close> serves the WooF \<open>name\<close> under the URI \<open>str\<close>, with the secrets of its CAPs. Both
  sides use the same HMAC, and find short texts intact after their destruction; the numbers are short.\<close>

definition serves ::
  "client \<Rightarrow> 'm server \<Rightarrow> u64 option \<Rightarrow> u64 option \<Rightarrow> string \<Rightarrow> string \<Rightarrow> 'm process \<Rightarrow> WOOF \<Rightarrow> bool" where
  "serves cl sv sp sns str name p wo \<longleftrightarrow> reachable p str name wo \<and> 0 < elsz (wf_shared wo) \<and> elsz (wf_shared wo) \<le> MAX_RW_COUNT
     \<and> cap_state p (name @ ''.CAP'') sp \<and> cap_state p ''CSPOT.CAP'' sns \<and> cl_hmac cl = sv_hmac sv
     \<and> keeps_short (cl_dead cl) \<and> keeps_short (pr_dead p) \<and> Suc (latest (wf_shared wo)) < 10 ^ 15"

text \<open>For the client process the URI is remote, has the scheme of CMQ and leads to the endpoint.\<close>

definition leads_to :: "'n process \<Rightarrow> string \<Rightarrow> string \<Rightarrow> string \<Rightarrow> bool" where
  "leads_to c str ip port \<longleftrightarrow> IsRemoteWoof c str = Ret True \<and> backend_from_woof str = 2
     \<and> ip_from_woof (pr_rs c) str = Ret (Some ip) \<and> port_from_woof (pr_rs c) str = Ret (Some port)"

lemma exchange_ok:
  assumes "serves cl sv sp sns str name p wo" "net (ip, port) = Some p" "request_uri r = str"
    "request_ok (wf_shared wo) r" "may_ask cl sp sns r"
  shows "cmq_wire sv net ip port (whole (client_msg cl r)) =
    run_bind (spec_serve id p name r) (\<lambda>(reply, p'). Ret (Reply (map arrives_as (the reply)), net((ip, port) \<mapsto> p')))"
proof -
  have s: "reachable p str name wo" "0 < elsz (wf_shared wo)" "elsz (wf_shared wo) < 2 ^ 32"
    "cap_state p (name @ ''.CAP'') sp" "cap_state p ''CSPOT.CAP'' sns" "cl_hmac cl = sv_hmac sv"
    "keeps_short (cl_dead cl)" "keeps_short (pr_dead p)" "Suc (latest (wf_shared wo)) < 10 ^ 15"
    using assms(1) by (auto simp: serves_def MAX_RW_COUNT_def)
  have r: "spec_serve id p name r = Ret (reply, p') \<Longrightarrow> reply \<noteq> None" for reply p'
    by (auto simp: spec_serve_def run_bind_Ret_iff split: request.splits)
  show ?thesis
    using serve_client[OF s(1-3) assms(3,4) s(4-6) assms(5) s(7)] spec_serve_short[OF s(1,3,8,9), of r] assms(2) r
    by (cases "spec_serve id p name r") (auto simp: cmq_wire_def whole_def client_msg_arrives split: option.splits)
qed

text \<open>The requests that only read leave the network as it is.\<close>

lemma exchange_read:
  assumes "serves cl sv sp sns str name p wo" "net (ip, port) = Some p" "request_uri r = str"
    "request_ok (wf_shared wo) r" "may_ask cl sp sns r"
    "\<nexists>h e. r = PutReq str h e"
  shows "cmq_wire sv net ip port (whole (client_msg cl r)) =
    Ret (Reply (map arrives_as (spec_reply id (wf_shared wo) r)), net)"
proof -
  have "spec_serve id p name r = Ret (Some (spec_reply id (wf_shared wo) r), p)"
    using assms(1,3,6) reachable_woof(6)[of p str name wo] by (cases r) (auto simp: spec_serve_def serves_def)
  then show ?thesis using exchange_ok[where net = net and ip = ip and port = port, OF assms(1-5)] assms(2) by (simp add: fun_upd_idem)
qed

lemma number_of_number_reply: "number_of_reply (Some (map arrives_as (number_reply id n))) = Ret (ucast n)"
  by (simp add: number_of_reply_def number_reply_def arrives_as_def frame_string_def)

lemma widen_small: "unat n < 2 ^ 31 \<Longrightarrow> widen (ucast n) = n"
proof -
  assume n: "unat n < 2 ^ 31"
  then have u: "unat (ucast n :: u32) = unat n" by (simp add: unsigned_ucast_eq take_bit_nat_eq_self)
  then have "sint (ucast n :: u32) = int (unat n)" using sint32_small[of "ucast n :: u32"] n by simp
  then show ?thesis by (simp add: widen_def)
qed

lemma remote_number_ok:
  assumes "serves cl sv sp sns str name p wo" "net (ip, port) = Some p" "may_ask cl sp sns r"
    "ip_from_woof rs str = Ret (Some ip)" "port_from_woof rs str = Ret (Some port)"
    "r = ElSizeReq str \<or> r = EarliestReq str \<or> r = LatestReq str" "spec_reply id (wf_shared wo) r = number_reply id n"
  shows "remote_number cl rs (cmq_wire sv) u (request_tag r) (cap_tag r) net str = Ret (ucast n, net)"
proof -
  have r: "request_uri r = str" "request_ok (wf_shared wo) r" "\<nexists>h e. r = PutReq str h e"
    "request_frames r = [Some (c_bytes str)]" "cap_perm r = WCAP_READ" "cap_text r = bytes_of str"
    using assms(6) by auto
  then have m: "tagged cl str WCAP_READ (bytes_of str) (request_tag r) (cap_tag r) [Some (c_bytes str)] = client_msg cl r"
    by (simp add: client_msg_def)
  show ?thesis
    using exchange_read[where net = net and ip = ip and port = port, OF assms(1,2) r(1,2) assms(3) r(3)] assms(4,5,7) number_of_number_reply[of n]
    by (simp add: remote_number_def with_endpoint_def m ask_retry_def Let_def)
qed

lemma elem_size_fits:
  assumes "unat (es :: u64) < 2 ^ 31"
  shows "unat (ucast es :: u32) = unat es" "(ucast es :: u32) \<noteq> - 1"
proof -
  show u: "unat (ucast es :: u32) = unat es" using assms by (simp add: unsigned_ucast_eq take_bit_nat_eq_self)
  have "unat (- 1 :: u32) = 4294967295" by (simp add: unsigned_minus_1_eq_mask mask_eq_exp_minus_1)
  then show "(ucast es :: u32) \<noteq> - 1" using u assms by auto
qed

lemma remote_put_ok:
  assumes "serves cl sv sp sns str name p wo" "net (ip, port) = Some p" "may_ask cl sp sns (PutReq str h e)"
    "ip_from_woof rs str = Ret (Some ip)" "port_from_woof rs str = Ret (Some port)"
    "request_ok (wf_shared wo) (PutReq str h e)" "length e = elsz (wf_shared wo)"
  shows "remote_put cl rs (cmq_wire sv) net str h e (ucast (wfs_element_size (wf_shared wo))) =
    run_bind (append_named p name h e 0 0) (\<lambda>(n, p'). Ret (ucast n, net((ip, port) \<mapsto> p')))"
proof -
  let ?es = "ucast (wfs_element_size (wf_shared wo)) :: u32"
  have b: "0 < elsz (wf_shared wo)" "elsz (wf_shared wo) < 2 ^ 31" using assms(1) by (simp_all add: serves_def MAX_RW_COUNT_def)
  note u = elem_size_fits[OF b(2)]
  have e: "data_frame e = Some e" using assms(7) b(1) by (auto simp: data_frame_def)
  have m: "tagged cl str (if h = None then WCAP_WRITE else WCAP_EXEC) (bytes_of str @ bytes_of (handler_name h) @ e) 1 21
      [Some (c_bytes str), Some (c_bytes (handler_name h)), Some e] = client_msg cl (PutReq str h e)"
    by (simp add: client_msg_def e)
  have x: "cmq_wire sv net ip port (whole (client_msg cl (PutReq str h e))) =
      run_bind (append_named p name h e 0 0) (\<lambda>(n, p'). Ret (Reply (map arrives_as (number_reply id n)), net((ip, port) \<mapsto> p')))"
    using exchange_ok[where net = net and ip = ip and port = port, OF assms(1,2) _ assms(6,3)]
    by (cases "append_named p name h e 0 0") (auto simp: spec_serve_def)
  show ?thesis
    using assms(4,5,7) u
    by (simp add: remote_put_def with_endpoint_def m[simplified] x ask_once_def Let_def)
      (cases "append_named p name h e 0 0"; auto simp: number_of_number_reply)
qed

lemma remote_get_ok:
  assumes "serves cl sv sp sns str name p wo" "net (ip, port) = Some p" "may_ask cl sp sns (GetReq str q)"
    "ip_from_woof rs str = Ret (Some ip)" "port_from_woof rs str = Ret (Some port)" "unat q < 2 ^ 32"
  shows "remote_get cl rs (cmq_wire sv) net str (ucast (wfs_element_size (wf_shared wo))) (ucast q) =
    Ret (case spec_read (woof_view (wf_shared wo)) (latest (wf_shared wo)) (unat q) of
           None \<Rightarrow> (- 1, None, net) | Some e \<Rightarrow> (1, Some e, net))"
proof -
  let ?es = "ucast (wfs_element_size (wf_shared wo)) :: u32" and ?w = "wf_shared wo"
  have b: "0 < elsz ?w" "elsz ?w < 2 ^ 31" "reachable p str name wo" using assms(1) by (simp_all add: serves_def MAX_RW_COUNT_def)
  note u = elem_size_fits[OF b(2)]
  have m: "tagged cl str WCAP_READ (sig_text (str @ CHR '' '' # to_string q)) 3 23
      [Some (c_bytes str), Some (c_bytes (to_string q))] = client_msg cl (GetReq str q)"
    by (simp add: client_msg_def)
  have len: "spec_read (woof_view ?w) (latest ?w) (unat q) = Some e \<Longrightarrow> length e = elsz ?w" for e
    using woof_view_size[OF reachable_woof(1)[OF b(3)]] spec_read_mem by metis
  have x: "cmq_wire sv net ip port (whole (client_msg cl (GetReq str q)))
      = Ret (Reply [arrives_as (spec_read (woof_view ?w) (latest ?w) (unat q))], net)"
    using exchange_read[where net = net and ip = ip and port = port, OF assms(1,2) _ _ assms(3)] by simp
  have d: "decimal (unat (ucast q :: u32)) = to_string q"
    using assms(6) by (simp add: to_string_def unsigned_ucast_eq take_bit_nat_eq_self)
  have "unat q < 10 ^ 15" using assms(6) by simp
  then have f: "number_frame cl (to_string q) = Some (c_bytes (to_string q))"
    using number_frame_short[of cl "unat q"] assms(1) by (simp add: serves_def to_string_def)
  show ?thesis
  proof (cases "spec_read (woof_view ?w) (latest ?w) (unat q)")
    case None
    then show ?thesis
      using assms(4,5) u x by (simp add: remote_get_def with_endpoint_def d f m ask_retry_def payload_of_reply_def arrives_as_def Let_def)
  next
    case (Some e)
    then have "length e = elsz ?w" "e \<noteq> []" using len b(1) by fastforce+
    then show ?thesis
      using assms(4,5) u x Some
      by (cases e) (auto simp: remote_get_def with_endpoint_def d f m ask_retry_def payload_of_reply_def arrives_as_def Let_def)
  qed
qed

section \<open>The interface by name on remote WooFs\<close>

text \<open>The transport of a client process whose CMQ exchanges go through the network.\<close>

abbreviation cmq_net :: "client \<Rightarrow> 'm server \<Rightarrow> u64 \<Rightarrow> 'm network transport \<Rightarrow> 'm network process \<Rightarrow> 'm network transport" where
  "cmq_net cl sv junk other c \<equiv> net_transport cl (pr_rs c) (cmq_wire sv) junk other"

abbreviation set_server :: "'m network process \<Rightarrow> string \<Rightarrow> string \<Rightarrow> 'm process \<Rightarrow> 'm network process" where
  "set_server c ip port q \<equiv> c\<lparr>pr_net := (pr_net c)((ip, port) \<mapsto> q)\<rparr>"

lemma remote_sizes:
  assumes "serves cl sv sp sns str name q wo" "leads_to c str ip port" "pr_net c (ip, port) = Some q"
    "may_ask cl sp sns (ElSizeReq str)"
  shows "WooFMsgGetElSize (cmq_net cl sv junk other c) (pr_net c) str = Ret (wfs_element_size (wf_shared wo), pr_net c)"
proof -
  have "elsz (wf_shared wo) < 2 ^ 31" using assms(1) by (simp add: serves_def MAX_RW_COUNT_def)
  then have "widen (ucast (wfs_element_size (wf_shared wo))) = wfs_element_size (wf_shared wo)" by (rule widen_small)
  then show ?thesis
    using remote_number_ok[where net = "pr_net c" and r = "ElSizeReq str" and u = True, OF assms(1,3,4)] assms(2)
    by (simp add: net_transport_def by_scheme_def leads_to_def remote_get_elem_size_def)
qed

lemma elem_size_not_error:
  assumes "unat (es :: u64) < 2 ^ 31"
  shows "es \<noteq> - 1"
proof
  assume "es = - 1"
  then have "unat es = 2 ^ 64 - 1" by (simp add: unsigned_minus_1_eq_mask mask_eq_exp_minus_1)
  then show False using assms by simp
qed

lemma remote_WooFPut:
  assumes "serves cl sv sp sns str name q wo" "leads_to c str ip port" "pr_net c (ip, port) = Some q"
    "may_ask cl sp sns (ElSizeReq str)" "may_ask cl sp sns (PutReq str h e)"
    "request_ok (wf_shared wo) (PutReq str h e)" "length e = elsz (wf_shared wo)"
  shows "WooFPut (cmq_net cl sv junk other c) c str h e =
    run_bind (append_named q name h e 0 0) (\<lambda>(n, q'). Ret (widen (ucast n), set_server c ip port q'))"
proof -
  have "elsz (wf_shared wo) < 2 ^ 31" using assms(1) by (simp add: serves_def MAX_RW_COUNT_def)
  then have "wfs_element_size (wf_shared wo) \<noteq> - 1" by (rule elem_size_not_error)
  then show ?thesis
    using remote_sizes[OF assms(1-4), of junk other]
      remote_put_ok[where net = "pr_net c" and rs = "pr_rs c", OF assms(1,3,5) _ _ assms(6,7)] assms(2)
    by (cases "append_named q name h e 0 0") (auto simp: WooFPut_def leads_to_def remote_put_named_def net_transport_def by_scheme_def)
qed

lemma remote_WooFGet:
  assumes "serves cl sv sp sns str name q wo" "leads_to c str ip port" "pr_net c (ip, port) = Some q"
    "may_ask cl sp sns (ElSizeReq str)" "may_ask cl sp sns (GetReq str s)" "unat s < 2 ^ 32"
  shows "WooFGet (cmq_net cl sv junk other c) c str s =
    Ret (case spec_read (woof_view (wf_shared wo)) (latest (wf_shared wo)) (unat s) of
           None \<Rightarrow> (- 1, None, c) | Some e \<Rightarrow> (1, Some e, c))"
proof -
  have "elsz (wf_shared wo) < 2 ^ 31" using assms(1) by (simp add: serves_def MAX_RW_COUNT_def)
  then have "wfs_element_size (wf_shared wo) \<noteq> - 1" by (rule elem_size_not_error)
  then show ?thesis
    using remote_sizes[OF assms(1-4), of junk other]
      remote_get_ok[where net = "pr_net c" and rs = "pr_rs c", OF assms(1,3,5) _ _ assms(6)] assms(2)
    by (auto simp: WooFGet_def leads_to_def net_transport_def by_scheme_def split: option.splits)
qed

lemma remote_WooFGetLatest:
  assumes "serves cl sv sp sns str name q wo" "leads_to c str ip port" "pr_net c (ip, port) = Some q"
    "may_ask cl sp sns (LatestReq str)"
  shows "WooFGetLatestSeqnoWithCause (cmq_net cl sv junk other c) c str = Ret (widen (ucast (of_nat (latest (wf_shared wo)) :: u64)), c)"
  using remote_number_ok[where net = "pr_net c" and r = "LatestReq str" and u = False, OF assms(1,3,4)] assms(2)
  by (simp add: WooFGetLatestSeqnoWithCause_def net_transport_def by_scheme_def leads_to_def remote_get_latest_seq_no_def)

section \<open>Capabilities from the keychain\<close>

lemma ladder_stored: "stored (ladder hmac secret i) = ladder hmac secret i"
proof -
  have "flags (ladder hmac secret i) = 0 \<and> frame_size (ladder hmac secret i) = 0"
    by (induction i) (simp_all add: principal_cap_def Let_def)
  then show ?thesis by (cases "ladder hmac secret i") (simp add: stored_def)
qed

text \<open>The keychain of a client is made of the printed entries \<open>es\<close>.\<close>

definition keychain_of :: "client \<Rightarrow> (bool \<times> string \<times> WCAP) list \<Rightarrow> bool" where
  "keychain_of cl es \<longleftrightarrow> (\<exists>path f. WooFCapFile (cl_fs cl) (cl_home cl) 1024 = (1, path) \<and> cl_fs cl path = Some f
     \<and> cf_text f = concat (map print_entry es)) \<and> (\<forall>e\<in>set es. keychain_name (fst (snd e)))"

text \<open>The entry that is used for a WooF: its own, else that of its namespace.\<close>

definition entry_for :: "(bool \<times> string \<times> WCAP) list \<Rightarrow> string \<Rightarrow> WCAP option" where
  "entry_for es str = (case map_of (map snd es) str of
     Some c \<Rightarrow> Some c | None \<Rightarrow> map_of (map snd es) (snd (WooFNamespaceURI str 1024)))"

lemma capability_keychain:
  assumes "keychain_of cl es"
  shows "capability cl str perm = (case entry_for es str of None \<Rightarrow> None | Some c \<Rightarrow> WooFCapAttenuate (cl_hmac cl) (stored c) perm)"
proof -
  obtain path f where f: "WooFCapFile (cl_fs cl) (cl_home cl) 1024 = (1, path)" "cl_fs cl path = Some f"
    "cf_text f = concat (map print_entry es)" "\<forall>e\<in>set es. keychain_name (fst (snd e))"
    using assms by (auto simp: keychain_of_def)
  have "SearchKeychain (Some (cf_text f)) w = map_option stored (map_of (map snd es) w)" for w
    using search_entries[OF f(4)] f(3) by (simp add: SearchKeychain_def)
  then show ?thesis using f(1,2) by (auto simp: capability_def Let_def entry_for_def split: option.splits)
qed

text \<open>A capability attenuated from the principal of a CAP opens what its permission covers.\<close>

lemma keychain_may_ask:
  assumes "keychain_of cl es" "entry_for es (request_uri r) = Some (ladder (cl_hmac cl) secret i)" "i \<le> 6"
    "cap_perm r \<le> mask_of i" "sp = Some secret \<or> sns = Some secret"
  shows "may_ask cl sp sns r"
proof -
  have "capability cl (request_uri r) (cap_perm r) = Some (ladder (cl_hmac cl) secret (level_of (cap_perm r)))"
    using capability_keychain[OF assms(1)] assms(2) ladder_stored[of "cl_hmac cl" secret i] attenuate_ladder[OF assms(3)] assms(4)
    by (simp add: not_less)
  then show ?thesis using assms(5) by (auto simp: may_ask_def granted_def expected_def sign_cap_def)
qed

section \<open>A log behind a remote name\<close>

lemma serves_append:
  assumes "serves cl sv sp sns str name q wo" "length e = elsz (wf_shared wo)" "Suc (latest (wf_shared wo)) < 2 ^ 31"
  obtains q' wo' where "append_named q name None e 0 0 = Ret (of_nat (Suc (latest (wf_shared wo))), q')"
    "serves cl sv sp sns str name q' wo'" "hist (wf_shared wo') = hist (wf_shared wo)" "elsz (wf_shared wo') = elsz (wf_shared wo)"
    "woof_view (wf_shared wo') = take (hist (wf_shared wo)) (e # woof_view (wf_shared wo))"
    "latest (wf_shared wo') = Suc (latest (wf_shared wo))"
proof -
  have r: "reachable q str name wo" using assms(1) by (simp add: serves_def)
  have h: "holds q name wo" and wf: "woof_wf (wf_shared wo)" and sl: "CHR ''/'' \<notin> set name" and nc: "\<not> is_cap_name name"
    using reachable_name(4,7)[OF r] reachable_woof(1)[OF r] r by (auto simp: reachable_def)
  have seq: "unat (wfs_seq_no (wf_shared wo)) = Suc (latest (wf_shared wo))" using wf by (simp add: woof_wf_def latest_def)
  then have lt: "unat (wfs_seq_no (wf_shared wo)) < 2 ^ 64 - 1" using assms(3) by simp
  let ?q = "\<lambda>w' ns'. (write_back q (path_of q name) (wo\<lparr>wf_shared := w'\<rparr>))\<lparr>pr_ns := ns'\<rparr>"
  obtain w' ns' where a: "append_named q name None e 0 0 = Ret (wfs_seq_no (wf_shared wo), ?q w' ns')"
    "appended (wf_shared wo) e w'" "holds (?q w' ns') name (wo\<lparr>wf_shared := w'\<rparr>)"
    by (rule append_named_ok[OF h _ lt, of e None 0 0]) (use assms(2) in auto)
  have s: "wfs_seq_no (wf_shared wo) = of_nat (Suc (latest (wf_shared wo)))" unfolding seq[symmetric] by simp
  have "path_of q name \<noteq> path_of q (name @ ''.CAP'')" "path_of q name \<noteq> path_of q ''CSPOT.CAP''"
    using nc by (auto simp: path_of_def is_cap_name_def)
  then have "cap_state (?q w' ns') (name @ ''.CAP'') sp" "cap_state (?q w' ns') ''CSPOT.CAP'' sns"
    using assms(1) plain_cap_names[OF sl] by (simp_all add: serves_def cap_state_other)
  moreover have "pr_rs (?q w' ns') = pr_rs q" "pr_dead (?q w' ns') = pr_dead q" by (simp_all add: write_back_def)
  ultimately have "serves cl sv sp sns str name (?q w' ns') (wo\<lparr>wf_shared := w'\<rparr>)"
    using assms(1,3) a(3) r appendedD(5)[OF a(2)] appended_latest[OF a(2) lt wf] by (simp add: serves_def reachable_def located_def)
  with that[OF a(1)[unfolded s]] show thesis using appendedD[OF a(2)] appended_latest[OF a(2) lt wf] assms(2) by simp
qed

text \<open>
  The client process, the requests it may make, and the WooF of \<open>n\<close> elements of \<open>es\<close> bytes behind the
  URI. Sequence numbers travel through 32-bit signed integers, hence the bound.
\<close>

definition remote_ok ::
  "client \<Rightarrow> 'm server \<Rightarrow> u64 option \<Rightarrow> u64 option \<Rightarrow> string \<Rightarrow> string \<Rightarrow> string \<Rightarrow> string \<Rightarrow> resolver \<Rightarrow> nat \<Rightarrow> nat
   \<Rightarrow> 'm network process \<Rightarrow> bool" where
  "remote_ok cl sv sp sns str name ip port rs n es c \<longleftrightarrow>
     leads_to c str ip port \<and> pr_rs c = rs
     \<and> (\<exists>q wo. pr_net c (ip, port) = Some q \<and> serves cl sv sp sns str name q wo \<and> hist (wf_shared wo) = n \<and> elsz (wf_shared wo) = es)
     \<and> may_ask cl sp sns (ElSizeReq str) \<and> (\<forall>e. may_ask cl sp sns (PutReq str None e)) \<and> (\<forall>s. may_ask cl sp sns (GetReq str s))"

definition remote_woof :: "string \<Rightarrow> string \<Rightarrow> string \<Rightarrow> 'm network process \<Rightarrow> WOOF_SHARED" where
  "remote_woof name ip port c = woof_at (the (pr_net c (ip, port))) name"

lemma remote_okE:
  assumes "remote_ok cl sv sp sns str name ip port rs n es c"
  obtains q wo where "pr_net c (ip, port) = Some q" "serves cl sv sp sns str name q wo" "remote_woof name ip port c = wf_shared wo"
    "hist (wf_shared wo) = n" "elsz (wf_shared wo) = es" "leads_to c str ip port" "pr_rs c = rs"
    "may_ask cl sp sns (ElSizeReq str)" "\<And>e. may_ask cl sp sns (PutReq str None e)" "\<And>s. may_ask cl sp sns (GetReq str s)"
proof -
  obtain q wo where q: "pr_net c (ip, port) = Some q" "serves cl sv sp sns str name q wo" "hist (wf_shared wo) = n" "elsz (wf_shared wo) = es"
    using assms by (auto simp: remote_ok_def)
  then have "remote_woof name ip port c = wf_shared wo"
    using reachable_woof(6) by (fastforce simp: remote_woof_def serves_def)
  then show thesis using q that assms by (simp add: remote_ok_def)
qed

lemma leads_to_net [simp]: "leads_to (c\<lparr>pr_net := m\<rparr>) str ip port = leads_to c str ip port"
proof -
  have p: "pr_rs (c\<lparr>pr_net := m\<rparr>) = pr_rs c" "pr_ns (c\<lparr>pr_net := m\<rparr>) = pr_ns c" by simp_all
  show ?thesis unfolding leads_to_def IsRemoteWoof_def p by (rule refl)
qed

lemma remote_put_step:
  assumes "remote_ok cl sv sp sns str name ip port rs n es c" "length e = es" "Suc (latest (remote_woof name ip port c)) < 2 ^ 31"
  shows "\<exists>c'. WooFPut (net_transport cl rs (cmq_wire sv) junk other) c str None e
      = Ret (of_nat (Suc (latest (remote_woof name ip port c))), c')
    \<and> remote_ok cl sv sp sns str name ip port rs n es c'
    \<and> woof_view (remote_woof name ip port c') = take n (e # woof_view (remote_woof name ip port c))
    \<and> latest (remote_woof name ip port c') = Suc (latest (remote_woof name ip port c))"
proof -
  obtain q wo where q: "pr_net c (ip, port) = Some q" "serves cl sv sp sns str name q wo" "remote_woof name ip port c = wf_shared wo"
    "hist (wf_shared wo) = n" "elsz (wf_shared wo) = es" "leads_to c str ip port" "pr_rs c = rs"
    "may_ask cl sp sns (ElSizeReq str)" "\<And>e. may_ask cl sp sns (PutReq str None e)" "\<And>s. may_ask cl sp sns (GetReq str s)"
    using remote_okE[OF assms(1)] by metis
  obtain q' wo' where a: "append_named q name None e 0 0 = Ret (of_nat (Suc (latest (wf_shared wo))), q')"
    "serves cl sv sp sns str name q' wo'" "hist (wf_shared wo') = hist (wf_shared wo)" "elsz (wf_shared wo') = elsz (wf_shared wo)"
    "woof_view (wf_shared wo') = take (hist (wf_shared wo)) (e # woof_view (wf_shared wo))"
    "latest (wf_shared wo') = Suc (latest (wf_shared wo))"
    by (rule serves_append[OF q(2), of e]) (use assms(2,3) q(3,5) in auto)
  let ?c = "set_server c ip port q'"
  have l: "Suc (latest (wf_shared wo)) < 2 ^ 31" using assms(3) q(3) by simp
  then have w: "widen (ucast (of_nat (Suc (latest (wf_shared wo))) :: u64)) = of_nat (Suc (latest (wf_shared wo)))"
    by (intro widen_small) (simp add: unat_of_nat take_bit_nat_eq_self del: of_nat_Suc)
  have "WooFPut (net_transport cl rs (cmq_wire sv) junk other) c str None e = Ret (of_nat (Suc (latest (wf_shared wo))), ?c)"
    using remote_WooFPut[OF q(2,6,1,8) q(9), of e junk other] a(1) assms(2) q(5,7) w by (simp del: of_nat_Suc)
  moreover have "remote_ok cl sv sp sns str name ip port rs n es ?c"
    using q a(2-4) by (auto simp: remote_ok_def)
  moreover from this have "remote_woof name ip port ?c = wf_shared wo'"
    using a(2) reachable_woof(6) by (fastforce simp: remote_woof_def serves_def)
  ultimately show ?thesis using a(5,6) q(3,4) by auto
qed

interpretation remote_log: named_log "remote_ok cl sv sp sns str name ip port rs n es"
  "\<lambda>c. woof_view (remote_woof name ip port c)" "\<lambda>c. latest (remote_woof name ip port c)" n es "2 ^ 31"
  "\<lambda>c e. WooFPut (net_transport cl rs (cmq_wire sv) junk other) c str None e"
  "\<lambda>c s. WooFGet (net_transport cl rs (cmq_wire sv) junk other) c str s"
  for cl sv sp sns str name ip port rs n es junk other
proof (unfold_locales, goal_cases)
  case 1
  then show ?case by simp
next
  case (2 c)
  then obtain q wo where "serves cl sv sp sns str name q wo" "remote_woof name ip port c = wf_shared wo" "hist (wf_shared wo) = n"
    by (rule remote_okE)
  then show ?case using reachable_woof(1) woof_count_le count_le_latest by (fastforce simp: serves_def)
next
  case (3 c e)
  then show ?case by (rule remote_put_step)
next
  case (4 c s)
  obtain q wo where q: "pr_net c (ip, port) = Some q" "serves cl sv sp sns str name q wo" "remote_woof name ip port c = wf_shared wo"
    "leads_to c str ip port" "pr_rs c = rs" "may_ask cl sp sns (ElSizeReq str)" "\<And>s. may_ask cl sp sns (GetReq str s)"
    using remote_okE[OF 4(1)] by metis
  then show ?case using remote_WooFGet[OF q(2,4,1,6) q(7), of s junk other] 4(2) by simp
qed

section \<open>A client, a server and a keychain\<close>

text \<open>
  The guarded demonstration server at 10.0.0.1, and a client in another namespace whose keychain has
  the capability to write to the WooF of the server.
\<close>

definition cmq_resolver :: resolver where
  "cmq_resolver = demo_resolver\<lparr>rs_parse := (\<lambda>s. Some \<lparr>uri_host = Some ''10.0.0.1'', uri_port = 0, uri_path = Some (drop 14 s)\<rparr>)\<rparr>"

abbreviation cmq_temps :: string where
  "cmq_temps \<equiv> ''cmq://10.0.0.1/home/ns/temps''"

definition net_server :: "unit process" where
  "net_server = guarded_server\<lparr>pr_rs := cmq_resolver\<rparr>"

definition demo_port :: string where
  "demo_port = decimal (unat (ucast (WooFPortHash ''/home/ns'') :: u16))"

definition demo_client :: "unit network process" where
  "demo_client = (demo_process [(''10.0.0.1'', demo_port) \<mapsto> net_server])\<lparr>pr_rs := cmq_resolver, pr_ns := idle_ns\<lparr>WooF_namespace := ''/home/app''\<rparr>\<rparr>"

definition demo_cl :: client where
  "demo_cl = \<lparr>cl_fs = [''./capabilities.yaml'' \<mapsto> \<lparr>cf_mode = 0x180, cf_text = WooFCapPrint cmq_temps (ladder succ_hmac 100 4)\<rparr>],
     cl_home = None, cl_hmac = succ_hmac, cl_dead = (\<lambda>s. if length s \<le> 15 then s else [])\<rparr>"

lemma cmq_temps_names: "names_woof cmq_resolver cmq_temps ''/home/ns'' ''temps''"
  by (simp add: names_woof_def uri_path_of_def cmq_resolver_def WooFValidURI_def NUL_def)

lemma cmq_local_ip: "local_ip cmq_resolver = Ret (Some ''10.0.0.9'')"
  by (simp add: local_ip_def WooFLocalIP_def copy_addr_def cmq_resolver_def demo_resolver_def)

lemma net_server_simps [simp]:
  "path_of net_server n = ''/home/ns/'' @ n" "pr_rs net_server = cmq_resolver" "pr_files net_server = pr_files guarded_server"
  using guarded_server_path(1) by (simp_all add: net_server_def path_of_def)

lemma net_server_ok: "process_ok net_server"
  using guarded_ok cmq_local_ip by (simp add: process_ok_def net_server_def)

lemma net_reachable: "reachable net_server cmq_temps ''temps'' demo_woof"
proof -
  have "holds net_server ''temps'' demo_woof"
    using net_server_ok guarded_reachable guarded_files(1) by (simp add: holds_def reachable_def located_def)
  then show ?thesis
    using cmq_temps_names guarded_reachable by (auto simp: reachable_def located_def NUL_def)
qed

lemma net_caps: "cap_state net_server (''temps'' @ ''.CAP'') (Some 100)" "cap_state net_server ''CSPOT.CAP'' None"
proof -
  have u: "\<not> WooFValidURI ''temps.CAP''" "\<not> WooFValidURI ''CSPOT.CAP''" by (simp_all add: WooFValidURI_def)
  then show "cap_state net_server (''temps'' @ ''.CAP'') (Some 100)" "cap_state net_server ''CSPOT.CAP'' None"
    using cap_woof_ok[of 100] net_server_ok
    by (auto simp: cap_state_def stores_cap_def holds_def guarded_files intro!: exI[of _ "cap_woof 100"] WooFOpen_absent)
qed

lemma net_serves: "serves demo_cl demo_sv (Some 100) None cmq_temps ''temps'' net_server demo_woof"
  using net_reachable net_caps demo_woof_facts(1,2) guarded_dead by (simp add: serves_def demo_cl_def demo_sv_def keeps_short_def net_server_def MAX_RW_COUNT_def)

lemma demo_leads_to: "leads_to demo_client cmq_temps ''10.0.0.1'' demo_port"
proof -
  have rs: "pr_rs demo_client = cmq_resolver" "WooF_namespace (pr_ns demo_client) = ''/home/app''" by (simp_all add: demo_client_def)
  have ns: "ns_from_uri cmq_resolver cmq_temps = Ret (Some ''/home/ns'')"
    using NameSpaceFromURI_ok[OF cmq_temps_names, of 1024] by (simp add: ns_from_uri_def)
  have u: "WooFValidURI cmq_temps" by (simp add: WooFValidURI_def)
  have ip: "ip_from_uri cmq_resolver cmq_temps = Ret (Some ''10.0.0.1'')"
    using u by (simp add: ip_from_uri_def WooFIPAddrFromURI_def cmq_resolver_def demo_resolver_def) (simp add: copy_addr_def)
  have pt: "port_from_uri cmq_resolver cmq_temps = None"
    using u by (simp add: port_from_uri_def WooFPortFromURI_def cmq_resolver_def)
  show ?thesis
    by (simp add: leads_to_def IsRemoteWoof_def rs ns ip cmq_local_ip ip_from_woof_def port_from_woof_def pt demo_port_def backend_from_woof_def)
qed

lemma demo_may_ask:
  assumes "request_uri r = cmq_temps" "cap_perm r \<le> 3"
  shows "may_ask demo_cl (Some 100) None r"
proof -
  let ?es = "[(False, cmq_temps, ladder succ_hmac 100 4)]"
  have "private_mode 0x180"
    by (simp add: private_mode_def S_IRUSR_def S_IRGRP_def S_IWGRP_def S_IXGRP_def S_IROTH_def S_IWOTH_def)
  then have "keychain_of demo_cl ?es"
    by (simp add: keychain_of_def demo_cl_def WooFCapFile_def print_entry_def keychain_name_def plain_def is_space_def NUL_def del: ladder.simps)
  then show ?thesis
    using assms by (intro keychain_may_ask[of demo_cl ?es r 100 4]) (simp_all add: entry_for_def demo_cl_def mask_of_def del: ladder.simps)
qed

lemma demo_remote_ok:
  "remote_ok demo_cl demo_sv (Some 100) None cmq_temps ''temps'' ''10.0.0.1'' demo_port cmq_resolver 2 1 demo_client"
proof -
  have "pr_net demo_client (''10.0.0.1'', demo_port) = Some net_server" "pr_rs demo_client = cmq_resolver"
    by (simp_all add: demo_client_def demo_process_def)
  moreover have "hist (wf_shared demo_woof) = 2" by (simp add: demo_woof_def wrapped_woof_def)
  ultimately show ?thesis
    using net_serves demo_leads_to demo_may_ask demo_woof_facts(1) by (auto simp: remote_ok_def perm_defs)
qed

section \<open>Properties\<close>

text \<open>C8: an operation on a remote WooF is the operation of the server on its own WooF. For a client
  whose requests are granted, a put, a get and the query for the newest number under the URI return
  what the same operation returns in the process of the server under the plain name, and change
  the network only by what that operation changes in the process. The numbers, which pass through a
  32-bit signed integer on the way, are below \<open>2 ^ 31\<close>, and texts of at most 15 characters are
  intact after their destruction on both sides.\<close>

theorem remote_equals_local:
  assumes "serves cl sv sp sns str name q wo" "leads_to c str ip port" "pr_net c (ip, port) = Some q"
    "may_ask cl sp sns (ElSizeReq str)" "may_ask cl sp sns (PutReq str h e)" "may_ask cl sp sns (GetReq str s)"
    "may_ask cl sp sns (LatestReq str)" "request_ok (wf_shared wo) (PutReq str h e)" "length e = elsz (wf_shared wo)"
    "unat s < 2 ^ 32" "Suc (latest (wf_shared wo)) < 2 ^ 31"
  shows "WooFPut (cmq_net cl sv junk other c) c str h e =
      run_bind (WooFPutWithCause tr q name h e 0 0) (\<lambda>(n, q'). Ret (n, set_server c ip port q'))
    \<and> WooFGet (cmq_net cl sv junk other c) c str s =
      run_bind (WooFGet tr q name s) (\<lambda>(err, el, q'). Ret (err, el, set_server c ip port q'))
    \<and> WooFGetLatestSeqnoWithCause (cmq_net cl sv junk other c) c str =
      run_bind (WooFGetLatestSeqnoWithCause tr q name) (\<lambda>(n, q'). Ret (n, set_server c ip port q'))"
proof -
  have r: "reachable q str name wo" using assms(1) by (simp add: serves_def)
  note w = reachable_woof[OF r]
  have same: "set_server c ip port q = c" using assms(3) by (simp add: fun_upd_idem)
  have l: "wfs_seq_no (wf_shared wo) - 1 = of_nat (latest (wf_shared wo))"
    unfolding unat_latest[OF w(1), symmetric] by simp
  have "unat (wfs_seq_no (wf_shared wo)) = Suc (latest (wf_shared wo))" using w(1) by (simp add: woof_wf_def latest_def)
  then have q: "widen (ucast (wfs_seq_no (wf_shared wo))) = wfs_seq_no (wf_shared wo)" using assms(11) by (intro widen_small) simp
  have lw: "widen (ucast (of_nat (latest (wf_shared wo)) :: u64)) = of_nat (latest (wf_shared wo))"
    using assms(11) by (intro widen_small) (simp add: unat_of_nat take_bit_nat_eq_self)
  have "run_bind (append_named q name h e 0 0) (\<lambda>(n, q'). Ret (widen (ucast n), set_server c ip port q'))
      = run_bind (append_named q name h e 0 0) (\<lambda>(n, q'). Ret (n, set_server c ip port q'))"
    using append_named_number[OF reachable_name(4)[OF r], of h e 0 0] q by (cases "append_named q name h e 0 0") auto
  moreover have "WooFPutWithCause tr q name h e 0 0 = append_named q name h e 0 0" using w(4,5) by (simp add: WooFPutWithCause_def)
  moreover have "WooFGetLatestSeqnoWithCause tr q name = Ret (of_nat (latest (wf_shared wo)), q)"
    using w(4,5) reachable_open(1)[OF r] l by (simp add: WooFGetLatestSeqnoWithCause_def)
  ultimately show ?thesis
    using remote_WooFPut[OF assms(1-5,8,9), of junk other] remote_WooFGet[OF assms(1-4,6,10), of junk other]
      remote_WooFGetLatest[OF assms(1-3,7), of junk other] WooFGet_plain[OF reachable_name(4)[OF r], of tr s] same lw
    by (simp split: option.splits)
qed

theorem remote_equals_local_witness:
  "WooFGet (cmq_net demo_cl demo_sv 0 no_network demo_client) demo_client cmq_temps 3 = Ret (1, Some [30], demo_client)"
proof -
  have c: "pr_net demo_client (''10.0.0.1'', demo_port) = Some net_server" by (simp add: demo_client_def demo_process_def)
  have g: "WooFGet no_network net_server ''temps'' 3 = Ret (1, Some [30], net_server)"
    using WooFGet_plain[OF reachable_name(4)[OF net_reachable], of no_network 3] demo_woof_facts by (simp add: spec_read_def)
  have m: "may_ask demo_cl (Some 100) None r" if "request_uri r = cmq_temps" "cap_perm r \<le> 3" for r
    using demo_may_ask[OF that] .
  have "WooFGet (cmq_net demo_cl demo_sv 0 no_network demo_client) demo_client cmq_temps 3 =
      run_bind (WooFGet no_network net_server ''temps'' 3) (\<lambda>(err, el, q'). Ret (err, el, set_server demo_client ''10.0.0.1'' demo_port q'))"
    using remote_equals_local[OF net_serves demo_leads_to c, of None "[7]" 3 0 no_network no_network] m demo_woof_facts(1,2)
    by (simp add: perm_defs)
  then show ?thesis using g c by (simp add: fun_upd_idem)
qed

text \<open>C9: a client keeps its history in a remote WooF as in a local one. When the client puts a list
  of elements under a URI of the server, one after the other, every put returns the next number, and
  a get of such a number returns the element while it is among the last \<open>n\<close> and fails for the
  older ones; requests, authorization and replies included, for numbers below \<open>2 ^ 31\<close> and with short
  texts intact after their destruction.\<close>

theorem remote_put_get:
  assumes "remote_ok cl sv sp sns str name ip port rs n es c" "\<forall>e\<in>set els. length e = es"
    "latest (remote_woof name ip port c) + length els < 2 ^ 31" "tr = net_transport cl rs (cmq_wire sv) junk other"
  shows "\<exists>c'. put_seq (\<lambda>c e. WooFPut tr c str None e) c els
      = Ret (map (\<lambda>i. of_nat (latest (remote_woof name ip port c) + Suc i)) [0..<length els], c')
    \<and> (\<forall>i. i < length els \<longrightarrow> WooFGet tr c' str (of_nat (latest (remote_woof name ip port c) + Suc i)) =
        Ret (if length els - i \<le> n then (1, Some (els ! i), c') else (- 1, None, c')))"
proof -
  let ?ns = "map (\<lambda>i. of_nat (latest (remote_woof name ip port c) + Suc i)) [0..<length els] :: u64 list"
  obtain c' where c': "put_seq (\<lambda>c e. WooFPut tr c str None e) c els = Ret (?ns, c')"
    unfolding assms(4) using remote_log.put_seq_ok[OF assms(1-3), of junk other] by blast
  have "WooFGet tr c' str (?ns ! i) = Ret (if length els - i \<le> n then (1, Some (els ! i), c') else (- 1, None, c'))"
    if "i < length els" for i
    using remote_log.put_seq_get[OF assms(1-3) c'[unfolded assms(4)], of i] that unfolding assms(4) by (auto simp: not_le)
  then show ?thesis using c' by (intro exI[of _ c']) (simp del: of_nat_add of_nat_Suc)
qed

theorem remote_put_get_witness:
  "\<exists>c'. put_seq (\<lambda>c e. WooFPut (cmq_net demo_cl demo_sv 0 no_network demo_client) c cmq_temps None e) demo_client [[1], [2], [3]]
      = Ret ([4, 5, 6], c')
    \<and> WooFGet (cmq_net demo_cl demo_sv 0 no_network demo_client) c' cmq_temps 6 = Ret (1, Some [3], c')
    \<and> WooFGet (cmq_net demo_cl demo_sv 0 no_network demo_client) c' cmq_temps 4 = Ret (- 1, None, c')"
proof -
  have "pr_net demo_client (''10.0.0.1'', demo_port) = Some net_server" by (simp add: demo_client_def demo_process_def)
  then have l: "latest (remote_woof ''temps'' ''10.0.0.1'' demo_port demo_client) = 3"
    using reachable_woof(6)[OF net_reachable] demo_woof_facts(2) by (simp add: remote_woof_def)
  have rs: "pr_rs demo_client = cmq_resolver" by (simp add: demo_client_def)
  define tr where "tr = cmq_net demo_cl demo_sv 0 no_network demo_client"
  let ?els = "[[1], [2], [3]] :: bytes list"
  have ns: "map (\<lambda>i. of_nat (3 + Suc i)) [0..<length ?els] = ([4, 5, 6] :: u64 list)" by (simp add: upt_rec)
  obtain c' where c': "put_seq (\<lambda>c e. WooFPut tr c cmq_temps None e) demo_client ?els = Ret ([4, 5, 6], c')"
    "\<forall>i. i < length ?els \<longrightarrow> WooFGet tr c' cmq_temps (of_nat (3 + Suc i)) =
        Ret (if length ?els - i \<le> 2 then (1, Some (?els ! i), c') else (- 1, None, c'))"
    using remote_put_get[OF demo_remote_ok, of ?els tr 0 no_network] unfolding rs l ns tr_def by auto
  have "WooFGet tr c' cmq_temps 6 = Ret (1, Some [3], c')" "WooFGet tr c' cmq_temps 4 = Ret (- 1, None, c')"
    using spec[OF c'(2), of 2] spec[OF c'(2), of 0] by simp_all
  then show ?thesis using c'(1) unfolding tr_def by blast
qed

end
