(* ===== verification/Cmq_Safety.thy ===== *)
theory Cmq_Safety
  imports Cmq_Server
begin

text \<open>
  What any client can do to the files of a CMQ server (\<^verbatim>\<open>src/src/net/cmq/cmq-backend.cpp\<close>, \<^verbatim>\<open>server.cpp\<close>).
  The messages here are arbitrary: wrong numbers of frames, missing payloads, names that lead
  nowhere, any capability. As long as the server does not fault, the only effect that a message
  other than a creation has on the files is one append to one WooF.
\<close>

section \<open>Operations that leave the WooF as it is\<close>

lemma read_same: "WooFReadWithCause w s = Ret (err, e, w') \<Longrightarrow> w' = w"
  by (auto simp: WooFReadWithCause_def Let_def run_bind_Ret_iff futex.bracket split: if_splits)

lemma read_tail_same: "WooFReadTail w n = Ret (r, es, w') \<Longrightarrow> w' = w"
  by (auto simp: WooFReadTail_def Let_def run_bind_Ret_iff futex.bracket)

lemma serve_range_same: "serve_range w r_size k i s = Ret (es, w') \<Longrightarrow> w' = w"
  by (induction k arbitrary: w i es) (auto simp: run_bind_Ret_iff split: if_splits dest!: read_same)

lemma open_file:
  assumes "WooFOpen p name = Ret (Some (path, wo))"
  shows "pr_files p path = Some wo"
  using assms by (auto simp: WooFOpen_def run_bind_Ret_iff split: if_splits option.splits)

lemma put_shared_opened: "WooFOpen p name = Ret (Some (path, wo)) \<Longrightarrow> put_shared p path wo (wf_shared wo) = p"
  using put_shared_same open_file by metis

lemma attenuated_key_same:
  assumes "WooFOpen p name = Ret (Some opened)" "attenuated_key hmac p opened perm = Ret (key, p')"
  shows "p' = p"
  using assms put_shared_opened
  by (cases opened) (auto simp: attenuated_key_def Let_def run_bind_Ret_iff split: if_splits dest!: read_same)

lemma key_same:
  assumes "WooFOpen p n = Ret o'" "(case o' of None \<Rightarrow> Ret (None, p) | Some opened \<Rightarrow> attenuated_key hmac p opened perm) = Ret (key, p1)"
  shows "p1 = p"
  using assms attenuated_key_same by (cases o') auto

lemma authorize_same: "returns (\<lambda>(v, p'). p' = p) (authorize hmac p cap name perm payload)"
  unfolding authorize_def by (intro returns_intros; simp?; (drule (1) key_same, simp)?; (metis key_same)?)

section \<open>Requests that read\<close>

lemma GetElSize_same: "returns (\<lambda>(r, p'). p' = p) (WooFProcessGetElSize p fl no_cap)"
  unfolding WooFProcessGetElSize_def destroy_frame_as_list_def by (intro returns_intros) auto

lemma GetLatestSeqno_same: "returns (\<lambda>(r, p'). p' = p) (WooFProcessGetLatestSeqno p fl no_cap)"
  unfolding WooFProcessGetLatestSeqno_def by (intro returns_intros) auto

lemma Get_same: "returns (\<lambda>(r, p'). p' = p) (WooFProcessGet p fl no_cap)"
  unfolding WooFProcessGet_def by (intro returns_intros) (auto simp: put_shared_opened dest!: read_same)

lemma GetRange_same: "returns (\<lambda>(r, p'). p' = p) (WooFProcessGetRange p fl no_cap)"
  unfolding WooFProcessGetRange_def by (intro returns_intros) (auto simp: put_shared_opened dest!: serve_range_same)

lemma GetTail_same: "returns (\<lambda>(r, p'). p' = p) (WooFProcessGetTail p fl no_cap)"
  unfolding WooFProcessGetTail_def by (intro returns_intros) (auto simp: put_shared_opened dest!: read_tail_same)

lemma Earliest_files: "returns (\<lambda>(n, p'). pr_files p' = pr_files p) (WooFGetEarliestSeqno tr p name)"
  unfolding WooFGetEarliestSeqno_def by (intro returns_intros) auto

lemma GetEarliest_files: "returns (\<lambda>(r, p'). pr_files p' = pr_files p) (WooFProcessGetEarliestSeqno tr p fl no_cap)"
  unfolding WooFProcessGetEarliestSeqno_def destroy_frame_as_list_def
  by (intro returns_intros) (auto dest: returnsD[OF Earliest_files])

section \<open>Requests that put\<close>

text \<open>One append to one of the WooFs, or nothing.\<close>

definition one_append :: "'n process \<Rightarrow> 'n process \<Rightarrow> bool" where
  "one_append p p' \<longleftrightarrow> pr_files p' = pr_files p \<or>
     (\<exists>path wo w' e. pr_files p path = Some wo \<and> appended (wf_shared wo) e w'
        \<and> pr_files p' = (pr_files p)(path \<mapsto> wo\<lparr>wf_shared := w'\<rparr>))"

lemma one_append_same [simp]: "pr_files p' = pr_files p \<Longrightarrow> one_append p p'"
  by (simp add: one_append_def)

text \<open>All WooFs are usable, and at least \<open>k\<close> sequence numbers are left in each.\<close>

definition files_ok :: "nat \<Rightarrow> 'n process \<Rightarrow> bool" where
  "files_ok k p \<longleftrightarrow> (\<forall>path wo. pr_files p path = Some wo \<longrightarrow>
     usable wo \<and> unat (wfs_seq_no (wf_shared wo)) + k < 2 ^ 64)"

lemma append_length:
  assumes "WooFAppendWithCause ts ns wo hand e ch cs = Ret (s, wo', ns')"
  shows "elsz (wf_shared wo) \<le> length e"
  using assms by (auto simp: WooFAppendWithCause_def woof_push_def slot_write_def Let_def run_bind_Ret_iff not_less split: if_splits)

lemma append_returns:
  assumes "usable wo" "unat (wfs_seq_no (wf_shared wo)) + 1 < 2 ^ 64"
    "WooFAppendWithCause ts ns wo hand e ch cs = Ret (s, wo', ns')"
  shows "\<exists>w'. appended (wf_shared wo) e w' \<and> wo' = wo\<lparr>wf_shared := w'\<rparr>"
proof -
  have u: "woof_wf (wf_shared wo)" "woof_idle (wf_shared wo)" "unat (wfs_seq_no (wf_shared wo)) < 2 ^ 64 - 1"
    using assms(1,2) by (simp_all add: usable_def)
  show ?thesis
    by (rule append_ok[OF u(1,2) append_length[OF assms(3)] u(3), of None ns ts ch cs]) (use append_handler[OF assms(3)] in auto)
qed

lemma append_named_step:
  assumes "files_ok 1 p"
  shows "returns (\<lambda>(s, p'). one_append p p') (append_named p name hand e ch cs)"
  unfolding append_named_def
proof (intro returns_intros; simp)
  fix path wo s wo' ns'
  assume "WooFOpen p name = Ret (Some (path, wo))" "WooFAppendWithCause (pr_now p) (pr_ns p) wo hand e ch cs = Ret (s, wo', ns')"
  then show "one_append p (write_back p path wo'\<lparr>pr_ns := ns'\<rparr>)"
    using append_returns[of wo "pr_now p" "pr_ns p" hand e ch cs s wo' ns'] open_file assms
    by (fastforce simp: one_append_def write_back_def files_ok_def)
qed

lemma PutWithCause_step:
  assumes "files_ok 1 p"
  shows "returns (\<lambda>(s, p'). one_append p p') (WooFPutWithCause tr p name hand e ch cs)"
proof -
  have "returns (\<lambda>(s, p'). one_append p p') (remote_put_named tr p name hand e)"
    unfolding remote_put_named_def by (intro returns_intros) auto
  then show ?thesis
    unfolding WooFPutWithCause_def using append_named_step[OF assms]
    by (intro returns_intros) simp_all
qed

lemma Put_step:
  assumes "files_ok 1 p"
  shows "returns (\<lambda>(r, p'). one_append p p') (WooFProcessPut tr p fl no_cap)"
  unfolding WooFProcessPut_def
  by (intro returns_intros) (auto dest: returnsD[OF PutWithCause_step[OF assms]])

text \<open>A capability in front of a request adds only the check.\<close>

lemma authorized_same: "authorize hmac p cap name perm payload = Ret (v, p1) \<Longrightarrow> p1 = p"
  using returnsD[OF authorize_same] by fastforce

lemma GetElSizewithCAP_same: "returns (\<lambda>(r, p'). p' = p) (WooFProcessGetElSizewithCAP hmac p fl)"
  unfolding WooFProcessGetElSizewithCAP_def by (intro returns_intros; use GetElSize_same in \<open>auto dest!: authorized_same\<close>)

lemma GetwithCAP_same: "returns (\<lambda>(r, p'). p' = p) (WooFProcessGetwithCAP hmac p fl)"
  unfolding WooFProcessGetwithCAP_def by (intro returns_intros; use Get_same in \<open>auto dest!: authorized_same\<close>)

lemma GetRangewithCAP_same: "returns (\<lambda>(r, p'). p' = p) (WooFProcessGetRangewithCAP hmac p fl)"
  unfolding WooFProcessGetRangewithCAP_def by (intro returns_intros; use GetRange_same in \<open>auto dest!: authorized_same\<close>)

lemma GetLatestSeqnowithCAP_same: "returns (\<lambda>(r, p'). p' = p) (WooFProcessGetLatestSeqnowithCAP hmac p fl)"
  unfolding WooFProcessGetLatestSeqnowithCAP_def by (intro returns_intros; use GetLatestSeqno_same in \<open>auto dest!: authorized_same\<close>)

lemma GetTailwithCAP_same: "returns (\<lambda>(r, p'). p' = p) (WooFProcessGetTailwithCAP hmac p fl)"
  unfolding WooFProcessGetTailwithCAP_def by (intro returns_intros; use GetTail_same in \<open>auto dest!: authorized_same\<close>)

lemmas caps_same = GetElSizewithCAP_same GetwithCAP_same GetRangewithCAP_same GetLatestSeqnowithCAP_same GetTailwithCAP_same

lemma GetEarliestCAP_files: "returns (\<lambda>(r, p'). pr_files p' = pr_files p) (WooFProcessGetEarliestSeqnowithCAP tr hmac p fl)"
  unfolding WooFProcessGetEarliestSeqnowithCAP_def
  by (intro returns_intros; use GetEarliest_files in \<open>auto dest!: authorized_same\<close>)

lemma PutCAP_step:
  assumes "files_ok 1 p"
  shows "returns (\<lambda>(r, p'). one_append p p') (WooFProcessPutwithCAP tr hmac p fl)"
  unfolding WooFProcessPutwithCAP_def
  by (intro returns_intros; use Put_step[OF assms] in \<open>auto dest!: authorized_same\<close>)

section \<open>Any message\<close>

lemma returns_mono: "returns P m \<Longrightarrow> (\<And>x. P x \<Longrightarrow> Q x) \<Longrightarrow> returns Q m"
  by (simp add: returns_def)

lemma dispatch_reads:
  assumes "tag \<notin> {1, 21, 31}"
  shows "returns (\<lambda>(r, p'). pr_files p' = pr_files p) (dispatch sv p tag fl)"
proof -
  have same: "returns (\<lambda>(r, p'). p' = p) m \<Longrightarrow> returns (\<lambda>(r, p'). pr_files p' = pr_files p) m" for m :: "(msg option \<times> 'a process) run"
    by (auto simp: returns_def)
  show ?thesis
    using assms same[OF GetElSize_same] same[OF Get_same] same[OF GetRange_same] same[OF GetLatestSeqno_same] same[OF GetTail_same]
      caps_same[THEN same]
    by (simp add: dispatch_def GetEarliest_files GetEarliestCAP_files)
qed

lemma dispatch_step:
  assumes "files_ok 1 p" "tag \<noteq> 31"
  shows "returns (\<lambda>(r, p'). one_append p p') (dispatch sv p tag fl)"
proof (cases "tag = 1 \<or> tag = 21")
  case True
  then show ?thesis using Put_step[OF assms(1)] PutCAP_step[OF assms(1)] by (auto simp: dispatch_def)
next
  case False
  then show ?thesis using returns_mono[OF dispatch_reads[of tag p sv fl]] assms(2) by (fastforce simp: one_append_def)
qed

text \<open>
  How a WooF may change: the same sizes, and at most \<open>k\<close> more elements, put in front of those it
  retained.
\<close>

definition extended :: "nat \<Rightarrow> WOOF_SHARED \<Rightarrow> WOOF_SHARED \<Rightarrow> bool" where
  "extended k w w' \<longleftrightarrow> elsz w' = elsz w \<and> hist w' = hist w
     \<and> (\<exists>new. length new \<le> k \<and> latest w' = latest w + length new \<and> woof_view w' = take (hist w) (new @ woof_view w))"

lemma extended_refl: "woof_wf w \<Longrightarrow> extended k w w"
  using woof_count_le[of w] by (auto simp: extended_def intro!: exI[of _ "[]"])

lemma extended_append:
  assumes "appended w e w'" "unat (wfs_seq_no w) < 2 ^ 64 - 1" "woof_wf w"
  shows "extended 1 w w'"
proof -
  have "woof_view w' = take (hist w) ([take (elsz w) e] @ woof_view w)" using appendedD(2)[OF assms(1)] by simp
  then show ?thesis
    unfolding extended_def using appendedD(4,5)[OF assms(1)] appended_latest(1)[OF assms]
    by (intro conjI exI[of _ "[take (elsz w) e]"]) simp_all
qed

lemma extended_trans:
  assumes "extended j w w1" "extended k w1 w2"
  shows "extended (j + k) w w2"
proof -
  obtain n1 where n1: "elsz w1 = elsz w" "hist w1 = hist w" "length n1 \<le> j" "latest w1 = latest w + length n1"
    "woof_view w1 = take (hist w) (n1 @ woof_view w)" using assms(1) by (auto simp: extended_def)
  obtain n2 where n2: "elsz w2 = elsz w1" "hist w2 = hist w1" "length n2 \<le> k" "latest w2 = latest w1 + length n2"
    "woof_view w2 = take (hist w1) (n2 @ woof_view w1)" using assms(2) by (auto simp: extended_def)
  have "woof_view w2 = take (hist w) ((n2 @ n1) @ woof_view w)"
    unfolding n2(5) n1(2,5) by (simp only: take_append_take append_assoc)
  then show ?thesis unfolding extended_def using n1 n2 by (intro conjI exI[of _ "n2 @ n1"]) simp_all
qed

text \<open>The same for the files of a server.\<close>

definition grown :: "nat \<Rightarrow> 'n process \<Rightarrow> 'n process \<Rightarrow> bool" where
  "grown k p p' \<longleftrightarrow> dom (pr_files p') = dom (pr_files p) \<and> (\<forall>path wo wo'. pr_files p path = Some wo \<and> pr_files p' path = Some wo' \<longrightarrow>
     extended k (wf_shared wo) (wf_shared wo'))"

lemma grown_trans:
  assumes "grown j p p1" "grown k p1 p2"
  shows "grown (j + k) p p2"
  unfolding grown_def
proof (intro conjI allI impI)
  show "dom (pr_files p2) = dom (pr_files p)" using assms by (simp add: grown_def)
next
  fix path wo wo2 assume a: "pr_files p path = Some wo \<and> pr_files p2 path = Some wo2"
  then have "path \<in> dom (pr_files p1)" using assms(1) by (auto simp: grown_def)
  then obtain wo1 where "pr_files p1 path = Some wo1" by blast
  then show "extended (j + k) (wf_shared wo) (wf_shared wo2)" using assms a extended_trans unfolding grown_def by metis
qed

lemma grown_same:
  assumes "files_ok k p" "pr_files p' = pr_files p"
  shows "grown j p p'"
  using assms extended_refl by (auto simp: grown_def files_ok_def usable_def)

lemma files_ok_mono: "files_ok k p \<Longrightarrow> j \<le> k \<Longrightarrow> files_ok j p"
  by (fastforce simp: files_ok_def)

lemma one_append_ok:
  assumes "files_ok (Suc k) p" "one_append p p'"
  shows "files_ok k p'" "grown 1 p p'"
proof -
  consider (same) "pr_files p' = pr_files p"
    | (app) path wo w' e where "pr_files p path = Some wo" "appended (wf_shared wo) e w'"
        "pr_files p' = (pr_files p)(path \<mapsto> wo\<lparr>wf_shared := w'\<rparr>)"
    using assms(2) by (auto simp: one_append_def)
  then have "files_ok k p' \<and> grown 1 p p'"
  proof cases
    case same
    then show ?thesis using files_ok_mono[OF assms(1), of k] grown_same[OF assms(1) same] by (auto simp: files_ok_def)
  next
    case app
    have u: "usable wo" "unat (wfs_seq_no (wf_shared wo)) + Suc k < 2 ^ 64" using app(1) assms(1) by (auto simp: files_ok_def)
    have s: "unat (wfs_seq_no w') = Suc (unat (wfs_seq_no (wf_shared wo)))"
      using u(2) appendedD(3)[OF app(2)] unat64_add[of "wfs_seq_no (wf_shared wo)" 1] by simp
    have w: "usable (wo\<lparr>wf_shared := w'\<rparr>)" by (rule usable_appended[OF u(1) app(2)])
    have "files_ok k p'"
      using files_ok_mono[OF assms(1), of k] w s u(2) app(3) by (auto simp: files_ok_def)
    moreover have "grown 1 p p'"
      using app u extended_append[OF app(2)] extended_refl assms(1) by (auto simp: grown_def files_ok_def usable_def)
    ultimately show ?thesis by blast
  qed
  then show "files_ok k p'" "grown 1 p p'" by simp_all
qed

text \<open>The message asks for the creation of a WooF.\<close>

definition creates :: "msg \<Rightarrow> bool" where
  "creates m = (case m of [] \<Rightarrow> False | f # _ \<Rightarrow> (case frame_string f of Ret s \<Rightarrow> fst (strtol s) = 31 | _ \<Rightarrow> False))"

section \<open>Properties\<close>

lemma serve_keeps_files:
  assumes "files_ok (length ms + k) p" "\<forall>m\<in>set ms. \<not> creates m" "serve_connection sv p ms = Ret (replies, on, p')"
  shows "files_ok k p' \<and> grown (length ms) p p'"
  using assms
proof (induction sv p ms arbitrary: replies on rule: serve_connection.induct)
  case (3 sv p f fl ms)
  obtain s where s: "frame_string f = Ret s" using 3(4) by (auto simp: run_bind_Ret_iff)
  obtain r p1 where d: "dispatch sv p (fst (strtol s)) fl = Ret (r, p1)" using 3(4) s by (auto simp: run_bind_Ret_iff)
  obtain rs on' where c: "serve_connection sv p1 ms = Ret (rs, on', p')" using 3(4) s d by (auto simp: run_bind_Ret_iff split: option.splits)
  have "fst (strtol s) \<noteq> 31" using 3(3) s by (simp add: creates_def)
  then have "one_append p p1" using returnsD[OF dispatch_step d] files_ok_mono[OF 3(2), of 1] by simp
  then have ok: "files_ok (length ms + k) p1" "grown 1 p p1" using one_append_ok[of "length ms + k" p p1] 3(2) by auto
  have "files_ok k p' \<and> grown (length ms) p1 p'" using 3(1)[OF s d refl ok(1) _ c] 3(3) by simp
  then show ?case using grown_trans[OF ok(2)] by simp
next
  case (2 sv p ms)
  then show ?case using files_ok_mono[OF 2(1), of k] grown_same[OF 2(1) refl] by auto
next
  case (1 sv p)
  then show ?case using grown_same[OF 1(1) refl] by auto
qed

lemma serve_all_keeps_files:
  assumes "files_ok (length (concat cs) + k) p" "\<forall>m\<in>set (concat cs). \<not> creates m" "serve_all sv n p cs = Ret (rs, left, p')"
  shows "files_ok k p' \<and> grown (length (concat cs)) p p'"
  using assms
proof (induction sv n p cs arbitrary: rs left rule: serve_all.induct)
  case (1 sv n p)
  then show ?case using grown_same[OF 1(1) refl] by auto
next
  case (2 sv p c cs)
  then show ?case using files_ok_mono[OF 2(1), of k] grown_same[OF 2(1) refl] by auto
next
  case (3 sv n p c cs)
  obtain replies on p1 where c: "serve_connection sv p c = Ret (replies, on, p1)" using 3(4) by (auto simp: run_bind_Ret_iff)
  obtain rs' left' where r: "serve_all sv (if on then Suc n else n) p1 cs = Ret (rs', left', p')"
    using 3(4) c by (auto simp: run_bind_Ret_iff)
  have "files_ok (length c + (length (concat cs) + k)) p" using 3(2) by (simp add: add.assoc)
  then have ok: "files_ok (length (concat cs) + k) p1" "grown (length c) p p1"
    using serve_keeps_files[of c _ p sv] 3(3) c by auto
  then have "files_ok k p' \<and> grown (length (concat cs)) p1 p'" using 3(1)[OF c refl refl _ _ r] 3(3) by simp
  then show ?case using grown_trans[OF ok(2)] by simp
qed

text \<open>C35: whatever clients send, the files of the server are only appended to. For any connections with
  any messages other than requests for creation, also malformed and unauthorized ones, that the
  server handles without a fault, it has afterwards the same WooFs with the same sizes, all of them
  well-formed and with their semaphores free. Each retains what it retained, behind at most as many
  new elements as there were messages, up to its history size, and its sequence number has advanced
  by the number of the new elements.\<close>

theorem messages_append_only:
  assumes "files_ok (length (concat cs)) p" "\<forall>m\<in>set (concat cs). \<not> creates m" "serve_all sv n p cs = Ret (rs, left, p')"
  shows "files_ok 0 p' \<and> grown (length (concat cs)) p p'"
  using serve_all_keeps_files[of cs 0 p sv n rs left p'] assms by simp

theorem messages_append_only_witness:
  "\<exists>p'. serve_all demo_sv WOOF_MSG_THREADS demo_server [[[Some (c_bytes ''99''), None], encode_request (PutReq temps_uri None [40])]]
      = Ret ([[number_reply id 4]], WOOF_MSG_THREADS, p') \<and> files_ok 0 p' \<and> grown 2 demo_server p'"
proof -
  let ?ms = "[[Some (c_bytes ''99''), None], encode_request (PutReq temps_uri None [40])]"
  note l = reachable_located[OF demo_reachable]
  have u: "unprotected demo_server ''temps''" by (simp add: unprotected_def demo_server_path) (simp add: demo_server_def)
  have w: "elsz (wf_shared demo_woof) = 1" "wfs_seq_no (wf_shared demo_woof) = 4" by (simp_all add: demo_woof_def wrapped_woof_def)
  obtain w' ns' where a: "append_named demo_server ''temps'' None [40] 0 0 =
      Ret (4, (write_back demo_server (path_of demo_server ''temps'') (demo_woof\<lparr>wf_shared := w'\<rparr>))\<lparr>pr_ns := ns'\<rparr>)"
    by (rule append_named_ok[OF located_name(3)[OF l], of "[40]" None 0 0]) (use w in auto)
  have "''99'' = decimal 99" "decimal 1 = ''1''" by code_simp+
  then have t: "strtol ''99'' = (99, [])" "strtol ''1'' = (1, [])" using strtol_decimal[of 99] strtol_decimal[of 1] by simp_all
  obtain p' where "serve_connection demo_sv demo_server ?ms = Ret ([number_reply id 4], True, p')"
    using number_reply_short[OF demo_dead, of 4] serve_request[OF demo_reachable, of "PutReq temps_uri None [40]" demo_sv] unprotected_open(3)[OF l u] w(1) a t(1)
    by (simp add: spec_serve_def frame_string_def NUL_def dispatch_def)
  then have r: "serve_all demo_sv WOOF_MSG_THREADS demo_server [?ms] = Ret ([[number_reply id 4]], WOOF_MSG_THREADS, p')"
    by (simp add: WOOF_MSG_THREADS_def numeral_eq_Suc)
  have "files_ok (length (concat [?ms])) demo_server"
    using located_name(3)[OF l] w by (auto simp: files_ok_def demo_server_def holds_def)
  moreover have "\<forall>m\<in>set (concat [?ms]). \<not> creates m"
    using t \<open>decimal 1 = ''1''\<close> by (simp add: creates_def encode_request_def frame_string_def NUL_def)
  ultimately have "files_ok 0 p' \<and> grown (length (concat [?ms])) demo_server p'" using messages_append_only[OF _ _ r] by blast
  moreover have "length (concat [?ms]) = 2" by simp
  ultimately show ?thesis using r by metis
qed

end
