(* ===== verification/Spec2Isabelle.thy ===== *)
theory Spec2Isabelle
  imports Cspot_Prelude Sema Event_Log Woof Woof_Ops Dispatch Watermark Launch Caplets Cap_Init Cmq_Frame Cmq_Pkt Cmq_Net Cmq_Safety
begin

text \<open>
  CSPOT is a run-time system for event-driven programs. A program stores data in WooFs: files that
  are mapped into memory and hold a circular log of elements of one size. A put appends an element,
  gives it the next sequence number and may name a handler; it then logs a trigger event in the log
  of the namespace, which the dispatcher of the namespace claims to start the handler. A WooF is
  named by a plain name, when it is in the namespace of the program, or by a URI, when it is
  elsewhere; a remote operation becomes a request to the server of the other namespace. A WooF may
  be protected by a capability (caplet), which clients keep in a keychain file.

  \<^bold>\<open>Configuration.\<close> The model is of the build for 64-bit Linux with futex semaphores and the CMQ
  transport on stream sockets, which is chosen with the build option \<^verbatim>\<open>USE_CMQ\<close> (the default transport is
  ZeroMQ). The other options have their defaults: no causal tracking, no repair, no handler tracking, no
  timing and no debug output. The last makes \<^verbatim>\<open>DEBUG_FATAL_IF\<close> an empty macro
  (\<^verbatim>\<open>src/src/include/debug.h\<close>), so that the checks written with it are not made.

  \<^bold>\<open>Conventions.\<close> Machine integers are words of the width the code uses. An operation is a function
  on the state it reads and writes with a result of type \<open>'a run\<close>: \<open>Ret x\<close> when it returns, \<open>Blocked\<close>
  when it waits on a semaphore that nobody else posts, \<open>Fault\<close> when it traps, reads or writes outside
  its memory, or ends the process. Error returns of the code (\<open>- 1\<close>, a null pointer) are values. Files
  and structures are byte strings where the code addresses bytes, records elsewhere. What is outside
  the repository is an argument: the clock, the allocator, the keyed hash of the capabilities, the
  URI parser and the name resolution of the system, the creation of files and the network between
  processes. Allocation may fail in the frame functions, the shepherd and \<open>WooFCapInit\<close>; in
  \<open>EventCreate\<close>, \<open>WooFCapAttenuate\<close> and the request handlers it succeeds. In the CMQ server and client the
  text of a number is read after the string that held it was destroyed; what is read is a parameter
  (\<open>pr_dead\<close>, \<open>cl_dead\<close>), and the properties that need the text assume by name (\<open>keeps_short\<close>) that a text of
  at most 15 characters, which the string object itself holds, is still there.

  \<^bold>\<open>The parts and their theories.\<close>

  \<^item> \<^verbatim>\<open>Cspot_Prelude\<close>: integer types, the \<open>run\<close> type and its rules (\<open>returns_intros\<close>), byte strings and
    memory, the arithmetic of circular buffers, and the interface \<open>slot_array\<close> of an array of slots,
    which both circular buffers implement.
  \<^item> \<^verbatim>\<open>Sema\<close>: \<^verbatim>\<open>src/src/lsema.c\<close>. \<open>sem_P\<close>, \<open>sem_V\<close> act atomically on the state; \<open>sem_step\<close> has the
    loads, compare-and-swaps and futex calls of the code as interleaved steps of any number of threads.
    Mutual exclusion, the balance of units, the absence of lost wake-ups and the saturation at
    \<^verbatim>\<open>INT_MAX\<close> are invariants of the steps, for locks and for semaphores that some threads post and others
    take. \<open>counting_semaphore\<close> is the contract the other parts use.
  \<^item> \<^verbatim>\<open>Event_Log\<close>: \<^verbatim>\<open>src/src/event.cpp\<close> and the log of a namespace in \<^verbatim>\<open>src/src/log.cpp\<close>. \<open>log_view\<close>
    abstracts the circular buffer to the list of its events; logging is a bounded push, and
    \<open>LogTail\<close> extracts exactly the newer events.
  \<^item> \<^verbatim>\<open>Woof\<close>, \<^verbatim>\<open>Woof_Ops\<close>: the operations on a mapped WooF in \<^verbatim>\<open>src/src/woofc.cpp\<close>. \<open>WOOF_SHARED\<close> is the
    header with the byte array behind it; \<open>woof_view\<close> is the list of the retained elements. The
    invariant \<open>woof_wf\<close> is kept by every operation, an append is a bounded push, a read a lookup, and
    the queries, the tail read, the truncation and \<open>WooFAppend\<close> are characterised on all branches.
  \<^item> \<^verbatim>\<open>C_Strings\<close>, \<^verbatim>\<open>Woof_Names\<close>: C strings, decimal numbers, and the names, URIs, endpoints and hashes of
    \<^verbatim>\<open>src/src/woofc-access.cpp\<close> and \<^verbatim>\<open>src/src/net/cmq/common.cpp\<close>, with the sizes of their buffers.
  \<^item> \<^verbatim>\<open>Woof_Api\<close>: the interface by name of \<^verbatim>\<open>src/src/woofc.cpp\<close>. A \<open>process\<close> has a directory of mapped
    files, the globals of its namespace and the state of the network. The interface \<open>named_log\<close> says
    what a program may rely on when it puts and gets by name; \<open>local_log\<close> shows it for local WooFs.
  \<^item> \<^verbatim>\<open>Dispatch\<close>: the forker threads of \<^verbatim>\<open>src/src/woofc-container.cpp\<close>. \<open>forker_claim\<close> scans the log
    backwards from its head for the oldest trigger without a firing event; \<open>dispatch_step\<close> interleaves
    the puts that log triggers with any number of forkers. Every trigger is claimed at most once and in
    the order in which it was logged, and a forker that is woken finds one.
  \<^item> \<^verbatim>\<open>Watermark\<close>, \<^verbatim>\<open>Launch\<close>: how a claimed trigger becomes a call. \<^verbatim>\<open>Watermark\<close> is the check of the handler's
    ELF file in \<^verbatim>\<open>src/src/woofc-forker-helper.cpp\<close>; \<^verbatim>\<open>Launch\<close> has the globals \<open>WooFContainerInit\<close> sets, the
    message of a forker to its helper, the environment the helper builds and \<^verbatim>\<open>src/src/woofc-shepherd.cpp\<close>,
    which reads the element and calls the handler: the handler gets the element that was put.
  \<^item> \<^verbatim>\<open>Caplets\<close>, \<^verbatim>\<open>Keychain\<close>: \<^verbatim>\<open>src/src/caplets/woofc-caplets.c\<close> and \<^verbatim>\<open>woofc-keychain.c\<close>. Attenuation of
    permissions is a chain of keyed hashes; the order of attenuations does not matter and a check is
    authorised exactly when it lies on the chain. The keychain reader finds what the printer wrote.
    \<^verbatim>\<open>Cap_Init\<close> is \<open>WooFCapInit\<close>, which creates the CAP of a WooF with its principal capability.
  \<^item> \<^verbatim>\<open>Cmq_Frame\<close>, \<^verbatim>\<open>Cmq_Pkt\<close>: \<^verbatim>\<open>cmq-frame.c\<close> and \<^verbatim>\<open>cmq-pkt.c\<close> of \<^verbatim>\<open>src/src/net/cmq\<close>. Frames live on an
    explicit heap whose allocation may fail; lists of frames are queues (\<open>message_queue\<close>). A message
    that is sent is received frame by frame; a connection that is closed inside a message is noticed, a
    timeout inside a message is not; sending ends. One call transfers at most \<open>MAX_RW_COUNT\<close> bytes.
  \<^item> \<^verbatim>\<open>Cmq_Server\<close>, \<^verbatim>\<open>Cmq_Auth\<close>, \<^verbatim>\<open>Cmq_Safety\<close>: the request handlers of \<^verbatim>\<open>cmq-backend.cpp\<close> and the server
    threads of \<^verbatim>\<open>server.cpp\<close>. Every request without a capability is answered as a specification over
    the retained elements says; a request with a capability is served exactly when its signature is
    valid; after \<open>WooFCapInit\<close> only such requests are; no messages on any connections do more to the files
    than append and create. The threads take the connections one after the other.
  \<^item> \<^verbatim>\<open>Cmq_Client\<close>, \<^verbatim>\<open>Cmq_Net\<close>: the client of \<^verbatim>\<open>client.cpp\<close>, the choice of the transport in \<^verbatim>\<open>src/src/net.cpp\<close>,
    and clients and servers together. An exchange over the network is a connection the modelled server
    serves; \<open>remote_log\<close> shows that a remote WooF, with a capability or without, obeys the same
    interface \<open>named_log\<close> as a local one.

  \<^bold>\<open>Bounds.\<close> Properties about sequence numbers assume that they have not wrapped at 64 bits, those about
  the semaphores of a WooF that its history is below \<open>2 ^ 31\<close> (the code stores it in an \<^verbatim>\<open>int\<close>). The
  loops over untrusted input (receiving frames, reading a keychain, attenuating) recurse on the data;
  the retry loops of the client are bounded as in the code. The scan of a forker takes at most as many
  steps as the log has slots; the order in which triggers are claimed is shown for logs below \<open>2 ^ 31\<close>
  slots whose unclaimed triggers fill less than half of them, and for runs below \<open>2 ^ 63\<close> steps. A log is
  created with a byte count that does not wrap (\<open>log_fits\<close>). Numbers in replies are below \<open>10 ^ 15\<close>, those
  that a client gets back below \<open>2 ^ 31\<close>, since they pass through an \<^verbatim>\<open>int32_t\<close>.

  \<^bold>\<open>Not modelled.\<close> The ZeroMQ and MQTT transports work through libraries and command line clients that
  are not part of the repository; the cache of CMQ connections keeps sockets open and changes no
  result; of the dispatcher, the creation of threads and processes, the pipes between them, the throttle
  and the reaping of handlers are left out; the merge of logs, the repair of
  WooFs and the tree of hosts belong to the repair feature, which is off by default; the command line
  tools parse options and print; the applications are programs on top of the interface by name; the
  mapping of files, the red-black trees and the URI parser are dependencies.
\<close>

end
